(* ===== verification/Prelude.thy ===== *)
theory Prelude
  imports Main "HOL-Library.Word" "HOL-Library.Signed_Division"
begin

section \<open>Prelude: undefined behaviour, machine integers, raw bytes\<close>

text \<open>
  What every component of UltraBacktest shares with the C++ language.

  \<^item> Undefined behaviour is a value: an operation that may have it returns
    \<open>'a res = ub + 'a\<close>, and \<open>bind_r\<close> sequences such operations, stopping at the first
    undefined one.
  \<^item> A signed 64-bit value (\<open>int64_t\<close>, hence \<open>Price\<close> and \<open>Nanos\<close>) is an \<open>int\<close>; every
    arithmetic operation on it is checked (\<open>sadd\<close>, \<open>ssub\<close>, \<open>smul\<close>, \<open>sneg\<close>, \<open>sdivide\<close>),
    because overflow of a signed integer is undefined.
  \<^item> An unsigned value (\<open>Qty\<close>, \<open>OrderId\<close>, \<open>size_t\<close> as \<open>64 word\<close>, \<open>Symbol\<close> as
    \<open>32 word\<close>) wraps around, as the language defines.
  \<^item> Objects that are read and written as raw memory are lists of bytes, with
    little-endian fields at fixed offsets (the target is x86-64).
\<close>

named_theorems res_simps \<open>when a checked computation is defined, and with which value\<close>
named_theorems byte_simps \<open>reading and writing fields of raw memory\<close>

type_synonym byte = "8 word"

subsection \<open>Computations that may be undefined\<close>

datatype ub = SignedOverflow | DivByZero | OutOfBounds | NullDeref

type_synonym 'a res = "ub + 'a"

fun bind_r :: "'a res \<Rightarrow> ('a \<Rightarrow> 'b res) \<Rightarrow> 'b res" where
  "bind_r (Inl e) f = Inl e"
| "bind_r (Inr x) f = f x"

fun map_r :: "('a \<Rightarrow> 'b) \<Rightarrow> 'a res \<Rightarrow> 'b res" where
  "map_r f (Inl e) = Inl e"
| "map_r f (Inr x) = Inr (f x)"

text \<open>A loop over a list whose body may be undefined.\<close>

fun fold_r :: "('x \<Rightarrow> 's \<Rightarrow> 's res) \<Rightarrow> 'x list \<Rightarrow> 's \<Rightarrow> 's res" where
  "fold_r f [] s = Inr s"
| "fold_r f (x # xs) s = bind_r (f x s) (fold_r f xs)"

text \<open>\<open>v[i]\<close> on a \<open>std::vector\<close>: no bounds check, undefined outside the vector.\<close>

definition at_r :: "'a list \<Rightarrow> nat \<Rightarrow> 'a res" where
  "at_r xs i = (if i < length xs then Inr (xs ! i) else Inl OutOfBounds)"

subsection \<open>Signed 64-bit arithmetic\<close>

definition in_s64 :: "int \<Rightarrow> bool" where
  "in_s64 x \<longleftrightarrow> - (2 ^ 63) \<le> x \<and> x < 2 ^ 63"

definition chk :: "int \<Rightarrow> int res" where
  "chk x = (if in_s64 x then Inr x else Inl SignedOverflow)"

definition sadd :: "int \<Rightarrow> int \<Rightarrow> int res" where
  "sadd a b = chk (a + b)"

definition ssub :: "int \<Rightarrow> int \<Rightarrow> int res" where
  "ssub a b = chk (a - b)"

definition smul :: "int \<Rightarrow> int \<Rightarrow> int res" where
  "smul a b = chk (a * b)"

definition sneg :: "int \<Rightarrow> int res" where
  "sneg a = chk (- a)"

text \<open>Division truncates towards zero; division by zero is undefined.\<close>

definition sdivide :: "int \<Rightarrow> int \<Rightarrow> int res" where
  "sdivide a b = (if b = 0 then Inl DivByZero else chk (a sdiv b))"

subsection \<open>Raw bytes\<close>

fun bytes_of_nat :: "nat \<Rightarrow> nat \<Rightarrow> byte list" where
  "bytes_of_nat 0 x = []"
| "bytes_of_nat (Suc n) x = word_of_nat (x mod 256) # bytes_of_nat n (x div 256)"

fun nat_of_bytes :: "byte list \<Rightarrow> nat" where
  "nat_of_bytes [] = 0"
| "nat_of_bytes (b # bs) = unat b + 256 * nat_of_bytes bs"

text \<open>The \<open>n\<close> bytes at offset \<open>off\<close>, read and written.\<close>

definition get_bytes :: "nat \<Rightarrow> nat \<Rightarrow> byte list \<Rightarrow> byte list" where
  "get_bytes off n bs = take n (drop off bs)"

definition put_bytes :: "nat \<Rightarrow> byte list \<Rightarrow> byte list \<Rightarrow> byte list" where
  "put_bytes off vs bs = take off bs @ vs @ drop (off + length vs) bs"

definition get_u8 :: "nat \<Rightarrow> byte list \<Rightarrow> byte" where
  "get_u8 off bs = word_of_nat (nat_of_bytes (get_bytes off 1 bs))"

definition get_u32 :: "nat \<Rightarrow> byte list \<Rightarrow> 32 word" where
  "get_u32 off bs = word_of_nat (nat_of_bytes (get_bytes off 4 bs))"

definition get_u64 :: "nat \<Rightarrow> byte list \<Rightarrow> 64 word" where
  "get_u64 off bs = word_of_nat (nat_of_bytes (get_bytes off 8 bs))"

definition get_s64 :: "nat \<Rightarrow> byte list \<Rightarrow> int" where
  "get_s64 off bs = sint (get_u64 off bs)"

definition put_u8 :: "nat \<Rightarrow> byte \<Rightarrow> byte list \<Rightarrow> byte list" where
  "put_u8 off w = put_bytes off (bytes_of_nat 1 (unat w))"

definition put_u32 :: "nat \<Rightarrow> 32 word \<Rightarrow> byte list \<Rightarrow> byte list" where
  "put_u32 off w = put_bytes off (bytes_of_nat 4 (unat w))"

definition put_u64 :: "nat \<Rightarrow> 64 word \<Rightarrow> byte list \<Rightarrow> byte list" where
  "put_u64 off w = put_bytes off (bytes_of_nat 8 (unat w))"

definition put_s64 :: "nat \<Rightarrow> int \<Rightarrow> byte list \<Rightarrow> byte list" where
  "put_s64 off i = put_u64 off (word_of_int i)"

subsection \<open>Facts on undefined behaviour\<close>

lemma bind_r_Inr_iff [res_simps]: "bind_r m f = Inr y \<longleftrightarrow> (\<exists>x. m = Inr x \<and> f x = Inr y)"
  by (cases m) auto

lemma bind_r_pair_Inr_iff:
  "bind_r m (\<lambda>(x, y). f x y) = Inr z \<longleftrightarrow> (\<exists>x y. m = Inr (x, y) \<and> f x y = Inr z)"
  by (cases m) auto

lemma bind_r_cong [fundef_cong]:
  "m = m' \<Longrightarrow> (\<And>x. m' = Inr x \<Longrightarrow> f x = g x) \<Longrightarrow> bind_r m f = bind_r m' g"
  by (cases m') auto

lemma bind_r_assoc: "bind_r (bind_r m f) g = bind_r m (\<lambda>x. bind_r (f x) g)"
  by (cases m) auto

lemma bind_r_Inr_right [simp]: "bind_r m Inr = m"
  by (cases m) auto

lemma map_r_Inr_iff [res_simps]: "map_r f m = Inr y \<longleftrightarrow> (\<exists>x. m = Inr x \<and> y = f x)"
  by (cases m) auto

lemma map_r_Inl_iff: "map_r f m = Inl e \<longleftrightarrow> m = Inl e"
  by (cases m) simp_all

lemma fold_r_Nil [simp]: "fold_r f [] = Inr"
  by (rule ext) simp

lemma fold_r_append: "fold_r f (xs @ ys) s = bind_r (fold_r f xs s) (fold_r f ys)"
  by (induction xs arbitrary: s) (auto simp: bind_r_assoc intro: bind_r_cong)

lemma fold_r_invariant:
  assumes "fold_r f xs s = Inr t" and "P s"
    and "\<And>x u v. x \<in> set xs \<Longrightarrow> P u \<Longrightarrow> f x u = Inr v \<Longrightarrow> P v"
  shows "P t"
  using assms
proof (induction xs arbitrary: s)
  case Nil
  then show ?case by simp
next
  case (Cons x xs)
  then obtain u where u: "f x s = Inr u" "fold_r f xs u = Inr t"
    by (auto simp: bind_r_Inr_iff)
  with Cons.prems have "P u" by (metis list.set_intros(1))
  with u Cons.IH Cons.prems(3) show ?case by (metis list.set_intros(2))
qed

lemma fold_r_id: "(\<And>x s. x \<in> set xs \<Longrightarrow> f x s = Inr s) \<Longrightarrow> fold_r f xs s = Inr s"
  by (induction xs) auto

lemma at_r_Inr_iff [res_simps]: "at_r xs i = Inr x \<longleftrightarrow> i < length xs \<and> x = xs ! i"
  by (auto simp: at_r_def)

lemma at_r_Inl_iff: "at_r xs i = Inl e \<longleftrightarrow> \<not> i < length xs \<and> e = OutOfBounds"
  by (auto simp: at_r_def)

subsection \<open>Facts on lists\<close>

lemma sum_nth_update:
  fixes f :: "'a \<Rightarrow> int"
  assumes "k < n" and "n \<le> length xs"
  shows "(\<Sum>i<n. f (xs[k := v] ! i)) = (\<Sum>i<n. f (xs ! i)) - f (xs ! k) + f v"
proof -
  have "(\<Sum>i<n. f (xs[k := v] ! i)) = f v + (\<Sum>i\<in>{..<n} - {k}. f (xs[k := v] ! i))"
    using assms by (subst sum.remove [of _ k]) auto
  also have "(\<Sum>i\<in>{..<n} - {k}. f (xs[k := v] ! i)) = (\<Sum>i\<in>{..<n} - {k}. f (xs ! i))"
    by (rule sum.cong) auto
  also have "\<dots> = (\<Sum>i<n. f (xs ! i)) - f (xs ! k)"
    using assms by (subst sum_diff1) auto
  finally show ?thesis by simp
qed

subsection \<open>Facts on signed arithmetic\<close>

lemma chk_Inr_iff [res_simps]: "chk x = Inr y \<longleftrightarrow> in_s64 x \<and> y = x"
  by (auto simp: chk_def)

lemma chk_in [simp]: "in_s64 x \<Longrightarrow> chk x = Inr x"
  by (simp add: chk_def)

lemma sadd_Inr_iff [res_simps]: "sadd a b = Inr y \<longleftrightarrow> in_s64 (a + b) \<and> y = a + b"
  by (simp add: sadd_def chk_Inr_iff)

lemma ssub_Inr_iff [res_simps]: "ssub a b = Inr y \<longleftrightarrow> in_s64 (a - b) \<and> y = a - b"
  by (simp add: ssub_def chk_Inr_iff)

lemma smul_Inr_iff [res_simps]: "smul a b = Inr y \<longleftrightarrow> in_s64 (a * b) \<and> y = a * b"
  by (simp add: smul_def chk_Inr_iff)

lemma sneg_Inr_iff [res_simps]: "sneg a = Inr y \<longleftrightarrow> in_s64 (- a) \<and> y = - a"
  by (simp add: sneg_def chk_Inr_iff)

lemma sdivide_Inr_iff [res_simps]:
  "sdivide a b = Inr y \<longleftrightarrow> b \<noteq> 0 \<and> in_s64 (a sdiv b) \<and> y = a sdiv b"
  by (simp add: sdivide_def chk_Inr_iff)

lemma checked_in:
  "in_s64 (a + b) \<Longrightarrow> sadd a b = Inr (a + b)" "in_s64 (a - b) \<Longrightarrow> ssub a b = Inr (a - b)"
  "in_s64 (a * b) \<Longrightarrow> smul a b = Inr (a * b)" "in_s64 (- a) \<Longrightarrow> sneg a = Inr (- a)"
  "b \<noteq> 0 \<Longrightarrow> in_s64 (a sdiv b) \<Longrightarrow> sdivide a b = Inr (a sdiv b)"
  by (simp_all add: res_simps)

lemma in_s64_0 [simp]: "in_s64 0"
  by (simp add: in_s64_def)

lemma in_s64_between: "in_s64 a \<Longrightarrow> in_s64 b \<Longrightarrow> a \<le> x \<Longrightarrow> x \<le> b \<Longrightarrow> in_s64 x"
  by (auto simp: in_s64_def)

lemma in_s64_abs: "\<bar>x\<bar> < 2 ^ 63 \<Longrightarrow> in_s64 x"
  by (auto simp: in_s64_def)

lemma in_s64_sint [simp]: "in_s64 (sint (w :: 64 word))"
  using sint_range_size [of w] by (simp add: in_s64_def word_size)

lemma sint_word_of_int_s64 [simp]: "in_s64 i \<Longrightarrow> sint (word_of_int i :: 64 word) = i"
  by (simp add: in_s64_def sint_sbintrunc' signed_take_bit_int_eq_self)

text \<open>Truncating division by a positive number, as a floor on non-negative values.\<close>

lemma sdiv_pos:
  fixes a b :: int
  assumes "0 < b"
  shows "a sdiv b = (if 0 \<le> a then a div b else - ((- a) div b))"
  using assms by (auto simp: signed_divide_int_def sgn_if)

lemma sdiv_bounds:
  fixes a b :: int
  assumes b: "0 < b" and lo: "lo * b \<le> a" and hi: "a \<le> hi * b"
  shows "lo \<le> a sdiv b \<and> a sdiv b \<le> hi"
proof (cases "0 \<le> a")
  case True
  have "lo \<le> a div b" using lo b by (metis zdiv_mono1 nonzero_mult_div_cancel_right less_irrefl)
  moreover have "a div b \<le> hi" using hi b by (metis zdiv_mono1 nonzero_mult_div_cancel_right less_irrefl)
  ultimately show ?thesis using True b by (simp add: sdiv_pos)
next
  case False
  have "- hi * b \<le> - a" using hi by simp
  then have "- hi \<le> (- a) div b" using b by (metis zdiv_mono1 nonzero_mult_div_cancel_right less_irrefl)
  moreover have "- a \<le> - lo * b" using lo by simp
  then have "(- a) div b \<le> - lo" using b by (metis zdiv_mono1 nonzero_mult_div_cancel_right less_irrefl)
  ultimately show ?thesis using False b by (simp add: sdiv_pos)
qed

lemma sdiv_abs_le:
  fixes a b :: int
  assumes "0 < b"
  shows "\<bar>a sdiv b\<bar> \<le> \<bar>a\<bar>"
proof -
  have "\<bar>a\<bar> * 1 \<le> \<bar>a\<bar> * b" using assms by (intro mult_left_mono) auto
  then have "- \<bar>a\<bar> * b \<le> a" "a \<le> \<bar>a\<bar> * b" by auto
  from sdiv_bounds [OF assms this] show ?thesis by auto
qed

lemma abs_mult_bound: "\<bar>a\<bar> \<le> m \<Longrightarrow> \<bar>b\<bar> \<le> n \<Longrightarrow> \<bar>a * b\<bar> \<le> m * (n :: int)"
  by (simp add: abs_mult mult_mono)

lemma sdiv_remainder:
  fixes a b :: int
  assumes b: "0 < b"
  shows "\<bar>a - (a sdiv b) * b\<bar> \<le> b - 1"
proof (cases "0 \<le> a")
  case True
  have "a - a div b * b = a mod b" by (simp add: minus_div_mult_eq_mod)
  then show ?thesis using True b by (simp add: sdiv_pos)
next
  case False
  have "a + (- a) div b * b = - ((- a) mod b)" using div_mult_mod_eq [of "- a" b] by linarith
  moreover have "0 \<le> (- a) mod b" "(- a) mod b < b" using b by simp_all
  ultimately show ?thesis using False b by (simp add: sdiv_pos)
qed

lemma sdiv_exact [simp]: "0 < b \<Longrightarrow> (a * b) sdiv b = (a :: int)"
  by (auto simp: sdiv_pos zero_le_mult_iff simp flip: mult_minus_left)

subsection \<open>Facts on raw bytes\<close>

lemma unat_byte_less: "unat (b :: byte) < 256"
  using unsigned_less [of b] by simp

lemma unat_byte_mod [simp]: "unat (b :: byte) mod 256 = unat b"
  by (simp add: unat_byte_less)

lemma length_bytes_of_nat [simp]: "length (bytes_of_nat n x) = n"
  by (induction n x rule: bytes_of_nat.induct) auto

lemma nat_of_bytes_of_nat [byte_simps]: "nat_of_bytes (bytes_of_nat n x) = x mod 256 ^ n"
proof (induction n x rule: bytes_of_nat.induct)
  case (2 n x)
  have "unat (word_of_nat (x mod 256) :: byte) = x mod 256"
    by (simp add: unat_of_nat)
  with 2 show ?case by (simp add: mod_mult2_eq)
qed simp

lemma nat_of_bytes_bound: "nat_of_bytes bs < 256 ^ length bs"
proof (induction bs)
  case (Cons b bs)
  have "unat b < 256" by (rule unat_byte_less)
  with Cons show ?case by simp
qed simp

lemma bytes_of_nat_of_bytes [byte_simps]: "bytes_of_nat (length bs) (nat_of_bytes bs) = bs"
proof (induction bs)
  case (Cons b bs)
  have "unat b < 256" by (rule unat_byte_less)
  with Cons show ?case by simp
qed simp

lemma length_get_bytes [simp]: "off + n \<le> length bs \<Longrightarrow> length (get_bytes off n bs) = n"
  by (simp add: get_bytes_def)

lemma length_put_bytes [simp]:
  "off + length vs \<le> length bs \<Longrightarrow> length (put_bytes off vs bs) = length bs"
  by (simp add: put_bytes_def)

lemma get_put_same [byte_simps]:
  "off + length vs \<le> length bs \<Longrightarrow> n = length vs \<Longrightarrow> get_bytes off n (put_bytes off vs bs) = vs"
  by (simp add: get_bytes_def put_bytes_def)

lemma get_put_before [byte_simps]:
  "o1 + n \<le> off \<Longrightarrow> off + length vs \<le> length bs \<Longrightarrow>
   get_bytes o1 n (put_bytes off vs bs) = get_bytes o1 n bs"
  by (auto simp: get_bytes_def put_bytes_def min_def drop_take)

lemma get_put_after [byte_simps]:
  "off + length vs \<le> o1 \<Longrightarrow> off + length vs \<le> length bs \<Longrightarrow>
   get_bytes o1 n (put_bytes off vs bs) = get_bytes o1 n bs"
  by (simp add: get_bytes_def put_bytes_def)

lemma length_put [simp]:
  "off + 1 \<le> length bs \<Longrightarrow> length (put_u8 off a bs) = length bs"
  "off + 4 \<le> length bs \<Longrightarrow> length (put_u32 off b bs) = length bs"
  "off + 8 \<le> length bs \<Longrightarrow> length (put_u64 off c bs) = length bs"
  "off + 8 \<le> length bs \<Longrightarrow> length (put_s64 off d bs) = length bs"
  by (simp_all add: put_u8_def put_u32_def put_u64_def put_s64_def)

lemma word_of_bytes_of_word:
  "256 ^ n = (2 :: nat) ^ LENGTH('a) \<Longrightarrow>
   (word_of_nat (nat_of_bytes (bytes_of_nat n (unat w))) :: 'a :: len word) = w"
  using unsigned_less [of w, where 'a = nat] by (simp add: nat_of_bytes_of_nat)

lemma bytes_of_word_of_bytes:
  "256 ^ length bs = (2 :: nat) ^ LENGTH('a) \<Longrightarrow>
   bytes_of_nat (length bs) (unat (word_of_nat (nat_of_bytes bs) :: 'a :: len word)) = bs"
  using nat_of_bytes_bound [of bs] by (simp add: unat_of_nat bytes_of_nat_of_bytes)

lemma get_put_word [byte_simps]:
  "off + 1 \<le> length bs \<Longrightarrow> get_u8 off (put_u8 off a bs) = a"
  "off + 4 \<le> length bs \<Longrightarrow> get_u32 off (put_u32 off b bs) = b"
  "off + 8 \<le> length bs \<Longrightarrow> get_u64 off (put_u64 off c bs) = c"
  by (simp_all add: get_u8_def put_u8_def get_u32_def put_u32_def get_u64_def put_u64_def
      get_put_same word_of_bytes_of_word)

lemma get_put_s64 [byte_simps]:
  "off + 8 \<le> length bs \<Longrightarrow> in_s64 i \<Longrightarrow> get_s64 off (put_s64 off i bs) = i"
  by (simp add: get_s64_def put_s64_def get_put_word)

text \<open>A field is not changed by a write to memory before or after it.\<close>

lemmas put_defs = put_u8_def put_u32_def put_u64_def put_s64_def
lemmas get_defs = get_u8_def get_u32_def get_u64_def get_s64_def

end
