(* ===== verification/Binary64.thy ===== *)
theory Binary64
  imports Complex_Main "HOL-Library.Log_Nat"
begin

section \<open>IEEE 754 binary64: the type \<open>double\<close>\<close>

text \<open>
  The C++ type \<open>double\<close>, as the analytics and the CSV decoder use it: not a number, the two
  infinities and the finite numbers with their sign bit (zero has two). An operation on
  finite numbers computes the exact real result and rounds it once, to the nearest
  representable number, ties to the even significand, with the 53-bit significand, the
  gradual underflow down to \<open>2 ^ -1074\<close> and the overflow at \<open>2 ^ 1024\<close> of binary64. Every
  operation rounds by itself: contraction into fused operations is not modelled.
\<close>

text \<open>\<open>Fin s m\<close> has the sign bit \<open>s\<close> (\<open>True\<close> for negative) and the magnitude \<open>m \<ge> 0\<close>.\<close>

datatype double = NaN | Inf bool | Fin bool real

fun dval :: "double \<Rightarrow> real" where
  "dval (Fin s m) = (if s then - m else m)"
| "dval _ = 0"

fun is_fin :: "double \<Rightarrow> bool" where
  "is_fin (Fin s m) = (0 \<le> m)"
| "is_fin _ = False"

subsection \<open>Rounding\<close>

definition rne :: "real \<Rightarrow> int" where
  "rne x = (let n = \<lfloor>x\<rfloor>; f = x - of_int n in
     if f < 1 / 2 then n else if 1 / 2 < f then n + 1 else if even n then n else n + 1)"

text \<open>
  The distance between neighbouring representable numbers around the magnitude \<open>x\<close>: with
  \<open>x\<close> counted in units of \<open>2 ^ -1074\<close>, a count of more than 53 bits loses its low bits.
\<close>

definition ulp_exp :: "real \<Rightarrow> nat" where
  "ulp_exp x = nat (bitlen \<lfloor>x * 2 ^ 1074\<rfloor> - 53)"

definition ulp :: "real \<Rightarrow> real" where
  "ulp x = 2 ^ ulp_exp x / 2 ^ 1074"

definition rnd_mag :: "real \<Rightarrow> real" where
  "rnd_mag x = of_int (rne (x / ulp x)) * ulp x"

definition round_d :: "real \<Rightarrow> double" where
  "round_d x = (let m = rnd_mag \<bar>x\<bar> in if 2 ^ 1024 \<le> m then Inf (x < 0) else Fin (x < 0) m)"

subsection \<open>Arithmetic and comparison\<close>

fun dneg :: "double \<Rightarrow> double" where
  "dneg NaN = NaN"
| "dneg (Inf s) = Inf (\<not> s)"
| "dneg (Fin s m) = Fin (\<not> s) m"

fun dadd :: "double \<Rightarrow> double \<Rightarrow> double" where
  "dadd NaN _ = NaN"
| "dadd _ NaN = NaN"
| "dadd (Inf s) (Inf t) = (if s = t then Inf s else NaN)"
| "dadd (Inf s) (Fin _ _) = Inf s"
| "dadd (Fin _ _) (Inf t) = Inf t"
| "dadd (Fin s m) (Fin t n) =
     (let v = dval (Fin s m) + dval (Fin t n) in if v = 0 then Fin (s \<and> t) 0 else round_d v)"

definition dsub :: "double \<Rightarrow> double \<Rightarrow> double" where
  "dsub x y = dadd x (dneg y)"

text \<open>A product or quotient takes its sign from its operands, also when it is zero.\<close>

fun signed_d :: "bool \<Rightarrow> double \<Rightarrow> double" where
  "signed_d s (Fin _ m) = Fin s m"
| "signed_d s (Inf _) = Inf s"
| "signed_d s NaN = NaN"

fun dmul :: "double \<Rightarrow> double \<Rightarrow> double" where
  "dmul NaN _ = NaN"
| "dmul _ NaN = NaN"
| "dmul (Inf s) (Inf t) = Inf (s \<noteq> t)"
| "dmul (Inf s) (Fin t n) = (if n = 0 then NaN else Inf (s \<noteq> t))"
| "dmul (Fin s m) (Inf t) = (if m = 0 then NaN else Inf (s \<noteq> t))"
| "dmul (Fin s m) (Fin t n) = signed_d (s \<noteq> t) (round_d (m * n))"

fun ddiv :: "double \<Rightarrow> double \<Rightarrow> double" where
  "ddiv NaN _ = NaN"
| "ddiv _ NaN = NaN"
| "ddiv (Inf s) (Inf t) = NaN"
| "ddiv (Inf s) (Fin t n) = Inf (s \<noteq> t)"
| "ddiv (Fin s m) (Inf t) = Fin (s \<noteq> t) 0"
| "ddiv (Fin s m) (Fin t n) =
     (if n = 0 then (if m = 0 then NaN else Inf (s \<noteq> t)) else signed_d (s \<noteq> t) (round_d (m / n)))"

text \<open>\<open>std::sqrt\<close>, which the standard requires to be correctly rounded.\<close>

fun dsqrt :: "double \<Rightarrow> double" where
  "dsqrt NaN = NaN"
| "dsqrt (Inf s) = (if s then NaN else Inf False)"
| "dsqrt (Fin s m) = (if m = 0 then Fin s 0 else if s then NaN else round_d (sqrt m))"

text \<open>Every comparison with \<open>NaN\<close> is false; the two zeros are equal.\<close>

fun dlt :: "double \<Rightarrow> double \<Rightarrow> bool" where
  "dlt NaN _ = False"
| "dlt _ NaN = False"
| "dlt (Inf s) (Inf t) = (s \<and> \<not> t)"
| "dlt (Inf s) (Fin _ _) = s"
| "dlt (Fin _ _) (Inf t) = (\<not> t)"
| "dlt (Fin s m) (Fin t n) = (dval (Fin s m) < dval (Fin t n))"

fun deq :: "double \<Rightarrow> double \<Rightarrow> bool" where
  "deq (Inf s) (Inf t) = (s = t)"
| "deq (Fin s m) (Fin t n) = (dval (Fin s m) = dval (Fin t n))"
| "deq _ _ = False"

definition dle :: "double \<Rightarrow> double \<Rightarrow> bool" where
  "dle x y \<longleftrightarrow> dlt x y \<or> deq x y"

text \<open>Conversion from an integer, and a literal of the source (both round).\<close>

definition of_int_d :: "int \<Rightarrow> double" where
  "of_int_d i = round_d (of_int i)"

subsection \<open>Rounding is monotone\<close>

lemma rne_bounds:
  "x \<le> of_int n \<Longrightarrow> rne x \<le> n" "of_int n \<le> x \<Longrightarrow> n \<le> rne x"
proof -
  show "rne x \<le> n" if "x \<le> of_int n"
  proof (cases "x = of_int n")
    case True
    then show ?thesis by (simp add: rne_def)
  next
    case False
    with that have "\<lfloor>x\<rfloor> + 1 \<le> n" by linarith
    then show ?thesis by (auto simp: rne_def Let_def)
  qed
  show "n \<le> rne x" if "of_int n \<le> x"
    using that by (auto simp: rne_def Let_def) (linarith | simp add: le_floor_iff)+
qed

lemma rne_mono:
  assumes "x \<le> y"
  shows "rne x \<le> rne y"
proof (cases "\<lfloor>x\<rfloor> = \<lfloor>y\<rfloor>")
  case True
  then show ?thesis using assms by (auto simp: rne_def Let_def)
next
  case False
  then have "\<lfloor>x\<rfloor> + 1 \<le> \<lfloor>y\<rfloor>" using floor_mono [OF assms] by linarith
  moreover have "rne x \<le> \<lfloor>x\<rfloor> + 1" by (rule rne_bounds) linarith
  moreover have "\<lfloor>y\<rfloor> \<le> rne y" by (rule rne_bounds) simp
  ultimately show ?thesis by linarith
qed

text \<open>The rounding in units of the smallest number.\<close>

definition rnd_units :: "real \<Rightarrow> real" where
  "rnd_units X = (let e = nat (bitlen \<lfloor>X\<rfloor> - 53) in of_int (rne (X / 2 ^ e)) * 2 ^ e)"

lemma rnd_mag_units: "rnd_mag x = rnd_units (x * 2 ^ 1074) / 2 ^ 1074"
  by (simp add: rnd_mag_def rnd_units_def ulp_def ulp_exp_def Let_def)

lemma rnd_units_upper:
  assumes "0 \<le> X" and "nat (bitlen \<lfloor>X\<rfloor> - 53) \<le> e"
  shows "rnd_units X \<le> 2 ^ (53 + e)"
proof -
  let ?e = "nat (bitlen \<lfloor>X\<rfloor> - 53)"
  have "\<lfloor>X\<rfloor> < 2 ^ nat (bitlen \<lfloor>X\<rfloor>)"
  proof (cases "\<lfloor>X\<rfloor> = 0")
    case False
    with assms(1) have "0 < \<lfloor>X\<rfloor>" by linarith
    from bitlen_bounds [OF this] show ?thesis by simp
  qed simp
  also have "(2 :: int) ^ nat (bitlen \<lfloor>X\<rfloor>) \<le> 2 ^ (53 + ?e)" by (rule power_increasing) auto
  finally have "X \<le> 2 ^ (53 + ?e)" by (simp add: floor_less_iff)
  then have "X / 2 ^ ?e \<le> of_int (2 ^ 53)" by (simp add: power_add field_simps)
  then have "rne (X / 2 ^ ?e) \<le> 2 ^ 53" by (rule rne_bounds)
  then have "real_of_int (rne (X / 2 ^ ?e)) \<le> real_of_int (2 ^ 53)" by (simp only: of_int_le_iff)
  then have "real_of_int (rne (X / 2 ^ ?e)) \<le> 2 ^ 53" by simp
  then have "rnd_units X \<le> 2 ^ 53 * 2 ^ ?e" by (simp add: rnd_units_def Let_def mult_right_mono)
  also have "\<dots> \<le> 2 ^ 53 * 2 ^ e" using assms(2) by (intro mult_left_mono power_increasing) auto
  finally show ?thesis by (simp add: power_add)
qed

lemma rnd_units_lower:
  assumes "0 \<le> X" and "nat (bitlen \<lfloor>X\<rfloor> - 53) = Suc e"
  shows "2 ^ (53 + e) \<le> rnd_units X"
proof -
  have b: "bitlen \<lfloor>X\<rfloor> = 54 + int e" using assms(2) by linarith
  then have "0 < \<lfloor>X\<rfloor>" using assms(1) by (metis bitlen_eq_zero_iff add_nonneg_pos le_floor_iff
        less_irrefl of_int_0 of_nat_0_le_iff order_le_less zero_less_numeral add.commute)
  from bitlen_bounds [OF this] have "2 ^ nat (bitlen \<lfloor>X\<rfloor> - 1) \<le> \<lfloor>X\<rfloor>" by simp
  moreover have "nat (bitlen \<lfloor>X\<rfloor> - 1) = 53 + e" using b by simp
  ultimately have "2 ^ (53 + e) \<le> X" by (simp add: le_floor_iff)
  then have "of_int (2 ^ 52) \<le> X / 2 ^ Suc e" by (simp add: power_add field_simps)
  then have "2 ^ 52 \<le> rne (X / 2 ^ Suc e)" by (rule rne_bounds)
  then have "real_of_int (2 ^ 52) \<le> real_of_int (rne (X / 2 ^ Suc e))" by (simp only: of_int_le_iff)
  then have "2 ^ 52 \<le> real_of_int (rne (X / 2 ^ Suc e))" by simp
  then have "2 ^ 52 * 2 ^ Suc e \<le> rnd_units X" using assms(2) by (simp add: rnd_units_def Let_def mult_right_mono del: power_Suc)
  then show ?thesis by (simp add: power_add)
qed

lemma rnd_units_mono:
  assumes "0 \<le> X" and "X \<le> Y"
  shows "rnd_units X \<le> rnd_units Y"
proof -
  let ?e = "\<lambda>Z. nat (bitlen \<lfloor>Z\<rfloor> - 53)"
  have "bitlen \<lfloor>X\<rfloor> \<le> bitlen \<lfloor>Y\<rfloor>"
    using assms floor_mono [OF assms(2)] by (auto simp: bitlen_def intro!: floorlog_mono nat_mono)
  then have "?e X = ?e Y \<or> ?e X < ?e Y" by linarith
  then show ?thesis
  proof
    assume "?e X = ?e Y"
    then show ?thesis
      using assms by (simp add: rnd_units_def Let_def rne_mono divide_right_mono mult_right_mono)
  next
    assume "?e X < ?e Y"
    then obtain e where e: "?e Y = Suc e" "?e X \<le> e" by (cases "?e Y") auto
    have "rnd_units X \<le> 2 ^ (53 + e)" using assms(1) e(2) by (rule rnd_units_upper)
    also have "\<dots> \<le> rnd_units Y" using assms e(1) by (intro rnd_units_lower) auto
    finally show ?thesis .
  qed
qed

lemma rnd_mag_mono: "0 \<le> x \<Longrightarrow> x \<le> y \<Longrightarrow> rnd_mag x \<le> rnd_mag y"
  by (simp add: rnd_mag_units rnd_units_mono divide_right_mono mult_right_mono)

lemma rnd_mag_0 [simp]: "rnd_mag 0 = 0"
  by (simp add: rnd_mag_def rne_def)

lemma rnd_mag_nonneg: "0 \<le> x \<Longrightarrow> 0 \<le> rnd_mag x"
  using rnd_mag_mono [of 0 x] by simp

lemma round_d_0: "round_d 0 = Fin False 0"
  by (simp add: round_d_def)

end
