(* ===== verification/Common_Types.thy ===== *)
theory Common_Types
  imports Prelude Binary64
begin

section \<open>Core types and configuration (\<open>common/types.hpp\<close>, \<open>common/config.hpp\<close>)\<close>

text \<open>
  The identifiers, enumerations and value structs that every component uses, with the fee
  model's computation. The types that \<open>types.hpp\<close> re-exports from UltraLOB have the widths
  and fields of that library as the build uses it: \<open>Price\<close> and \<open>Nanos\<close> are \<open>int64_t\<close> (an
  \<open>int\<close> here, checked), \<open>Qty\<close> and \<open>OrderId\<close> are \<open>uint64_t\<close>, \<open>Symbol\<close> is \<open>uint32_t\<close>,
  \<open>PRICE_SCALE\<close> is \<open>10 ^ 8\<close>. An enumeration over \<open>uint8_t\<close> can hold any byte, so each has one
  more constructor for the bytes without a name.
\<close>

subsection \<open>Types of UltraLOB\<close>

type_synonym Price = int
type_synonym Nanos = int
type_synonym Qty = "64 word"
type_synonym OrderId = "64 word"
type_synonym Symbol = "32 word"

definition PRICE_SCALE :: Price where
  "PRICE_SCALE = 100000000"

datatype Side = Buy | Sell | Side_other byte

definition side_of_code :: "byte \<Rightarrow> Side" where
  "side_of_code b = (if b = 0 then Buy else if b = 1 then Sell else Side_other b)"

fun side_code :: "Side \<Rightarrow> byte" where
  "side_code Buy = 0"
| "side_code Sell = 1"
| "side_code (Side_other b) = b"

datatype OrderType = Market | Limit | Stop | StopLimit | IOC | FOK | GTC

datatype OrderStatus =
  Status_New | PartiallyFilled | Filled | Cancelled | Rejected | PendingActivation

record ExecutionReport =
  rpt_order_id :: OrderId
  rpt_contra_order_id :: OrderId
  rpt_client_id :: "32 word"
  rpt_symbol :: Symbol
  rpt_side :: Side
  rpt_order_type :: OrderType
  rpt_status :: OrderStatus
  rpt_exec_price :: Price
  rpt_exec_qty :: Qty
  rpt_leaves_qty :: Qty
  rpt_cum_qty :: Qty
  rpt_timestamp :: Nanos

record OrderRequest =
  req_id :: OrderId
  req_client_id :: "32 word"
  req_symbol :: Symbol
  req_side :: Side
  req_type :: OrderType
  req_price :: Price
  req_stop_price :: Price
  req_limit_price :: Price
  req_qty :: Qty
  req_timestamp :: Nanos

subsection \<open>Identifiers and constants\<close>

type_synonym StrategyId = "32 word"
type_synonym InstrumentId = "32 word"

definition INVALID_STRATEGY_ID :: StrategyId where
  "INVALID_STRATEGY_ID = 0"

definition INVALID_INSTRUMENT_ID :: InstrumentId where
  "INVALID_INSTRUMENT_ID = 0"

definition MAX_SYMBOLS :: nat where
  "MAX_SYMBOLS = 256"

definition MAX_STRATEGIES :: nat where
  "MAX_STRATEGIES = 16"

definition PREFETCH_DISTANCE :: nat where
  "PREFETCH_DISTANCE = 4"

subsection \<open>Event types\<close>

datatype EventType =
    MarketTick | Trade | Quote | OrderAdd | OrderCancel | OrderModify | OrderExecution
  | StrategyTimer | BarClose | SessionStart | SessionEnd | EndOfData | EventType_other byte

fun event_type_code :: "EventType \<Rightarrow> byte" where
  "event_type_code MarketTick = 0"
| "event_type_code Trade = 1"
| "event_type_code Quote = 2"
| "event_type_code OrderAdd = 3"
| "event_type_code OrderCancel = 4"
| "event_type_code OrderModify = 5"
| "event_type_code OrderExecution = 6"
| "event_type_code StrategyTimer = 10"
| "event_type_code BarClose = 11"
| "event_type_code SessionStart = 20"
| "event_type_code SessionEnd = 21"
| "event_type_code EndOfData = 255"
| "event_type_code (EventType_other b) = b"

definition event_type_of_code :: "byte \<Rightarrow> EventType" where
  "event_type_of_code b =
     (if b = 0 then MarketTick else if b = 1 then Trade else if b = 2 then Quote
      else if b = 3 then OrderAdd else if b = 4 then OrderCancel else if b = 5 then OrderModify
      else if b = 6 then OrderExecution else if b = 10 then StrategyTimer
      else if b = 11 then BarClose else if b = 20 then SessionStart
      else if b = 21 then SessionEnd else if b = 255 then EndOfData else EventType_other b)"

fun EventType_to_string :: "EventType \<Rightarrow> string" where
  "EventType_to_string MarketTick = ''MarketTick''"
| "EventType_to_string Trade = ''Trade''"
| "EventType_to_string Quote = ''Quote''"
| "EventType_to_string OrderAdd = ''OrderAdd''"
| "EventType_to_string OrderCancel = ''OrderCancel''"
| "EventType_to_string OrderModify = ''OrderModify''"
| "EventType_to_string OrderExecution = ''OrderExecution''"
| "EventType_to_string StrategyTimer = ''StrategyTimer''"
| "EventType_to_string BarClose = ''BarClose''"
| "EventType_to_string SessionStart = ''SessionStart''"
| "EventType_to_string SessionEnd = ''SessionEnd''"
| "EventType_to_string EndOfData = ''EndOfData''"
| "EventType_to_string (EventType_other b) = ''Unknown''"

subsection \<open>Fees and slippage\<close>

record FeeModel =
  per_share_fee :: Price
  per_trade_fee :: Price
  maker_rebate :: Price
  taker_fee :: Price

definition FeeModel_default :: FeeModel where
  "FeeModel_default = \<lparr>per_share_fee = 0, per_trade_fee = 0, maker_rebate = 0, taker_fee = 0\<rparr>"

text \<open>\<open>FeeModel::compute\<close>: \<open>static_cast<Price>\<close> of a quantity reads it as signed.\<close>

definition fee_compute :: "FeeModel \<Rightarrow> Qty \<Rightarrow> bool \<Rightarrow> Price res" where
  "fee_compute fm fill_qty is_maker =
     bind_r (smul (per_share_fee fm) (sint fill_qty)) (\<lambda>share_cost.
     bind_r (if is_maker then sneg (maker_rebate fm) else Inr (taker_fee fm)) (\<lambda>exchange_fee.
     bind_r (smul exchange_fee (sint fill_qty)) (\<lambda>exchange_cost.
     bind_r (sadd share_cost exchange_cost) (\<lambda>s. sadd s (per_trade_fee fm)))))"

datatype SlippageModel = Slippage_None | Slippage_Fixed | VolumeImpact | SlippageModel_other byte

record SlippageConfig =
  slippage_model :: SlippageModel
  fixed_slippage :: Price
  impact_factor :: double

definition SlippageConfig_default :: SlippageConfig where
  "SlippageConfig_default =
     \<lparr>slippage_model = Slippage_None, fixed_slippage = 0, impact_factor = Fin False 0\<rparr>"

subsection \<open>Configuration\<close>

datatype DataFormat = CSV | BinaryTick | CompressedBinary | MemoryMapped | DataFormat_other byte

fun DataFormat_to_string :: "DataFormat \<Rightarrow> string" where
  "DataFormat_to_string CSV = ''CSV''"
| "DataFormat_to_string BinaryTick = ''BinaryTick''"
| "DataFormat_to_string CompressedBinary = ''CompressedBinary''"
| "DataFormat_to_string MemoryMapped = ''MemoryMapped''"
| "DataFormat_to_string (DataFormat_other b) = ''Unknown''"

datatype ReplaySpeed = MaxSpeed | RealTime | Scaled | StepByStep | ReplaySpeed_other byte

record BacktestConfig =
  data_paths :: "string list"
  data_format :: DataFormat
  symbols :: "Symbol list"
  start_time :: Nanos
  end_time :: Nanos
  replay_speed :: ReplaySpeed
  speed_multiplier :: double
  simulated_latency :: Nanos
  order_pool_capacity :: "64 word"
  fee_model :: FeeModel
  slippage_config :: SlippageConfig
  initial_cash :: Price
  output_dir :: string
  enable_profiling :: bool
  trace_output :: string
  log_level :: string

definition BacktestConfig_default :: BacktestConfig where
  "BacktestConfig_default =
     \<lparr>data_paths = [], data_format = CSV, symbols = [], start_time = 0, end_time = 0,
      replay_speed = MaxSpeed, speed_multiplier = Fin False 1, simulated_latency = 0,
      order_pool_capacity = 1000000, fee_model = FeeModel_default,
      slippage_config = SlippageConfig_default, initial_cash = 1000000 * PRICE_SCALE,
      output_dir = '''', enable_profiling = False, trace_output = '''', log_level = ''info''\<rparr>"

subsection \<open>Facts\<close>

lemma side_code_of_code [simp]: "side_code (side_of_code b) = b"
  by (simp add: side_of_code_def)

lemma side_of_code_named [simp]: "side_of_code 0 = Buy" "side_of_code 1 = Sell"
  by (simp_all add: side_of_code_def)

lemma event_type_code_of_code [simp]: "event_type_code (event_type_of_code b) = b"
  by (simp add: event_type_of_code_def)

text \<open>The value an event type has after it was stored in its byte and read back.\<close>

definition named_event_type :: "EventType \<Rightarrow> bool" where
  "named_event_type t \<longleftrightarrow> (case t of EventType_other b \<Rightarrow> False | _ \<Rightarrow> True)"

lemma event_type_of_code_named [simp]:
  "named_event_type t \<Longrightarrow> event_type_of_code (event_type_code t) = t"
  by (cases t) (auto simp: event_type_of_code_def named_event_type_def)

text \<open>When the fee is defined it is the linear formula of the fee model.\<close>

lemma fee_compute_Inr_iff [res_simps]:
  "fee_compute fm q mk = Inr f \<longleftrightarrow>
     (let n = sint q; ex = (if mk then - maker_rebate fm else taker_fee fm) in
      in_s64 (per_share_fee fm * n) \<and> (mk \<longrightarrow> in_s64 (- maker_rebate fm)) \<and> in_s64 (ex * n) \<and>
      in_s64 (per_share_fee fm * n + ex * n) \<and>
      in_s64 (per_share_fee fm * n + ex * n + per_trade_fee fm) \<and>
      f = per_share_fee fm * n + ex * n + per_trade_fee fm)"
  by (auto simp: fee_compute_def res_simps Let_def)

end
