(* ===== verification/Portfolio.thy ===== *)
theory Portfolio
  imports Common_Types
begin

section \<open>Portfolio (\<open>portfolio/portfolio.hpp\<close>, \<open>portfolio.cpp\<close>)\<close>

text \<open>
  Positions, cash and profit and loss from execution reports. The class is the record
  \<open>Portfolio\<close>; \<open>on_execution\<close> and \<open>update_m2m\<close> are its state changes, \<open>total_pnl\<close> and
  \<open>total_equity\<close> its queries, all over checked 64-bit arithmetic. Whether a report is a fill
  is decided by UltraLOB (\<open>ExecutionReport::is_fill\<close>) and is a parameter.

  The abstract specification of one position is a ledger in unbounded integers
  (\<open>ledger_step\<close>); every defined execution refines it. The lemmas about runs of operations
  are proved on the ledger and carried over.
\<close>

subsection \<open>State\<close>

record Position =
  pos_symbol :: Symbol
  net_qty :: int
  avg_entry_price :: Price
  realized_pnl :: Price
  unrealized_pnl :: Price
  total_traded :: Qty
  num_trades :: "32 word"
  last_price :: Price

definition Position_default :: Position where
  "Position_default = \<lparr>pos_symbol = 0, net_qty = 0, avg_entry_price = 0, realized_pnl = 0,
     unrealized_pnl = 0, total_traded = 0, num_trades = 0, last_price = 0\<rparr>"

record Portfolio =
  pf_config :: BacktestConfig
  cash :: Price
  positions :: "Position list"

definition Portfolio_new :: "BacktestConfig \<Rightarrow> Portfolio" where
  "Portfolio_new cfg = \<lparr>pf_config = cfg, cash = initial_cash cfg,
     positions = map (\<lambda>i. Position_default\<lparr>pos_symbol := word_of_nat i\<rparr>) [0..<MAX_SYMBOLS]\<rparr>"

subsection \<open>Operations\<close>

text \<open>The body of \<open>update_m2m\<close> on the position it marks.\<close>

definition mark_position :: "Price \<Rightarrow> Position \<Rightarrow> Position res" where
  "mark_position lp p =
     (let p = p\<lparr>last_price := lp\<rparr> in
      if net_qty p > 0 then
        bind_r (ssub lp (avg_entry_price p)) (\<lambda>d.
        bind_r (smul d (net_qty p)) (\<lambda>u. Inr (p\<lparr>unrealized_pnl := u\<rparr>)))
      else if net_qty p < 0 then
        bind_r (ssub (avg_entry_price p) lp) (\<lambda>d.
        bind_r (sneg (net_qty p)) (\<lambda>n.
        bind_r (smul d n) (\<lambda>u. Inr (p\<lparr>unrealized_pnl := u\<rparr>))))
      else Inr (p\<lparr>unrealized_pnl := 0\<rparr>))"

definition update_m2m :: "Symbol \<Rightarrow> Price \<Rightarrow> Portfolio \<Rightarrow> Portfolio res" where
  "update_m2m symb lp pf =
     bind_r (at_r (positions pf) (unat symb)) (\<lambda>p.
     bind_r (mark_position lp p) (\<lambda>p'. Inr (pf\<lparr>positions := (positions pf)[unat symb := p']\<rparr>)))"

text \<open>The two branches of \<open>on_execution\<close>, on the position and the cash.\<close>

definition exec_buy :: "int \<Rightarrow> Price \<Rightarrow> Position \<Rightarrow> Price \<Rightarrow> (Position \<times> Price) res" where
  "exec_buy qty exec_price p c =
     (if net_qty p \<ge> 0 then
        bind_r (smul (avg_entry_price p) (net_qty p)) (\<lambda>a.
        bind_r (smul exec_price qty) (\<lambda>b.
        bind_r (sadd a b) (\<lambda>total_cost.
        bind_r (sadd (net_qty p) qty) (\<lambda>n.
        bind_r (sdivide total_cost n) (\<lambda>avg.
          Inr (p\<lparr>net_qty := n, avg_entry_price := avg\<rparr>, c))))))
      else
        bind_r (sneg (net_qty p)) (\<lambda>m.
        let closing_qty = min qty m in
        bind_r (ssub (avg_entry_price p) exec_price) (\<lambda>d.
        bind_r (smul d closing_qty) (\<lambda>realized.
        bind_r (sadd (realized_pnl p) realized) (\<lambda>r.
        bind_r (sadd c realized) (\<lambda>c'.
        bind_r (sadd (net_qty p) qty) (\<lambda>n.
          Inr (p\<lparr>realized_pnl := r, net_qty := n,
                 avg_entry_price := (if n > 0 then exec_price else if n = 0 then 0
                                     else avg_entry_price p)\<rparr>, c'))))))))"

definition exec_sell :: "int \<Rightarrow> Price \<Rightarrow> Position \<Rightarrow> Price \<Rightarrow> (Position \<times> Price) res" where
  "exec_sell qty exec_price p c =
     (if net_qty p \<le> 0 then
        bind_r (sneg (net_qty p)) (\<lambda>m.
        bind_r (smul (avg_entry_price p) m) (\<lambda>a.
        bind_r (smul exec_price qty) (\<lambda>b.
        bind_r (sadd a b) (\<lambda>total_value.
        bind_r (ssub (net_qty p) qty) (\<lambda>n.
        bind_r (sneg n) (\<lambda>k.
        bind_r (sdivide total_value k) (\<lambda>avg.
          Inr (p\<lparr>net_qty := n, avg_entry_price := avg\<rparr>, c))))))))
      else
        (let closing_qty = min qty (net_qty p) in
        bind_r (ssub exec_price (avg_entry_price p)) (\<lambda>d.
        bind_r (smul d closing_qty) (\<lambda>realized.
        bind_r (sadd (realized_pnl p) realized) (\<lambda>r.
        bind_r (sadd c realized) (\<lambda>c'.
        bind_r (ssub (net_qty p) qty) (\<lambda>n.
          Inr (p\<lparr>realized_pnl := r, net_qty := n,
                 avg_entry_price := (if n < 0 then exec_price else if n = 0 then 0
                                     else avg_entry_price p)\<rparr>, c'))))))))"

text \<open>
  \<open>Portfolio::on_execution\<close>. Any side other than \<open>Buy\<close> sells. The fee is charged as a taker.
\<close>

definition on_execution ::
  "(ExecutionReport \<Rightarrow> bool) \<Rightarrow> ExecutionReport \<Rightarrow> Portfolio \<Rightarrow> Portfolio res" where
  "on_execution is_fill rpt pf =
     (if \<not> is_fill rpt then Inr pf
      else
        bind_r (at_r (positions pf) (unat (rpt_symbol rpt))) (\<lambda>p.
        bind_r (fee_compute (fee_model (pf_config pf)) (rpt_exec_qty rpt) False) (\<lambda>fee.
        bind_r (ssub (cash pf) fee) (\<lambda>c.
        let qty = sint (rpt_exec_qty rpt); exec_price = rpt_exec_price rpt in
        bind_r (if rpt_side rpt = Buy then exec_buy qty exec_price p c
                else exec_sell qty exec_price p c) (\<lambda>(p', c').
        let p' = p'\<lparr>total_traded := total_traded p' + word_of_int qty,
                    num_trades := num_trades p' + 1, last_price := exec_price\<rparr>;
            pf' = pf\<lparr>cash := c', positions := (positions pf)[unat (rpt_symbol rpt) := p']\<rparr>
        in update_m2m (rpt_symbol rpt) exec_price pf')))))"

definition get_position :: "Portfolio \<Rightarrow> Symbol \<Rightarrow> Position res" where
  "get_position pf symb = at_r (positions pf) (unat symb)"

definition total_pnl_step :: "Position list \<Rightarrow> nat \<Rightarrow> Price \<Rightarrow> Price res" where
  "total_pnl_step ps i t =
     bind_r (at_r ps i) (\<lambda>p.
       if num_trades p > 0 \<or> net_qty p \<noteq> 0
       then bind_r (sadd (realized_pnl p) (unrealized_pnl p)) (\<lambda>x. sadd t x)
       else Inr t)"

definition total_pnl :: "Portfolio \<Rightarrow> Price res" where
  "total_pnl pf = fold_r (total_pnl_step (positions pf)) [0..<MAX_SYMBOLS] 0"

definition total_equity :: "Portfolio \<Rightarrow> Price res" where
  "total_equity pf = bind_r (total_pnl pf) (\<lambda>t. sadd (cash pf) t)"

text \<open>A sequence of calls on one portfolio.\<close>

datatype pf_op = Exec ExecutionReport | Mark Symbol Price

fun pf_step :: "(ExecutionReport \<Rightarrow> bool) \<Rightarrow> pf_op \<Rightarrow> Portfolio \<Rightarrow> Portfolio res" where
  "pf_step is_fill (Exec rpt) pf = on_execution is_fill rpt pf"
| "pf_step is_fill (Mark symb lp) pf = update_m2m symb lp pf"

definition pf_run :: "(ExecutionReport \<Rightarrow> bool) \<Rightarrow> pf_op list \<Rightarrow> Portfolio \<Rightarrow> Portfolio res" where
  "pf_run is_fill = fold_r (pf_step is_fill)"

subsection \<open>The abstract ledger of one position\<close>

record Ledger =
  lg_net :: int
  lg_avg :: int
  lg_realized :: int

text \<open>
  A fill of the signed quantity \<open>d\<close> at price \<open>x\<close>: in the direction of the position (or from a
  flat one) it moves the average entry price, against it it realizes profit on the quantity
  it closes, and what is left opens a position at \<open>x\<close>.
\<close>

definition ledger_step :: "int \<times> int \<Rightarrow> Ledger \<Rightarrow> Ledger" where
  "ledger_step dx l =
     (let d = fst dx; x = snd dx; n = lg_net l; a = lg_avg l; n' = n + d in
      if 0 \<le> n * d then
        l\<lparr>lg_net := n', lg_avg := (a * \<bar>n\<bar> + x * \<bar>d\<bar>) sdiv \<bar>n'\<bar>\<rparr>
      else
        l\<lparr>lg_net := n',
          lg_avg := (if n' = 0 then 0 else if 0 < n * n' then a else x),
          lg_realized := lg_realized l + sgn n * (x - a) * min \<bar>d\<bar> \<bar>n\<bar>\<rparr>)"

definition abs_pos :: "Position \<Rightarrow> Ledger" where
  "abs_pos p = \<lparr>lg_net = net_qty p, lg_avg = avg_entry_price p, lg_realized = realized_pnl p\<rparr>"

definition signed_qty :: "ExecutionReport \<Rightarrow> int" where
  "signed_qty rpt = (if rpt_side rpt = Buy then sint (rpt_exec_qty rpt) else - sint (rpt_exec_qty rpt))"

text \<open>The fills of symbol \<open>i\<close> in a sequence of operations, as signed quantity and price.\<close>

fun op_fill :: "(ExecutionReport \<Rightarrow> bool) \<Rightarrow> nat \<Rightarrow> pf_op \<Rightarrow> (int \<times> int) list" where
  "op_fill is_fill i (Exec r) =
     (if is_fill r \<and> unat (rpt_symbol r) = i then [(signed_qty r, rpt_exec_price r)] else [])"
| "op_fill is_fill i (Mark _ _) = []"

definition fills :: "(ExecutionReport \<Rightarrow> bool) \<Rightarrow> nat \<Rightarrow> pf_op list \<Rightarrow> (int \<times> int) list" where
  "fills is_fill i ops = concat (map (op_fill is_fill i) ops)"

text \<open>The fee the model charges for a report, and for a sequence of operations.\<close>

definition taker_cost :: "FeeModel \<Rightarrow> ExecutionReport \<Rightarrow> int" where
  "taker_cost fm r = (per_share_fee fm + taker_fee fm) * sint (rpt_exec_qty r) + per_trade_fee fm"

fun op_fee :: "(ExecutionReport \<Rightarrow> bool) \<Rightarrow> FeeModel \<Rightarrow> pf_op \<Rightarrow> int" where
  "op_fee is_fill fm (Exec r) = (if is_fill r then taker_cost fm r else 0)"
| "op_fee is_fill fm (Mark _ _) = 0"

text \<open>Quantities are positive as signed numbers in every fill.\<close>

fun op_positive :: "(ExecutionReport \<Rightarrow> bool) \<Rightarrow> pf_op \<Rightarrow> bool" where
  "op_positive is_fill (Exec r) = (is_fill r \<longrightarrow> 0 < sint (rpt_exec_qty r))"
| "op_positive is_fill (Mark _ _) = True"

definition realized_sum :: "Portfolio \<Rightarrow> int" where
  "realized_sum pf = (\<Sum>i<MAX_SYMBOLS. realized_pnl (positions pf ! i))"

definition unrealized_sum :: "Portfolio \<Rightarrow> int" where
  "unrealized_sum pf = (\<Sum>i<MAX_SYMBOLS. unrealized_pnl (positions pf ! i))"

text \<open>The invariant of the class.\<close>

definition pos_inv :: "nat \<Rightarrow> Position \<Rightarrow> bool" where
  "pos_inv i p \<longleftrightarrow> pos_symbol p = word_of_nat i \<and> (net_qty p = 0 \<longrightarrow> avg_entry_price p = 0) \<and>
     unrealized_pnl p = (last_price p - avg_entry_price p) * net_qty p"

definition pf_inv :: "Portfolio \<Rightarrow> bool" where
  "pf_inv pf \<longleftrightarrow> length (positions pf) = MAX_SYMBOLS \<and>
     (\<forall>i < MAX_SYMBOLS. pos_inv i (positions pf ! i))"

subsection \<open>Refinement of the ledger\<close>

lemma mark_position_Inr:
  "mark_position lp p = Inr p' \<Longrightarrow>
   p' = p\<lparr>last_price := lp, unrealized_pnl := (lp - avg_entry_price p) * net_qty p\<rparr>"
  by (auto simp: mark_position_def Let_def res_simps split: if_splits) (simp add: algebra_simps)

lemma update_m2m_Inr:
  assumes "update_m2m symb lp pf = Inr pf'"
  shows "unat symb < length (positions pf) \<and>
    pf' = pf\<lparr>positions := (positions pf)[unat symb :=
      (positions pf ! unat symb)\<lparr>last_price := lp,
        unrealized_pnl := (lp - avg_entry_price (positions pf ! unat symb)) *
          net_qty (positions pf ! unat symb)\<rparr>]\<rparr>"
  using assms by (auto simp: update_m2m_def res_simps dest!: mark_position_Inr)

text \<open>
  The position after a defined execution, written with the ledger: the execution's effect on
  quantity, average price and realized profit is one ledger step, and the cash moves by the
  realized profit.
\<close>

definition exec_position :: "int \<Rightarrow> Price \<Rightarrow> Position \<Rightarrow> Position" where
  "exec_position d x p = (let l = ledger_step (d, x) (abs_pos p) in
     p\<lparr>net_qty := lg_net l, avg_entry_price := lg_avg l, realized_pnl := lg_realized l\<rparr>)"

lemma exec_buy_Inr:
  assumes "exec_buy q x p c = Inr (p', c')" and "0 < q"
  shows "p' = exec_position q x p \<and> c' = c + (realized_pnl p' - realized_pnl p)"
proof (cases "0 \<le> net_qty p")
  case True
  then have "0 \<le> net_qty p * q" "\<bar>net_qty p + q\<bar> = net_qty p + q" using assms(2) by auto
  with True assms show ?thesis
    by (auto simp: exec_buy_def exec_position_def ledger_step_def abs_pos_def Let_def res_simps)
next
  case False
  then have "\<not> 0 \<le> net_qty p * q" using assms(2) by (simp add: zero_le_mult_iff)
  moreover have "0 < net_qty p * (net_qty p + q) \<longleftrightarrow> net_qty p + q < 0"
    using False by (auto simp: zero_less_mult_iff)
  ultimately show ?thesis using False assms
    by (auto simp: exec_buy_def exec_position_def ledger_step_def abs_pos_def Let_def res_simps
        sgn_if)
qed

lemma exec_sell_Inr:
  assumes "exec_sell q x p c = Inr (p', c')" and "0 < q"
  shows "p' = exec_position (- q) x p \<and> c' = c + (realized_pnl p' - realized_pnl p)"
proof (cases "net_qty p \<le> 0")
  case True
  then have "net_qty p * q \<le> 0" "\<bar>net_qty p - q\<bar> = q - net_qty p"
    using assms(2) by (auto simp: mult_le_0_iff)
  with True assms show ?thesis
    by (auto simp: exec_sell_def exec_position_def ledger_step_def abs_pos_def Let_def res_simps
        simp del: sdiv_minus_eq minus_sdiv_eq)
next
  case False
  then have "\<not> net_qty p * q \<le> 0" using assms(2) by (simp add: mult_le_0_iff)
  moreover have "0 < net_qty p * (net_qty p - q) \<longleftrightarrow> 0 < net_qty p - q"
    using False by (auto simp: zero_less_mult_iff)
  ultimately show ?thesis using False assms
    by (auto simp: exec_sell_def exec_position_def ledger_step_def abs_pos_def Let_def res_simps
        sgn_if)
qed

text \<open>The whole position after a fill.\<close>

definition fill_position :: "ExecutionReport \<Rightarrow> Position \<Rightarrow> Position" where
  "fill_position r p =
     (let p1 = exec_position (signed_qty r) (rpt_exec_price r) p in
      p1\<lparr>total_traded := total_traded p + rpt_exec_qty r, num_trades := num_trades p + 1,
         last_price := rpt_exec_price r,
         unrealized_pnl := (rpt_exec_price r - avg_entry_price p1) * net_qty p1\<rparr>)"

lemma exec_position_simps [simp]:
  "pos_symbol (exec_position d x p) = pos_symbol p"
  "total_traded (exec_position d x p) = total_traded p"
  "num_trades (exec_position d x p) = num_trades p"
  "abs_pos (exec_position d x p) = ledger_step (d, x) (abs_pos p)"
  by (simp_all add: exec_position_def Let_def abs_pos_def)

lemma fill_position_simps [simp]:
  "pos_symbol (fill_position r p) = pos_symbol p"
  "num_trades (fill_position r p) = num_trades p + 1"
  "total_traded (fill_position r p) = total_traded p + rpt_exec_qty r"
  "last_price (fill_position r p) = rpt_exec_price r"
  "abs_pos (fill_position r p) = ledger_step (signed_qty r, rpt_exec_price r) (abs_pos p)"
  by (simp_all add: fill_position_def Let_def abs_pos_def exec_position_def)

lemma fill_position_ledger:
  "net_qty (fill_position r p) = lg_net (ledger_step (signed_qty r, rpt_exec_price r) (abs_pos p))"
  "avg_entry_price (fill_position r p) = lg_avg (ledger_step (signed_qty r, rpt_exec_price r) (abs_pos p))"
  "realized_pnl (fill_position r p) = lg_realized (ledger_step (signed_qty r, rpt_exec_price r) (abs_pos p))"
  by (simp_all add: fill_position_def Let_def exec_position_def)

lemma fill_position_unrealized:
  "unrealized_pnl (fill_position r p) =
   (rpt_exec_price r - avg_entry_price (fill_position r p)) * net_qty (fill_position r p)"
  by (simp add: fill_position_def Let_def)

lemma on_execution_Inr:
  assumes ex: "on_execution is_fill r pf = Inr pf'" and fill: "is_fill r"
    and pos: "0 < sint (rpt_exec_qty r)"
  shows "unat (rpt_symbol r) < length (positions pf) \<and>
    pf' = pf\<lparr>cash := cash pf - taker_cost (fee_model (pf_config pf)) r +
        (realized_pnl (fill_position r (positions pf ! unat (rpt_symbol r))) -
         realized_pnl (positions pf ! unat (rpt_symbol r))),
      positions := (positions pf)[unat (rpt_symbol r) :=
        fill_position r (positions pf ! unat (rpt_symbol r))]\<rparr>"
proof -
  let ?i = "unat (rpt_symbol r)" and ?q = "sint (rpt_exec_qty r)" and ?x = "rpt_exec_price r"
  let ?p = "positions pf ! ?i"
  let ?c = "cash pf - taker_cost (fee_model (pf_config pf)) r"
  let ?fin = "\<lambda>p1. p1\<lparr>total_traded := total_traded p1 + word_of_int ?q,
    num_trades := num_trades p1 + 1, last_price := ?x\<rparr>"
  from ex fill obtain fee where i: "?i < length (positions pf)"
    and fee: "fee_compute (fee_model (pf_config pf)) (rpt_exec_qty r) False = Inr fee"
    and c: "ssub (cash pf) fee = Inr (cash pf - fee)"
    by (auto simp: on_execution_def bind_r_Inr_iff at_r_Inr_iff ssub_Inr_iff)
  from fee have fee_eq: "fee = taker_cost (fee_model (pf_config pf)) r"
    by (simp add: fee_compute_Inr_iff Let_def taker_cost_def distrib_right)
  have "bind_r (if rpt_side r = Buy then exec_buy ?q ?x ?p ?c else exec_sell ?q ?x ?p ?c)
      (\<lambda>(p1, c1). update_m2m (rpt_symbol r) ?x
        (pf\<lparr>cash := c1, positions := (positions pf)[?i := ?fin p1]\<rparr>)) = Inr pf'"
    using ex fill i fee c by (simp add: on_execution_def at_r_def Let_def fee_eq)
  then obtain p1 c1
    where br: "(if rpt_side r = Buy then exec_buy ?q ?x ?p ?c else exec_sell ?q ?x ?p ?c) = Inr (p1, c1)"
      and up: "update_m2m (rpt_symbol r) ?x
        (pf\<lparr>cash := c1, positions := (positions pf)[?i := ?fin p1]\<rparr>) = Inr pf'"
    unfolding bind_r_pair_Inr_iff by blast
  from br pos have p1: "p1 = exec_position (signed_qty r) ?x ?p"
    and c1: "c1 = ?c + (realized_pnl p1 - realized_pnl ?p)"
    by (auto simp: signed_qty_def split: if_splits dest!: exec_buy_Inr exec_sell_Inr)
  have r: "realized_pnl (fill_position r ?p) = realized_pnl p1"
    by (simp add: p1 fill_position_def Let_def)
  have f: "(?fin p1)\<lparr>unrealized_pnl := (?x - avg_entry_price p1) * net_qty p1\<rparr> = fill_position r ?p"
    by (simp add: p1 fill_position_def Let_def)
  show ?thesis using update_m2m_Inr [OF up] i c1 r f by simp
qed

lemma on_execution_no_fill [simp]: "\<not> is_fill r \<Longrightarrow> on_execution is_fill r pf = Inr pf"
  by (simp add: on_execution_def)

subsection \<open>The ledger over a sequence of fills\<close>

lemma ledger_step_net [simp]: "lg_net (ledger_step dx l) = lg_net l + fst dx"
  by (simp add: ledger_step_def Let_def)

lemma ledger_net: "lg_net (fold ledger_step fs l) = lg_net l + sum_list (map fst fs)"
  by (induction fs arbitrary: l) (auto simp: add.assoc)

text \<open>A flat position has no entry price.\<close>

definition lg_flat :: "Ledger \<Rightarrow> bool" where
  "lg_flat l \<longleftrightarrow> (lg_net l = 0 \<longrightarrow> lg_avg l = 0)"

lemma ledger_step_flat: "fst dx \<noteq> 0 \<Longrightarrow> lg_flat (ledger_step dx l)"
  by (auto simp: lg_flat_def ledger_step_def Let_def zero_le_mult_iff)

text \<open>The entry price is an average: it stays between bounds on the prices traded.\<close>

definition lg_within :: "int \<Rightarrow> int \<Rightarrow> Ledger \<Rightarrow> bool" where
  "lg_within lo hi l \<longleftrightarrow> (lg_net l \<noteq> 0 \<longrightarrow> lo \<le> lg_avg l \<and> lg_avg l \<le> hi)"

lemma abs_add_same_sign: "0 \<le> n * d \<Longrightarrow> \<bar>n + d\<bar> = \<bar>n\<bar> + \<bar>d :: int\<bar>"
  by (auto simp: zero_le_mult_iff)

lemma ledger_step_within:
  assumes l: "lg_within lo hi l" and d: "d \<noteq> 0" and x: "lo \<le> x" "x \<le> hi"
  shows "lg_within lo hi (ledger_step (d, x) l)"
proof (cases "0 \<le> lg_net l * d")
  case True
  let ?n = "\<bar>lg_net l\<bar>" and ?t = "lg_avg l * \<bar>lg_net l\<bar> + x * \<bar>d\<bar>"
  have "lo * ?n \<le> lg_avg l * ?n \<and> lg_avg l * ?n \<le> hi * ?n"
    using l by (cases "lg_net l = 0") (auto simp: lg_within_def intro: mult_right_mono)
  moreover have "lo * \<bar>d\<bar> \<le> x * \<bar>d\<bar> \<and> x * \<bar>d\<bar> \<le> hi * \<bar>d\<bar>"
    using x by (simp add: mult_right_mono)
  ultimately have "lo * (?n + \<bar>d\<bar>) \<le> ?t" "?t \<le> hi * (?n + \<bar>d\<bar>)"
    by (simp_all add: distrib_left)
  moreover have "0 < ?n + \<bar>d\<bar>" using d by linarith
  ultimately have "lo \<le> ?t sdiv \<bar>lg_net l + d\<bar> \<and> ?t sdiv \<bar>lg_net l + d\<bar> \<le> hi"
    unfolding abs_add_same_sign [OF True] by (intro sdiv_bounds)
  then show ?thesis using True by (simp add: lg_within_def ledger_step_def Let_def)
next
  case False
  then have "lg_net l \<noteq> 0" by auto
  then show ?thesis using False l x by (auto simp: lg_within_def ledger_step_def Let_def)
qed

lemma ledger_within:
  assumes "lg_within lo hi l"
    and "\<And>d x. (d, x) \<in> set fs \<Longrightarrow> d \<noteq> 0 \<and> lo \<le> x \<and> x \<le> hi"
  shows "lg_within lo hi (fold ledger_step fs l)"
  using assms
proof (induction fs arbitrary: l)
  case (Cons f fs)
  obtain d x where f: "f = (d, x)" by fastforce
  have "lg_within lo hi (ledger_step f l)"
    unfolding f by (rule ledger_step_within) (use Cons.prems f in auto)
  from Cons.IH [OF this] Cons.prems(2) show ?case by auto
qed simp

text \<open>
  The truncation of the average price is the only inexactness: the difference between the
  ledger's profit and the cash flow of its fills changes by less than the size of the
  position at each fill that increases it, and not at all at a fill that reduces it.
\<close>

definition lg_gain :: "Ledger \<Rightarrow> int" where
  "lg_gain l = lg_realized l - lg_avg l * lg_net l"

definition flow :: "(int \<times> int) list \<Rightarrow> int" where
  "flow fs = sum_list (map (\<lambda>(d, x). - (d * x)) fs)"

fun drift_bound :: "(int \<times> int) list \<Rightarrow> int \<Rightarrow> int" where
  "drift_bound [] n = 0"
| "drift_bound ((d, x) # fs) n = (if 0 \<le> n * d then \<bar>n + d\<bar> - 1 else 0) + drift_bound fs (n + d)"

lemma ledger_step_gain_reduce:
  assumes "\<not> 0 \<le> lg_net l * d"
  shows "lg_gain (ledger_step (d, x) l) = lg_gain l - d * x"
proof -
  let ?n = "lg_net l"
  have nz: "?n \<noteq> 0" "d \<noteq> 0" using assms by auto
  have sg: "sgn ?n * \<bar>?n\<bar> = ?n" "sgn ?n * \<bar>d\<bar> = - d"
    using assms by (auto simp: sgn_if zero_le_mult_iff)
  show ?thesis
  proof (cases "0 < ?n * (?n + d)")
    case True
    then have "min \<bar>d\<bar> \<bar>?n\<bar> = \<bar>d\<bar>" using assms by (auto simp: zero_less_mult_iff zero_le_mult_iff)
    moreover have "sgn ?n * (x - lg_avg l) * \<bar>d\<bar> = - d * (x - lg_avg l)" using sg(2) by (metis mult.assoc mult.commute)
    moreover have "?n + d \<noteq> 0" using True by auto
    ultimately have "lg_gain (ledger_step (d, x) l) =
        lg_realized l + - d * (x - lg_avg l) - lg_avg l * (?n + d)"
      using assms True by (simp add: lg_gain_def ledger_step_def Let_def)
    then show ?thesis by (simp add: lg_gain_def algebra_simps)
  next
    case False
    then have "min \<bar>d\<bar> \<bar>?n\<bar> = \<bar>?n\<bar>" using assms nz by (auto simp: zero_less_mult_iff zero_le_mult_iff)
    moreover have "sgn ?n * (x - lg_avg l) * \<bar>?n\<bar> = ?n * (x - lg_avg l)" using sg(1) by (metis mult.assoc mult.commute)
    ultimately have "lg_gain (ledger_step (d, x) l) =
        lg_realized l + ?n * (x - lg_avg l) - x * (?n + d)"
      using assms False by (simp add: lg_gain_def ledger_step_def Let_def)
    then show ?thesis by (simp add: lg_gain_def algebra_simps)
  qed
qed

lemma ledger_step_gain_increase:
  assumes "0 \<le> lg_net l * d" and "d \<noteq> 0"
  shows "\<bar>lg_gain (ledger_step (d, x) l) - (lg_gain l - d * x)\<bar> \<le> \<bar>lg_net l + d\<bar> - 1"
proof -
  let ?n = "lg_net l" and ?m = "\<bar>lg_net l + d\<bar>"
  let ?t = "lg_avg l * \<bar>?n\<bar> + x * \<bar>d\<bar>"
  have m: "0 < ?m" using assms abs_add_same_sign [OF assms(1)] by simp
  obtain s where s: "\<bar>s\<bar> = (1 :: int)" "?n = s * \<bar>?n\<bar>" "d = s * \<bar>d\<bar>" "?n + d = s * ?m"
  proof (cases "0 < ?n + d")
    case True
    then show thesis using assms that [of 1] by (auto simp: zero_le_mult_iff)
  next
    case False
    then show thesis using assms that [of "- 1"] by (auto simp: zero_le_mult_iff)
  qed
  have "lg_gain (ledger_step (d, x) l) - (lg_gain l - d * x) =
      lg_avg l * ?n + d * x - (?t sdiv ?m) * (?n + d)"
    using assms by (simp add: lg_gain_def ledger_step_def Let_def)
  also have "\<dots> = s * (?t - (?t sdiv ?m) * ?m)"
  proof -
    have "lg_avg l * ?n = s * (lg_avg l * \<bar>?n\<bar>)" using s(2) by (metis mult.left_commute)
    moreover have "d * x = s * (x * \<bar>d\<bar>)" using s(3) by (metis mult.left_commute mult.commute)
    moreover have "(?t sdiv ?m) * (?n + d) = s * ((?t sdiv ?m) * ?m)" using s(4) by (metis mult.left_commute)
    ultimately show ?thesis by (simp only: right_diff_distrib distrib_left)
  qed
  finally show ?thesis using sdiv_remainder [OF m, of ?t] s(1) by (simp add: abs_mult)
qed

lemma ledger_gain_bound:
  assumes "\<And>d x. (d, x) \<in> set fs \<Longrightarrow> d \<noteq> 0"
  shows "\<bar>lg_gain (fold ledger_step fs l) - (lg_gain l + flow fs)\<bar> \<le> drift_bound fs (lg_net l)"
  using assms
proof (induction fs arbitrary: l)
  case Nil
  then show ?case by (simp add: flow_def)
next
  case (Cons f fs)
  obtain d x where f: "f = (d, x)" by fastforce
  let ?l = "ledger_step (d, x) l"
  have "\<bar>lg_gain ?l - (lg_gain l - d * x)\<bar> \<le> (if 0 \<le> lg_net l * d then \<bar>lg_net l + d\<bar> - 1 else 0)"
    using Cons.prems f ledger_step_gain_increase [of l d x] ledger_step_gain_reduce [of l d x] by auto
  moreover have "\<bar>lg_gain (fold ledger_step fs ?l) - (lg_gain ?l + flow fs)\<bar> \<le> drift_bound fs (lg_net l + d)"
    using Cons.IH [of ?l] Cons.prems by auto
  moreover have "flow (f # fs) = - (d * x) + flow fs" by (simp add: f flow_def)
  ultimately show ?case by (simp add: f)
qed

subsection \<open>Runs of the portfolio\<close>

lemma update_m2m_frame:
  assumes "update_m2m symb lp pf = Inr pf'"
  shows "length (positions pf') = length (positions pf) \<and> cash pf' = cash pf \<and>
    pf_config pf' = pf_config pf \<and>
    abs_pos (positions pf' ! i) = abs_pos (positions pf ! i) \<and>
    num_trades (positions pf' ! i) = num_trades (positions pf ! i) \<and>
    (i \<noteq> unat symb \<longrightarrow> positions pf' ! i = positions pf ! i)"
  using update_m2m_Inr [OF assms] by (cases "i = unat symb") (auto simp: abs_pos_def)

lemma pf_step_frame:
  assumes "pf_step is_fill op pf = Inr pf'" and "op_positive is_fill op"
  shows "length (positions pf') = length (positions pf) \<and> pf_config pf' = pf_config pf"
proof (cases op)
  case (Exec r)
  then show ?thesis using assms on_execution_Inr [of is_fill r pf pf'] by (cases "is_fill r") auto
next
  case (Mark symb lp)
  then show ?thesis using assms update_m2m_frame [of symb lp pf pf'] by simp
qed

text \<open>One operation on the portfolio is, for every symbol, the ledger steps of its fills.\<close>

lemma pf_step_refines:
  assumes "pf_step is_fill op pf = Inr pf'" and "op_positive is_fill op"
    and "i < length (positions pf)"
  shows "abs_pos (positions pf' ! i) = fold ledger_step (op_fill is_fill i op) (abs_pos (positions pf ! i)) \<and>
    num_trades (positions pf' ! i) = num_trades (positions pf ! i) + word_of_nat (length (op_fill is_fill i op))"
proof (cases op)
  case (Exec r)
  then show ?thesis using assms on_execution_Inr [of is_fill r pf pf']
    by (cases "is_fill r"; cases "i = unat (rpt_symbol r)") auto
next
  case (Mark symb lp)
  then show ?thesis using assms update_m2m_frame [of symb lp pf pf' i] by simp
qed

lemma pf_step_cash:
  assumes "pf_step is_fill op pf = Inr pf'" and "op_positive is_fill op"
    and len: "length (positions pf) = MAX_SYMBOLS"
  shows "cash pf' - realized_sum pf' = cash pf - realized_sum pf - op_fee is_fill (fee_model (pf_config pf)) op"
proof (cases op)
  case (Exec r)
  show ?thesis
  proof (cases "is_fill r")
    case True
    let ?i = "unat (rpt_symbol r)" and ?v = "fill_position r (positions pf ! unat (rpt_symbol r))"
    have st: "?i < MAX_SYMBOLS"
      "pf' = pf\<lparr>cash := cash pf - taker_cost (fee_model (pf_config pf)) r +
          (realized_pnl ?v - realized_pnl (positions pf ! ?i)), positions := (positions pf)[?i := ?v]\<rparr>"
      using assms Exec True on_execution_Inr [of is_fill r pf pf'] by auto
    have "realized_sum pf' = realized_sum pf - realized_pnl (positions pf ! ?i) + realized_pnl ?v"
      using st len sum_nth_update [of ?i MAX_SYMBOLS "positions pf" realized_pnl ?v]
      by (simp add: realized_sum_def)
    then show ?thesis using st Exec True by simp
  qed (use assms Exec in simp)
next
  case (Mark symb lp)
  have "realized_pnl (positions pf' ! i) = realized_pnl (positions pf ! i)" for i
    using assms Mark update_m2m_frame [of symb lp pf pf' i] by (auto simp: abs_pos_def)
  then show ?thesis using assms Mark update_m2m_frame [of symb lp pf pf'] by (simp add: realized_sum_def)
qed

lemma pf_step_inv:
  assumes "pf_step is_fill op pf = Inr pf'" and "op_positive is_fill op" and inv: "pf_inv pf"
  shows "pf_inv pf'"
proof (cases op)
  case (Exec r)
  show ?thesis
  proof (cases "is_fill r")
    case True
    let ?i = "unat (rpt_symbol r)"
    let ?p = "positions pf ! ?i"
    have q: "signed_qty r \<noteq> 0" using assms(2) Exec True by (auto simp: signed_qty_def)
    have "lg_flat (abs_pos (fill_position r ?p))" using q by (simp add: ledger_step_flat)
    then have "net_qty (fill_position r ?p) = 0 \<longrightarrow> avg_entry_price (fill_position r ?p) = 0"
      by (simp add: lg_flat_def abs_pos_def)
    then have "pos_inv ?i ?p \<Longrightarrow> pos_inv ?i (fill_position r ?p)"
      using fill_position_unrealized [of r ?p] by (simp add: pos_inv_def)
    moreover have "?i < MAX_SYMBOLS \<and> positions pf' = (positions pf)[?i := fill_position r ?p]"
      using assms Exec True on_execution_Inr [of is_fill r pf pf'] by (auto simp: pf_inv_def)
    ultimately show ?thesis using inv by (auto simp: pf_inv_def nth_list_update)
  qed (use assms Exec in simp)
next
  case (Mark symb lp)
  with assms update_m2m_Inr [of symb lp pf pf'] show ?thesis
    by (auto simp: pf_inv_def pos_inv_def nth_list_update)
qed

lemma pf_run_Nil [simp]: "pf_run is_fill [] pf = Inr pf"
  by (simp add: pf_run_def)

lemma pf_run_Cons:
  "pf_run is_fill (op # ops) pf = bind_r (pf_step is_fill op pf) (pf_run is_fill ops)"
  by (simp add: pf_run_def)

lemma fills_simps [simp]:
  "fills is_fill i [] = []" "fills is_fill i (op # ops) = op_fill is_fill i op @ fills is_fill i ops"
  by (simp_all add: fills_def)

lemma pf_run_refines:
  assumes "pf_run is_fill ops pf = Inr pf'" and "list_all (op_positive is_fill) ops"
    and "i < length (positions pf)"
  shows "length (positions pf') = length (positions pf) \<and> pf_config pf' = pf_config pf \<and>
    abs_pos (positions pf' ! i) = fold ledger_step (fills is_fill i ops) (abs_pos (positions pf ! i)) \<and>
    num_trades (positions pf' ! i) =
      num_trades (positions pf ! i) + word_of_nat (length (fills is_fill i ops))"
  using assms
proof (induction ops arbitrary: pf)
  case (Cons op ops)
  then obtain pf1 where st: "pf_step is_fill op pf = Inr pf1" and rn: "pf_run is_fill ops pf1 = Inr pf'"
    by (auto simp: pf_run_Cons bind_r_Inr_iff)
  have "op_positive is_fill op" "list_all (op_positive is_fill) ops" using Cons.prems by auto
  with Cons.IH [OF rn] st pf_step_frame [OF st] pf_step_refines [OF st] Cons.prems(3)
  show ?case by (simp add: add.assoc)
qed simp

lemma pf_run_inv:
  assumes "pf_run is_fill ops pf = Inr pf'" and "list_all (op_positive is_fill) ops" and "pf_inv pf"
  shows "pf_inv pf'"
  using assms(1) [unfolded pf_run_def] assms(3)
  by (rule fold_r_invariant) (use assms(2) pf_step_inv in \<open>auto simp: list_all_iff\<close>)

lemma pf_run_cash:
  assumes "pf_run is_fill ops pf = Inr pf'" and "list_all (op_positive is_fill) ops"
    and "length (positions pf) = MAX_SYMBOLS"
  shows "cash pf' - realized_sum pf' =
    cash pf - realized_sum pf - sum_list (map (op_fee is_fill (fee_model (pf_config pf))) ops)"
  using assms
proof (induction ops arbitrary: pf)
  case (Cons op ops)
  then obtain pf1 where st: "pf_step is_fill op pf = Inr pf1" and rn: "pf_run is_fill ops pf1 = Inr pf'"
    by (auto simp: pf_run_Cons bind_r_Inr_iff)
  have "op_positive is_fill op" "list_all (op_positive is_fill) ops" using Cons.prems by auto
  with Cons.IH [OF rn] pf_step_frame [OF st] pf_step_cash [OF st] Cons.prems(3)
  show ?case by simp
qed simp

lemma length_Portfolio_new [simp]: "length (positions (Portfolio_new cfg)) = MAX_SYMBOLS"
  by (simp add: Portfolio_new_def)

lemma positions_Portfolio_new:
  "i < MAX_SYMBOLS \<Longrightarrow> positions (Portfolio_new cfg) ! i = Position_default\<lparr>pos_symbol := word_of_nat i\<rparr>"
  by (simp add: Portfolio_new_def)

lemma pf_inv_new: "pf_inv (Portfolio_new cfg)"
  by (simp add: pf_inv_def pos_inv_def positions_Portfolio_new) (simp add: Position_default_def)

lemma realized_sum_new: "realized_sum (Portfolio_new cfg) = 0"
  by (simp add: realized_sum_def positions_Portfolio_new) (simp add: Position_default_def)

lemma config_new [simp]: "pf_config (Portfolio_new cfg) = cfg" "cash (Portfolio_new cfg) = initial_cash cfg"
  by (simp_all add: Portfolio_new_def)

lemma abs_pos_new:
  "i < MAX_SYMBOLS \<Longrightarrow> abs_pos (positions (Portfolio_new cfg) ! i) = \<lparr>lg_net = 0, lg_avg = 0, lg_realized = 0\<rparr>"
  by (simp add: positions_Portfolio_new) (simp add: Position_default_def abs_pos_def)

lemma fills_nonzero:
  assumes "list_all (op_positive is_fill) ops" and "(d, x) \<in> set (fills is_fill i ops)"
  shows "d \<noteq> 0"
  using assms
proof (induction ops)
  case (Cons op ops)
  then show ?case by (cases op) (auto simp: signed_qty_def split: if_splits)
qed simp

end
