(* ===== verification/Portfolio_Runs.thy ===== *)
theory Portfolio_Runs
  imports Portfolio
begin

section \<open>Portfolio: totals, defined runs, properties\<close>

text \<open>
  What a sequence of executions and marks does to a portfolio that starts fresh: the totals
  over all symbols, a budget of prices, quantities and operations within which no signed
  overflow, division by zero or access out of bounds happens, and the properties of the
  component.
\<close>

subsection \<open>Total profit and equity\<close>

lemma total_pnl_prefix:
  assumes "n \<le> length ps"
  shows "fold_r (total_pnl_step ps) [0..<n] 0 = Inr t \<Longrightarrow>
    t = (\<Sum>i<n. if num_trades (ps ! i) > 0 \<or> net_qty (ps ! i) \<noteq> 0
          then realized_pnl (ps ! i) + unrealized_pnl (ps ! i) else 0)"
  using assms
proof (induction n arbitrary: t)
  case (Suc n)
  then obtain u where u: "fold_r (total_pnl_step ps) [0..<n] 0 = Inr u"
    and t: "total_pnl_step ps n u = Inr t"
    by (auto simp: fold_r_append bind_r_Inr_iff)
  then show ?case using Suc.IH [OF u] Suc.prems
    by (auto simp: total_pnl_step_def res_simps split: if_splits)
qed simp

lemma total_pnl_Inr:
  assumes "total_pnl pf = Inr t" and "length (positions pf) = MAX_SYMBOLS"
    and "\<And>i. i < MAX_SYMBOLS \<Longrightarrow> num_trades (positions pf ! i) = 0 \<Longrightarrow> net_qty (positions pf ! i) = 0 \<Longrightarrow>
      realized_pnl (positions pf ! i) = 0 \<and> unrealized_pnl (positions pf ! i) = 0"
  shows "t = realized_sum pf + unrealized_sum pf"
proof -
  have "t = (\<Sum>i<MAX_SYMBOLS. realized_pnl (positions pf ! i) + unrealized_pnl (positions pf ! i))"
    unfolding total_pnl_prefix [OF eq_refl [OF assms(2) [symmetric]] assms(1) [unfolded total_pnl_def]]
    by (rule sum.cong) (use assms(3) in \<open>auto simp: word_gt_0\<close>)
  then show ?thesis by (simp add: realized_sum_def unrealized_sum_def sum.distrib)
qed

lemma total_pnl_prefix_defined:
  assumes "n \<le> length ps" and "0 \<le> R" and "int n * R < 2 ^ 63"
    and "\<And>i. i < n \<Longrightarrow> \<bar>realized_pnl (ps ! i)\<bar> + \<bar>unrealized_pnl (ps ! i)\<bar> \<le> R"
  shows "\<exists>t. fold_r (total_pnl_step ps) [0..<n] 0 = Inr t \<and> \<bar>t\<bar> \<le> int n * R"
  using assms
proof (induction n)
  case (Suc n)
  have "int n * R + R < 2 ^ 63" using Suc.prems(3) by (simp add: distrib_right)
  moreover from this Suc obtain t where t: "fold_r (total_pnl_step ps) [0..<n] 0 = Inr t" "\<bar>t\<bar> \<le> int n * R"
    by (auto simp: distrib_right)
  moreover have "\<bar>realized_pnl (ps ! n)\<bar> + \<bar>unrealized_pnl (ps ! n)\<bar> \<le> R" "0 \<le> int n * R"
    using Suc.prems by simp_all
  ultimately have b: "\<bar>realized_pnl (ps ! n) + unrealized_pnl (ps ! n)\<bar> < 2 ^ 63"
    "\<bar>t + (realized_pnl (ps ! n) + unrealized_pnl (ps ! n))\<bar> < 2 ^ 63"
    "\<bar>t + (realized_pnl (ps ! n) + unrealized_pnl (ps ! n))\<bar> \<le> int n * R + R" "\<bar>t\<bar> \<le> int n * R + R"
    using Suc.prems(2) by linarith+
  then have "\<exists>u. total_pnl_step ps n t = Inr u \<and> \<bar>u\<bar> \<le> int n * R + R"
    using Suc.prems(1) by (auto simp: total_pnl_step_def at_r_def checked_in in_s64_abs)
  then show ?case using t(1) by (auto simp: fold_r_append distrib_right)
qed simp

lemma total_pnl_defined:
  assumes "length (positions pf) = MAX_SYMBOLS" and "0 \<le> R" and "int MAX_SYMBOLS * R < 2 ^ 63"
    and "\<And>i. i < MAX_SYMBOLS \<Longrightarrow>
      \<bar>realized_pnl (positions pf ! i)\<bar> + \<bar>unrealized_pnl (positions pf ! i)\<bar> \<le> R"
  shows "\<exists>t. total_pnl pf = Inr t \<and> \<bar>t\<bar> \<le> int MAX_SYMBOLS * R"
  unfolding total_pnl_def by (rule total_pnl_prefix_defined) (use assms in auto)

text \<open>A position that was never traded holds no profit, while the trade counter has not wrapped.\<close>

lemma pf_run_untraded:
  assumes run: "pf_run is_fill ops (Portfolio_new cfg) = Inr pf"
    and pos: "list_all (op_positive is_fill) ops"
    and cnt: "length ops < 2 ^ 32" and i: "i < MAX_SYMBOLS"
    and nt: "num_trades (positions pf ! i) = 0"
  shows "realized_pnl (positions pf ! i) = 0 \<and> unrealized_pnl (positions pf ! i) = 0"
proof -
  note ref = pf_run_refines [OF run pos, of i]
  have "length (fills is_fill i ops) \<le> length ops"
    unfolding fills_def
  proof (induction ops)
    case (Cons op ops)
    then show ?case by (cases op) auto
  qed simp
  moreover have "(word_of_nat (length (fills is_fill i ops)) :: 32 word) = 0"
    using ref i nt by (simp add: positions_Portfolio_new) (simp add: Position_default_def)
  ultimately have "fills is_fill i ops = []"
    using cnt by (auto simp: word_of_nat_eq_0_iff dest!: dvd_imp_le)
  then have "abs_pos (positions pf ! i) = \<lparr>lg_net = 0, lg_avg = 0, lg_realized = 0\<rparr>"
    using ref i by (simp add: abs_pos_new)
  moreover have "pos_inv i (positions pf ! i)"
    using pf_run_inv [OF run pos pf_inv_new] i by (simp add: pf_inv_def)
  ultimately show ?thesis by (simp add: abs_pos_def pos_inv_def)
qed

lemma pf_run_net:
  assumes "pf_run is_fill ops (Portfolio_new cfg) = Inr pf" and "list_all (op_positive is_fill) ops"
    and "i < MAX_SYMBOLS"
  shows "net_qty (positions pf ! i) = sum_list (map fst (fills is_fill i ops))"
proof -
  have "abs_pos (positions pf ! i) = fold ledger_step (fills is_fill i ops) (abs_pos (positions (Portfolio_new cfg) ! i))"
    using pf_run_refines [OF assms(1,2), of i] assms(3) by simp
  from arg_cong [OF this, of lg_net] show ?thesis
    unfolding ledger_net abs_pos_new [OF assms(3)] by (simp add: abs_pos_def)
qed

subsection \<open>When a run is defined\<close>

lemma exec_buy_defined:
  assumes b: "\<bar>net_qty p\<bar> \<le> N" "\<bar>avg_entry_price p\<bar> \<le> P" "\<bar>x\<bar> \<le> P" "0 < q" "q \<le> Q"
    "\<bar>realized_pnl p\<bar> \<le> R" "\<bar>c\<bar> \<le> C"
    and lim: "P * (N + Q) < 2 ^ 63" "N + Q < 2 ^ 63" "2 * P < 2 ^ 63"
      "R + 2 * P * Q < 2 ^ 63" "C + 2 * P * Q < 2 ^ 63"
  shows "\<exists>y. exec_buy q x p c = Inr y"
proof (cases "0 \<le> net_qty p")
  case True
  let ?t = "avg_entry_price p * net_qty p + x * q"
  have "\<bar>avg_entry_price p * net_qty p\<bar> \<le> P * N" "\<bar>x * q\<bar> \<le> P * Q"
    using b by (auto intro: abs_mult_bound)
  moreover have "0 \<le> P * N" "0 \<le> P * Q" using b by auto
  ultimately have bnd: "\<bar>avg_entry_price p * net_qty p\<bar> < 2 ^ 63" "\<bar>x * q\<bar> < 2 ^ 63" "\<bar>?t\<bar> < 2 ^ 63"
    using lim(1) by (simp_all add: distrib_left)
  have n: "0 < net_qty p + q" "\<bar>net_qty p + q\<bar> < 2 ^ 63" using True b lim(2) by auto
  have "\<bar>?t sdiv (net_qty p + q)\<bar> < 2 ^ 63" using sdiv_abs_le [OF n(1), of ?t] bnd(3) by linarith
  then show ?thesis using True n bnd
    by (simp add: exec_buy_def checked_in in_s64_abs)
next
  case False
  let ?k = "min q (- net_qty p)"
  have k: "\<bar>?k\<bar> \<le> Q" using b False by auto
  have d: "\<bar>avg_entry_price p - x\<bar> \<le> 2 * P" using b by auto
  have m: "\<bar>(avg_entry_price p - x) * ?k\<bar> \<le> 2 * P * Q" using abs_mult_bound [OF d k] by simp
  have "0 \<le> R" "0 \<le> C" using b by auto
  then have bnd: "\<bar>avg_entry_price p - x\<bar> < 2 ^ 63" "\<bar>(avg_entry_price p - x) * ?k\<bar> < 2 ^ 63"
    "\<bar>realized_pnl p + (avg_entry_price p - x) * ?k\<bar> < 2 ^ 63" "\<bar>c + (avg_entry_price p - x) * ?k\<bar> < 2 ^ 63"
    using b m d lim by linarith+
  have n: "\<bar>- net_qty p\<bar> < 2 ^ 63" "\<bar>net_qty p + q\<bar> < 2 ^ 63" using False b lim(2) by auto
  show ?thesis using False n bnd by (simp add: exec_buy_def checked_in in_s64_abs Let_def)
qed

lemma exec_sell_defined:
  assumes b: "\<bar>net_qty p\<bar> \<le> N" "\<bar>avg_entry_price p\<bar> \<le> P" "\<bar>x\<bar> \<le> P" "0 < q" "q \<le> Q"
    "\<bar>realized_pnl p\<bar> \<le> R" "\<bar>c\<bar> \<le> C"
    and lim: "P * (N + Q) < 2 ^ 63" "N + Q < 2 ^ 63" "2 * P < 2 ^ 63"
      "R + 2 * P * Q < 2 ^ 63" "C + 2 * P * Q < 2 ^ 63"
  shows "\<exists>y. exec_sell q x p c = Inr y"
proof (cases "net_qty p \<le> 0")
  case True
  let ?t = "avg_entry_price p * (- net_qty p) + x * q"
  have "\<bar>avg_entry_price p * (- net_qty p)\<bar> \<le> P * N" "\<bar>x * q\<bar> \<le> P * Q"
    using b by (auto intro!: abs_mult_bound simp del: mult_minus_right)
  moreover have "0 \<le> P * N" "0 \<le> P * Q" using b by auto
  ultimately have bnd: "\<bar>avg_entry_price p * (- net_qty p)\<bar> < 2 ^ 63" "\<bar>x * q\<bar> < 2 ^ 63" "\<bar>?t\<bar> < 2 ^ 63"
    using lim(1) unfolding distrib_left by linarith+
  have n: "0 < - (net_qty p - q)" "\<bar>- (net_qty p - q)\<bar> < 2 ^ 63" "\<bar>net_qty p - q\<bar> < 2 ^ 63"
    "\<bar>- net_qty p\<bar> < 2 ^ 63" using True b lim(2) by auto
  have "\<bar>?t sdiv (- (net_qty p - q))\<bar> < 2 ^ 63" using sdiv_abs_le [OF n(1), of ?t] bnd(3) by linarith
  moreover have "- (net_qty p - q) \<noteq> 0" using n(1) by linarith
  ultimately show ?thesis using True n bnd
    by (simp add: exec_sell_def checked_in in_s64_abs
        del: mult_minus_right minus_diff_eq sdiv_minus_eq)
next
  case False
  let ?k = "min q (net_qty p)"
  have k: "\<bar>?k\<bar> \<le> Q" using b False by auto
  have d: "\<bar>x - avg_entry_price p\<bar> \<le> 2 * P" using b by auto
  have m: "\<bar>(x - avg_entry_price p) * ?k\<bar> \<le> 2 * P * Q" using abs_mult_bound [OF d k] by simp
  have "0 \<le> R" "0 \<le> C" using b by auto
  then have bnd: "\<bar>x - avg_entry_price p\<bar> < 2 ^ 63" "\<bar>(x - avg_entry_price p) * ?k\<bar> < 2 ^ 63"
    "\<bar>realized_pnl p + (x - avg_entry_price p) * ?k\<bar> < 2 ^ 63" "\<bar>c + (x - avg_entry_price p) * ?k\<bar> < 2 ^ 63"
    using b m d lim by linarith+
  have n: "\<bar>net_qty p - q\<bar> < 2 ^ 63" using False b lim(2) by auto
  show ?thesis using False n bnd by (simp add: exec_sell_def checked_in in_s64_abs Let_def)
qed

text \<open>The bounds that a run keeps: \<open>k\<close> operations with prices up to \<open>P\<close> and quantities up to \<open>Q\<close>.\<close>

fun op_bounded :: "(ExecutionReport \<Rightarrow> bool) \<Rightarrow> int \<Rightarrow> int \<Rightarrow> pf_op \<Rightarrow> bool" where
  "op_bounded is_fill P Q (Exec r) =
     (is_fill r \<longrightarrow> unat (rpt_symbol r) < MAX_SYMBOLS \<and> \<bar>rpt_exec_price r\<bar> \<le> P \<and>
        0 < sint (rpt_exec_qty r) \<and> sint (rpt_exec_qty r) \<le> Q)"
| "op_bounded is_fill P Q (Mark symb x) = (unat symb < MAX_SYMBOLS \<and> \<bar>x\<bar> \<le> P)"

definition fee_bound :: "FeeModel \<Rightarrow> int \<Rightarrow> int" where
  "fee_bound fm Q = (\<bar>per_share_fee fm\<bar> + \<bar>taker_fee fm\<bar>) * Q + \<bar>per_trade_fee fm\<bar>"

definition pf_bounded :: "int \<Rightarrow> int \<Rightarrow> int \<Rightarrow> int \<Rightarrow> int \<Rightarrow> Portfolio \<Rightarrow> bool" where
  "pf_bounded P Q F C k pf \<longleftrightarrow> length (positions pf) = MAX_SYMBOLS \<and>
     \<bar>cash pf\<bar> \<le> C + k * (2 * P * Q + F) \<and>
     (\<forall>i < MAX_SYMBOLS. \<bar>net_qty (positions pf ! i)\<bar> \<le> k * Q \<and>
        \<bar>avg_entry_price (positions pf ! i)\<bar> \<le> P \<and>
        \<bar>realized_pnl (positions pf ! i)\<bar> \<le> k * (2 * P * Q))"

lemma op_bounded_positive: "op_bounded is_fill P Q op \<Longrightarrow> op_positive is_fill op"
  by (cases op) auto

lemma ledger_step_abs_bounds:
  assumes "\<bar>lg_avg l\<bar> \<le> P" "\<bar>x\<bar> \<le> P" "d \<noteq> 0" "\<bar>d\<bar> \<le> Q"
  shows "\<bar>lg_avg (ledger_step (d, x) l)\<bar> \<le> P \<and>
    \<bar>lg_realized (ledger_step (d, x) l) - lg_realized l\<bar> \<le> 2 * P * Q"
proof
  have "lg_within (- P) P (ledger_step (d, x) l)"
    by (rule ledger_step_within) (use assms in \<open>auto simp: lg_within_def\<close>)
  moreover have "lg_flat (ledger_step (d, x) l)" using assms(3) by (simp add: ledger_step_flat)
  ultimately show "\<bar>lg_avg (ledger_step (d, x) l)\<bar> \<le> P"
    using assms(1) by (cases "lg_net (ledger_step (d, x) l) = 0") (auto simp: lg_within_def lg_flat_def)
next
  have "\<bar>sgn (lg_net l) * (x - lg_avg l)\<bar> \<le> 2 * P" using assms(1,2) by (auto simp: sgn_if)
  moreover have "\<bar>min \<bar>d\<bar> \<bar>lg_net l\<bar>\<bar> \<le> Q" using assms(4) by auto
  ultimately have "\<bar>sgn (lg_net l) * (x - lg_avg l) * min \<bar>d\<bar> \<bar>lg_net l\<bar>\<bar> \<le> 2 * P * Q"
    by (rule abs_mult_bound)
  moreover have "0 \<le> 2 * P * Q" using assms by auto
  ultimately show "\<bar>lg_realized (ledger_step (d, x) l) - lg_realized l\<bar> \<le> 2 * P * Q"
    by (simp add: ledger_step_def Let_def)
qed

lemma fee_compute_defined:
  assumes "0 < sint q" "sint q \<le> Q" "fee_bound fm Q < 2 ^ 63"
  shows "fee_compute fm q False = Inr ((per_share_fee fm + taker_fee fm) * sint q + per_trade_fee fm) \<and>
    \<bar>(per_share_fee fm + taker_fee fm) * sint q + per_trade_fee fm\<bar> \<le> fee_bound fm Q"
proof -
  have a: "\<bar>per_share_fee fm * sint q\<bar> \<le> \<bar>per_share_fee fm\<bar> * Q" "\<bar>taker_fee fm * sint q\<bar> \<le> \<bar>taker_fee fm\<bar> * Q"
    using assms by (auto intro!: abs_mult_bound)
  have "0 \<le> \<bar>per_share_fee fm\<bar> * Q" "0 \<le> \<bar>taker_fee fm\<bar> * Q" using assms by auto
  with a assms(3) show ?thesis
    by (simp add: fee_compute_Inr_iff Let_def in_s64_def fee_bound_def distrib_right) linarith
qed

lemma update_m2m_defined:
  assumes "pf_bounded P Q F C k pf" "unat symb < MAX_SYMBOLS" "\<bar>x\<bar> \<le> P"
    and "2 * P < 2 ^ 63" "k * (2 * P * Q) < 2 ^ 63" "k * Q < 2 ^ 63"
  shows "\<exists>pf'. update_m2m symb x pf = Inr pf'"
proof -
  let ?p = "positions pf ! unat symb"
  have p: "\<bar>net_qty ?p\<bar> \<le> k * Q" "\<bar>avg_entry_price ?p\<bar> \<le> P" "length (positions pf) = MAX_SYMBOLS"
    using assms by (auto simp: pf_bounded_def)
  have d: "\<bar>x - avg_entry_price ?p\<bar> \<le> 2 * P" "\<bar>avg_entry_price ?p - x\<bar> \<le> 2 * P" using p assms(3) by auto
  have "\<bar>(x - avg_entry_price ?p) * net_qty ?p\<bar> \<le> 2 * P * (k * Q)"
    "\<bar>(avg_entry_price ?p - x) * (- net_qty ?p)\<bar> \<le> 2 * P * (k * Q)"
    using abs_mult_bound [OF d(1) p(1)] abs_mult_bound [OF d(2), of "- net_qty ?p" "k * Q"] p(1)
    by (simp_all del: mult_minus_right)
  then have "\<bar>(x - avg_entry_price ?p) * net_qty ?p\<bar> < 2 ^ 63"
    "\<bar>(avg_entry_price ?p - x) * (- net_qty ?p)\<bar> < 2 ^ 63"
    using assms(5) by (simp_all add: algebra_simps)
  moreover have "\<bar>- net_qty ?p\<bar> < 2 ^ 63" "\<bar>x - avg_entry_price ?p\<bar> < 2 ^ 63" "\<bar>avg_entry_price ?p - x\<bar> < 2 ^ 63"
    using p d assms by linarith+
  ultimately have "\<exists>p'. mark_position x ?p = Inr p'"
    by (simp add: mark_position_def Let_def checked_in in_s64_abs del: mult_minus_right)
  then show ?thesis using p assms(2) by (auto simp: update_m2m_def at_r_def)
qed

lemma pf_bounded_update_m2m:
  assumes "update_m2m symb x pf = Inr pf'" "pf_bounded P Q F C k pf"
  shows "pf_bounded P Q F C k pf'"
proof -
  have "net_qty (positions pf' ! i) = net_qty (positions pf ! i) \<and>
      avg_entry_price (positions pf' ! i) = avg_entry_price (positions pf ! i) \<and>
      realized_pnl (positions pf' ! i) = realized_pnl (positions pf ! i)" for i
    using update_m2m_frame [OF assms(1), of i] by (auto simp: abs_pos_def)
  then show ?thesis using update_m2m_frame [OF assms(1)] assms(2) by (simp add: pf_bounded_def)
qed

lemma pf_bounded_mono: "pf_bounded P Q F C k pf \<Longrightarrow> k \<le> m \<Longrightarrow> 0 \<le> P \<Longrightarrow> 0 \<le> Q \<Longrightarrow> 0 \<le> F \<Longrightarrow> pf_bounded P Q F C m pf"
  using mult_right_mono [of k m Q] mult_right_mono [of k m "2 * P * Q"]
    mult_right_mono [of k m "2 * P * Q + F"]
  by (fastforce simp: pf_bounded_def)

lemma budget_limits:
  fixes k P Q F C :: int
  assumes "0 \<le> k" "1 \<le> P" "1 \<le> Q" "0 \<le> F" "0 \<le> C" and B: "C + (k + 1) * (2 * P * Q + F) < 2 ^ 63"
  shows "P * (k * Q + Q) < 2 ^ 63" "k * Q + Q < 2 ^ 63" "2 * P < 2 ^ 63" "(k + 1) * (2 * P * Q) < 2 ^ 63"
    "F < 2 ^ 63"
proof -
  have pq: "1 * Q \<le> P * Q" "P * 1 \<le> P * Q" using assms by (intro mult_right_mono mult_left_mono; simp)+
  have nn: "0 \<le> k * F" "0 \<le> k * (P * Q)" "k * Q \<le> k * (P * Q)"
    using assms pq by (auto intro: mult_left_mono)
  have eqs: "(k + 1) * (2 * P * Q + F) = 2 * (k * (P * Q)) + 2 * (P * Q) + k * F + F"
    "P * (k * Q + Q) = k * (P * Q) + P * Q" "(k + 1) * (2 * P * Q) = 2 * (k * (P * Q)) + 2 * (P * Q)"
    by (simp_all add: algebra_simps)
  show "P * (k * Q + Q) < 2 ^ 63" "k * Q + Q < 2 ^ 63" "2 * P < 2 ^ 63"
    "(k + 1) * (2 * P * Q) < 2 ^ 63" "F < 2 ^ 63"
    using pq nn assms(2-5) B unfolding eqs by linarith+
qed

lemma pf_bounded_fill:
  assumes bd: "pf_bounded P Q F C k pf" and i: "i < MAX_SYMBOLS" and x: "\<bar>x\<bar> \<le> P"
    and d: "d \<noteq> 0" "\<bar>d\<bar> \<le> Q" and nn: "0 \<le> P" "0 \<le> Q" "0 \<le> F"
    and p': "abs_pos p' = ledger_step (d, x) (abs_pos (positions pf ! i))"
    and c': "\<bar>c\<bar> \<le> C + k * (2 * P * Q + F) + F" "c' = c + (realized_pnl p' - realized_pnl (positions pf ! i))"
  shows "pf_bounded P Q F C (k + 1) (pf\<lparr>cash := c', positions := (positions pf)[i := p']\<rparr>)"
proof -
  let ?p = "positions pf ! i"
  have p: "\<bar>net_qty ?p\<bar> \<le> k * Q" "\<bar>avg_entry_price ?p\<bar> \<le> P" "\<bar>realized_pnl ?p\<bar> \<le> k * (2 * P * Q)"
    using bd i by (auto simp: pf_bounded_def)
  have l: "lg_net (abs_pos p') = net_qty ?p + d" "\<bar>lg_avg (abs_pos p')\<bar> \<le> P"
    "\<bar>lg_realized (abs_pos p') - realized_pnl ?p\<bar> \<le> 2 * P * Q"
    using ledger_step_abs_bounds [of "abs_pos ?p" P x d Q] p x d unfolding p' by (auto simp: abs_pos_def)
  have "\<bar>net_qty p'\<bar> \<le> (k + 1) * Q \<and> \<bar>avg_entry_price p'\<bar> \<le> P \<and> \<bar>realized_pnl p'\<bar> \<le> (k + 1) * (2 * P * Q)"
    using l p d by (auto simp: abs_pos_def distrib_right)
  moreover have "\<bar>c'\<bar> \<le> C + (k + 1) * (2 * P * Q + F)"
    using l(3) c' by (simp add: abs_pos_def distrib_right)
  moreover have "pf_bounded P Q F C (k + 1) pf" using bd nn by (auto intro: pf_bounded_mono)
  ultimately show ?thesis using i by (auto simp: pf_bounded_def nth_list_update)
qed

lemma on_execution_bounded:
  assumes bd: "pf_bounded P Q F C k pf" and fill: "is_fill r"
    and ok: "op_bounded is_fill P Q (Exec r)" and F: "F = fee_bound (fee_model (pf_config pf)) Q"
    and nn: "0 \<le> k" "1 \<le> P" "1 \<le> Q" "0 \<le> C" and B: "C + (k + 1) * (2 * P * Q + F) < 2 ^ 63"
  shows "\<exists>pf'. on_execution is_fill r pf = Inr pf' \<and> pf_bounded P Q F C (k + 1) pf'"
proof -
  let ?i = "unat (rpt_symbol r)" and ?q = "sint (rpt_exec_qty r)" and ?x = "rpt_exec_price r"
  let ?p = "positions pf ! ?i" and ?fm = "fee_model (pf_config pf)"
  let ?c = "cash pf - ((per_share_fee ?fm + taker_fee ?fm) * ?q + per_trade_fee ?fm)"
  have r: "?i < MAX_SYMBOLS" "\<bar>?x\<bar> \<le> P" "0 < ?q" "?q \<le> Q" using ok fill by auto
  have F0: "0 \<le> F" using nn by (simp add: F fee_bound_def)
  note lim = budget_limits [OF nn(1-3) F0 nn(4) B]
  have fee: "fee_compute ?fm (rpt_exec_qty r) False = Inr (cash pf - ?c)" "\<bar>cash pf - ?c\<bar> \<le> F"
    using fee_compute_defined [OF r(3,4), of ?fm] lim(5) F by simp_all
  have p: "\<bar>net_qty ?p\<bar> \<le> k * Q" "\<bar>avg_entry_price ?p\<bar> \<le> P" "\<bar>realized_pnl ?p\<bar> \<le> k * (2 * P * Q)"
    "length (positions pf) = MAX_SYMBOLS" "\<bar>cash pf\<bar> \<le> C + k * (2 * P * Q + F)"
    using bd r by (auto simp: pf_bounded_def)
  have c: "\<bar>?c\<bar> \<le> C + k * (2 * P * Q + F) + F" using fee(2) p(5) by linarith
  have R: "k * (2 * P * Q) + 2 * P * Q < 2 ^ 63" "C + k * (2 * P * Q + F) + F + 2 * P * Q < 2 ^ 63"
    using lim(4) B by (simp_all add: distrib_right)
  have "0 \<le> 2 * P * Q" using nn by simp
  then have cin: "in_s64 ?c" using c R(2) by (intro in_s64_abs) linarith
  let ?br = "if rpt_side r = Buy then exec_buy ?q ?x ?p ?c else exec_sell ?q ?x ?p ?c"
  obtain p1 c1 where br: "?br = Inr (p1, c1)"
    using exec_buy_defined [OF p(1,2) r(2-4) p(3) c lim(1-3) R]
      exec_sell_defined [OF p(1,2) r(2-4) p(3) c lim(1-3) R] by fastforce
  have p1: "p1 = exec_position (signed_qty r) ?x ?p \<and> c1 = ?c + (realized_pnl p1 - realized_pnl ?p)"
    using br r(3) by (auto simp: signed_qty_def split: if_splits dest!: exec_buy_Inr exec_sell_Inr)
  let ?p2 = "p1\<lparr>total_traded := total_traded p1 + word_of_int ?q, num_trades := num_trades p1 + 1,
    last_price := ?x\<rparr>"
  let ?pf = "pf\<lparr>cash := c1, positions := (positions pf)[?i := ?p2]\<rparr>"
  have mid: "pf_bounded P Q F C (k + 1) ?pf"
    by (rule pf_bounded_fill [OF bd r(1,2), of "signed_qty r"])
      (use r p1 nn F0 c in \<open>auto simp: signed_qty_def abs_pos_def exec_position_def Let_def\<close>)
  have "\<exists>pf'. update_m2m (rpt_symbol r) ?x ?pf = Inr pf'"
    by (rule update_m2m_defined [OF mid r(1,2)]) (use lim in \<open>simp_all add: distrib_right\<close>)
  then obtain pf' where up: "update_m2m (rpt_symbol r) ?x ?pf = Inr pf'" by blast
  have "on_execution is_fill r pf = Inr pf'"
    using fill r p(4) fee(1) cin br up
    by (simp add: on_execution_def at_r_def checked_in Let_def del: of_int_sint)
  then show ?thesis using pf_bounded_update_m2m [OF up mid] by blast
qed

lemma pf_step_bounded:
  assumes bd: "pf_bounded P Q F C k pf" and ok: "op_bounded is_fill P Q op"
    and F: "F = fee_bound (fee_model (pf_config pf)) Q"
    and nn: "0 \<le> k" "1 \<le> P" "1 \<le> Q" "0 \<le> C" and B: "C + (k + 1) * (2 * P * Q + F) < 2 ^ 63"
  shows "\<exists>pf'. pf_step is_fill op pf = Inr pf' \<and> pf_bounded P Q F C (k + 1) pf'"
proof (cases op)
  case (Exec r)
  have "pf_bounded P Q F C (k + 1) pf"
    using bd nn by (auto intro: pf_bounded_mono simp: F fee_bound_def)
  then show ?thesis using Exec on_execution_bounded [OF bd, of is_fill r] ok F nn B by (cases "is_fill r") auto
next
  case (Mark symb x)
  have F0: "0 \<le> F" using nn by (simp add: F fee_bound_def)
  note lim = budget_limits [OF nn(1-3) F0 nn(4) B]
  have "pf_bounded P Q F C (k + 1) pf" using bd nn F0 by (auto intro: pf_bounded_mono)
  moreover from this obtain pf' where "update_m2m symb x pf = Inr pf'"
    using update_m2m_defined [of P Q F C "k + 1" pf symb x] ok Mark lim by (auto simp: distrib_right)
  ultimately show ?thesis using Mark pf_bounded_update_m2m by auto
qed

lemma pf_run_bounded:
  assumes "pf_bounded P Q F C k pf" and "list_all (op_bounded is_fill P Q) ops"
    and "F = fee_bound (fee_model (pf_config pf)) Q" and "0 \<le> k" "1 \<le> P" "1 \<le> Q" "0 \<le> C"
    and "C + (k + int (length ops)) * (2 * P * Q + F) < 2 ^ 63"
  shows "\<exists>pf'. pf_run is_fill ops pf = Inr pf'"
  using assms
proof (induction ops arbitrary: pf k)
  case (Cons op ops)
  have F0: "0 \<le> F" using Cons.prems by (simp add: fee_bound_def)
  have "0 \<le> int (length ops) * (2 * P * Q + F)" using Cons.prems F0 by simp
  then have "C + (k + 1) * (2 * P * Q + F) < 2 ^ 63" using Cons.prems(8) by (simp add: algebra_simps)
  then obtain pf1 where st: "pf_step is_fill op pf = Inr pf1" and bd: "pf_bounded P Q F C (k + 1) pf1"
    using pf_step_bounded [OF Cons.prems(1), of is_fill op] Cons.prems by auto
  have "op_positive is_fill op" using Cons.prems(2) op_bounded_positive by auto
  then have "pf_config pf1 = pf_config pf" using pf_step_frame [OF st] by simp
  then have "\<exists>pf'. pf_run is_fill ops pf1 = Inr pf'"
    using Cons.IH [OF bd] Cons.prems by (simp add: algebra_simps)
  then show ?case using st by (simp add: pf_run_Cons)
qed simp

lemma pf_bounded_new:
  "0 \<le> P \<Longrightarrow> pf_bounded P Q F \<bar>initial_cash cfg\<bar> 0 (Portfolio_new cfg)"
  by (simp add: pf_bounded_def positions_Portfolio_new) (simp add: Position_default_def)

lemma pf_run_new_defined:
  assumes "list_all (op_bounded is_fill P Q) ops" "1 \<le> P" "1 \<le> Q"
    and "\<bar>initial_cash cfg\<bar> + int (length ops) * (2 * P * Q + fee_bound (fee_model cfg) Q) < 2 ^ 63"
  shows "\<exists>pf. pf_run is_fill ops (Portfolio_new cfg) = Inr pf"
  by (rule pf_run_bounded [OF pf_bounded_new [of P Q "fee_bound (fee_model cfg) Q" cfg]])
    (use assms in simp_all)

text \<open>
  The fixture of the unit tests: a filled report, a predicate that accepts filled reports, and
  the two fills of the test \<open>LongPositionPnL\<close> with a mark between them.
\<close>

definition test_report :: "Symbol \<Rightarrow> Side \<Rightarrow> Qty \<Rightarrow> Price \<Rightarrow> ExecutionReport" where
  "test_report symb s q x =
     \<lparr>rpt_order_id = 0, rpt_contra_order_id = 0, rpt_client_id = 0, rpt_symbol = symb, rpt_side = s,
      rpt_order_type = Market, rpt_status = Filled, rpt_exec_price = x, rpt_exec_qty = q,
      rpt_leaves_qty = 0, rpt_cum_qty = 0, rpt_timestamp = 0\<rparr>"

definition test_is_fill :: "ExecutionReport \<Rightarrow> bool" where
  "test_is_fill r \<longleftrightarrow> rpt_status r = Filled \<or> rpt_status r = PartiallyFilled"

definition test_ops :: "pf_op list" where
  "test_ops = [Exec (test_report 2 Buy 10 10000000000), Mark 2 11000000000,
     Exec (test_report 2 Sell 10 11000000000)]"

lemma test_ops_run: "\<exists>pf. pf_run test_is_fill test_ops (Portfolio_new BacktestConfig_default) = Inr pf"
  by (rule pf_run_new_defined [of _ "10 ^ 11" 1000])
    (simp_all add: test_ops_def test_report_def MAX_SYMBOLS_def BacktestConfig_default_def
      FeeModel_default_def fee_bound_def PRICE_SCALE_def)

lemma test_ops_positive: "list_all (op_positive test_is_fill) test_ops"
  by (simp add: test_ops_def test_report_def)

lemma test_ops_fills: "fills test_is_fill 2 test_ops = [(10, 10000000000), (- 10, 11000000000)]"
  by (simp add: test_ops_def test_report_def test_is_fill_def signed_qty_def)

definition test_open :: "pf_op list" where
  "test_open = [Exec (test_report 2 Buy 10 10000000000)]"

lemma test_open_run: "\<exists>pf. pf_run test_is_fill test_open (Portfolio_new BacktestConfig_default) = Inr pf"
  by (rule pf_run_new_defined [of _ "10 ^ 11" 1000])
    (simp_all add: test_open_def test_report_def MAX_SYMBOLS_def BacktestConfig_default_def
      FeeModel_default_def fee_bound_def PRICE_SCALE_def)

lemma test_open_positive: "list_all (op_positive test_is_fill) test_open"
  by (simp add: test_open_def test_report_def)

lemma test_open_fills: "fills test_is_fill 2 test_open = [(10, 10000000000)]"
  by (simp add: test_open_def test_report_def test_is_fill_def signed_qty_def)

lemma test_position:
  "2 < MAX_SYMBOLS" "num_trades (positions (Portfolio_new cfg) ! 2) = 0" "net_qty (positions (Portfolio_new cfg) ! 2) = 0"
  "abs_pos (positions (Portfolio_new cfg) ! 2) = \<lparr>lg_net = 0, lg_avg = 0, lg_realized = 0\<rparr>"
  by (simp_all add: Portfolio_new_def MAX_SYMBOLS_def Position_default_def abs_pos_def)

subsection \<open>Properties\<close>

text \<open>
  C5. No undefined behaviour within a budget: from a fresh portfolio, any sequence of fills
  and marks on the 256 symbols, with prices up to \<open>P\<close> and quantities from 1 to \<open>Q\<close>, runs to
  its end (no signed overflow, division by zero or access out of bounds) as long as the
  initial cash plus \<open>2 P Q\<close> and the largest fee for every operation stays below \<open>2 ^ 63\<close>.
\<close>

theorem portfolio_run_defined:
  assumes "list_all (op_bounded is_fill P Q) ops" and "1 \<le> P" and "1 \<le> Q"
    and "\<bar>initial_cash cfg\<bar> + int (length ops) * (2 * P * Q + fee_bound (fee_model cfg) Q) < 2 ^ 63"
  shows "\<exists>pf. pf_run is_fill ops (Portfolio_new cfg) = Inr pf"
  using assms by (rule pf_run_new_defined)

theorem portfolio_run_defined_witness:
  "\<exists>pf. pf_run test_is_fill test_ops (Portfolio_new BacktestConfig_default) = Inr pf"
  by (rule portfolio_run_defined [of _ "10 ^ 11" 1000])
    (simp_all add: test_ops_def test_report_def MAX_SYMBOLS_def BacktestConfig_default_def
      FeeModel_default_def fee_bound_def PRICE_SCALE_def)

text \<open>
  C1. The portfolio implements the ledger: after any defined sequence of executions and marks,
  the net quantity, average entry price and realized profit of every symbol are those of the
  abstract ledger run over exactly that symbol's fills, in order, and the trade counter is
  their number (modulo \<open>2 ^ 32\<close>). Reports that are not fills and fills of other symbols do not
  touch it.
\<close>

theorem portfolio_refines_ledger:
  assumes "pf_run is_fill ops pf = Inr pf'" and "list_all (op_positive is_fill) ops"
    and "i < length (positions pf)"
  shows "abs_pos (positions pf' ! i) = fold ledger_step (fills is_fill i ops) (abs_pos (positions pf ! i)) \<and>
    net_qty (positions pf' ! i) = net_qty (positions pf ! i) + sum_list (map fst (fills is_fill i ops)) \<and>
    num_trades (positions pf' ! i) =
      num_trades (positions pf ! i) + word_of_nat (length (fills is_fill i ops))"
proof -
  note ref = pf_run_refines [OF assms]
  have "lg_net (abs_pos (positions pf' ! i)) = net_qty (positions pf ! i) + sum_list (map fst (fills is_fill i ops))"
    using ref ledger_net [of "fills is_fill i ops" "abs_pos (positions pf ! i)"] by (simp add: abs_pos_def)
  then show ?thesis using ref by (simp add: abs_pos_def)
qed

theorem portfolio_refines_ledger_witness:
  "\<exists>pf. pf_run test_is_fill test_ops (Portfolio_new BacktestConfig_default) = Inr pf \<and>
     net_qty (positions pf ! 2) = 0 \<and> realized_pnl (positions pf ! 2) = 10000000000 \<and>
     num_trades (positions pf ! 2) = 2"
proof -
  obtain pf where run: "pf_run test_is_fill test_ops (Portfolio_new BacktestConfig_default) = Inr pf"
    using test_ops_run by blast
  have "abs_pos (positions pf ! 2) = \<lparr>lg_net = 0, lg_avg = 0, lg_realized = 10000000000\<rparr> \<and>
      num_trades (positions pf ! 2) = 2"
    using portfolio_refines_ledger [OF run test_ops_positive, of 2]
    by (simp add: test_ops_fills test_position ledger_step_def Let_def)
  then show ?thesis using run by (auto simp: abs_pos_def)
qed

text \<open>
  C4. The invariant of the portfolio: from a fresh portfolio on, after every defined sequence
  of executions and marks, there are 256 positions, each with its own symbol, a flat position
  has entry price 0, and the unrealized profit is always the mark-to-market value
  \<open>(last_price - avg_entry_price) * net_qty\<close>, for long and short positions alike.
\<close>

theorem portfolio_invariant:
  assumes "pf_run is_fill ops (Portfolio_new cfg) = Inr pf" and "list_all (op_positive is_fill) ops"
  shows "pf_inv pf"
  using assms pf_inv_new by (rule pf_run_inv)

theorem portfolio_invariant_witness:
  "\<exists>pf. pf_run test_is_fill test_ops (Portfolio_new BacktestConfig_default) = Inr pf \<and> pf_inv pf"
  using test_ops_run portfolio_invariant [OF _ test_ops_positive] by blast

text \<open>
  C3. Cash accounting: the cash of a portfolio is its initial cash plus the profit realized on
  all symbols minus the fees of all fills, each the taker fee of the configured fee model
  (\<open>(per_share_fee + taker_fee) * qty + per_trade_fee\<close>).
\<close>

theorem portfolio_cash_identity:
  assumes "pf_run is_fill ops (Portfolio_new cfg) = Inr pf" and "list_all (op_positive is_fill) ops"
  shows "cash pf = initial_cash cfg + realized_sum pf - sum_list (map (op_fee is_fill (fee_model cfg)) ops)"
  using pf_run_cash [OF assms] by (simp add: realized_sum_new)

theorem portfolio_cash_identity_witness:
  "\<exists>pf. pf_run test_is_fill test_ops (Portfolio_new BacktestConfig_default) = Inr pf \<and>
     cash pf = 1000000 * PRICE_SCALE + realized_sum pf"
proof -
  obtain pf where run: "pf_run test_is_fill test_ops (Portfolio_new BacktestConfig_default) = Inr pf"
    using test_ops_run by blast
  have "cash pf = 1000000 * PRICE_SCALE + realized_sum pf"
    using portfolio_cash_identity [OF run test_ops_positive]
    by (simp add: BacktestConfig_default_def FeeModel_default_def test_ops_def test_report_def taker_cost_def)
  with run show ?thesis by blast
qed

text \<open>
  C7. The average entry price of an open position lies between the lowest and the highest
  price at which the symbol was filled, in spite of the truncating division.
\<close>

theorem avg_entry_price_within:
  assumes "pf_run is_fill ops (Portfolio_new cfg) = Inr pf" and "list_all (op_positive is_fill) ops"
    and "i < MAX_SYMBOLS" and "net_qty (positions pf ! i) \<noteq> 0"
    and "\<And>d x. (d, x) \<in> set (fills is_fill i ops) \<Longrightarrow> lo \<le> x \<and> x \<le> hi"
  shows "lo \<le> avg_entry_price (positions pf ! i) \<and> avg_entry_price (positions pf ! i) \<le> hi"
proof -
  have "lg_within lo hi (fold ledger_step (fills is_fill i ops) (abs_pos (positions (Portfolio_new cfg) ! i)))"
    by (rule ledger_within) (use assms fills_nonzero in \<open>auto simp: abs_pos_new lg_within_def\<close>)
  then have "lg_within lo hi (abs_pos (positions pf ! i))"
    using pf_run_refines [OF assms(1,2), of i] assms(3) by simp
  then show ?thesis using assms(4) by (simp add: lg_within_def abs_pos_def)
qed

theorem avg_entry_price_within_witness:
  "\<exists>pf. pf_run test_is_fill test_open (Portfolio_new BacktestConfig_default) = Inr pf \<and>
     10000000000 \<le> avg_entry_price (positions pf ! 2) \<and> avg_entry_price (positions pf ! 2) \<le> 10000000000"
proof -
  obtain pf where run: "pf_run test_is_fill test_open (Portfolio_new BacktestConfig_default) = Inr pf"
    using test_open_run by blast
  have "net_qty (positions pf ! 2) \<noteq> 0"
    using pf_run_refines [OF run test_open_positive, of 2]
    by (simp add: test_open_fills test_position ledger_step_def Let_def abs_pos_def)
  with run avg_entry_price_within [OF run test_open_positive, of 2 10000000000 10000000000]
    test_open_fills test_position(1) show ?thesis by auto
qed

text \<open>
  C6. The reported profit is the economic profit up to the truncation of the average price:
  realized plus unrealized profit of a symbol differs from the cash flow of its fills plus
  the marked value of its position by at most the sum, over the fills that opened or
  increased the position, of its size after the fill minus one; fills that reduce, close or
  flip a position add no error.
\<close>

theorem pnl_rounding_bound:
  assumes "pf_run is_fill ops (Portfolio_new cfg) = Inr pf" and "list_all (op_positive is_fill) ops"
    and "i < MAX_SYMBOLS"
  shows "let p = positions pf ! i; fs = fills is_fill i ops in
    \<bar>(realized_pnl p + unrealized_pnl p) - (flow fs + net_qty p * last_price p)\<bar> \<le> drift_bound fs 0"
proof -
  let ?p = "positions pf ! i" and ?fs = "fills is_fill i ops"
  have "\<bar>lg_gain (abs_pos ?p) - flow ?fs\<bar> \<le> drift_bound ?fs 0"
    using ledger_gain_bound [of ?fs "abs_pos (positions (Portfolio_new cfg) ! i)"]
      fills_nonzero [OF assms(2)] pf_run_refines [OF assms(1,2), of i] assms(3)
    by (auto simp: abs_pos_new lg_gain_def)
  moreover have "pos_inv i ?p"
    using pf_run_inv [OF assms(1,2) pf_inv_new] assms(3) by (simp add: pf_inv_def)
  then have "realized_pnl ?p + unrealized_pnl ?p - (flow ?fs + net_qty ?p * last_price ?p) =
      lg_gain (abs_pos ?p) - flow ?fs"
    by (simp add: lg_gain_def abs_pos_def pos_inv_def algebra_simps)
  ultimately show ?thesis by (simp add: Let_def)
qed

theorem pnl_rounding_bound_witness:
  "\<exists>pf. pf_run test_is_fill test_ops (Portfolio_new BacktestConfig_default) = Inr pf \<and>
     \<bar>realized_pnl (positions pf ! 2) + unrealized_pnl (positions pf ! 2) -
       (10000000000 + net_qty (positions pf ! 2) * last_price (positions pf ! 2))\<bar> \<le> 9"
proof -
  obtain pf where run: "pf_run test_is_fill test_ops (Portfolio_new BacktestConfig_default) = Inr pf"
    using test_ops_run by blast
  show ?thesis using run pnl_rounding_bound [OF run test_ops_positive test_position(1)]
    by (auto simp: Let_def test_ops_fills flow_def)
qed

text \<open>
  Opening a position from flat and closing it again realizes exactly the price
  difference times the quantity, long or short, whatever marks and other symbols' fills
  happen in between, and leaves the symbol flat with no unrealized profit.
\<close>

theorem open_close_realizes:
  assumes "pf_run is_fill ops pf = Inr pf'" and "list_all (op_positive is_fill) ops" and "pf_inv pf"
    and "i < MAX_SYMBOLS" and "net_qty (positions pf ! i) = 0"
    and "fills is_fill i ops = [(d, x), (- d, y)]"
  shows "net_qty (positions pf' ! i) = 0 \<and> avg_entry_price (positions pf' ! i) = 0 \<and>
    unrealized_pnl (positions pf' ! i) = 0 \<and>
    realized_pnl (positions pf' ! i) = realized_pnl (positions pf ! i) + d * (y - x)"
proof -
  have d: "d \<noteq> 0" using fills_nonzero [OF assms(2), of d x i] assms(6) by simp
  have "avg_entry_price (positions pf ! i) = 0" using assms(3-5) by (simp add: pf_inv_def pos_inv_def)
  then have "abs_pos (positions pf' ! i) =
      \<lparr>lg_net = 0, lg_avg = 0, lg_realized = realized_pnl (positions pf ! i) + d * (y - x)\<rparr>"
    using pf_run_refines [OF assms(1,2), of i] assms(3-6) d
    by (auto simp: pf_inv_def abs_pos_def ledger_step_def Let_def sgn_if abs_if not_le zero_le_mult_iff)
  moreover have "pos_inv i (positions pf' ! i)"
    using pf_run_inv [OF assms(1-3)] assms(4) by (simp add: pf_inv_def)
  ultimately show ?thesis by (auto simp: abs_pos_def pos_inv_def)
qed

theorem open_close_realizes_witness:
  "\<exists>pf. pf_run test_is_fill test_ops (Portfolio_new BacktestConfig_default) = Inr pf \<and>
     net_qty (positions pf ! 2) = 0 \<and>
     realized_pnl (positions pf ! 2) = realized_pnl (positions (Portfolio_new BacktestConfig_default) ! 2) + 10000000000"
proof -
  obtain pf where run: "pf_run test_is_fill test_ops (Portfolio_new BacktestConfig_default) = Inr pf"
    using test_ops_run by blast
  show ?thesis
    using run open_close_realizes [OF run test_ops_positive pf_inv_new test_position(1)]
      test_ops_fills test_position by auto
qed

text \<open>
  C8. What \<open>total_pnl\<close> and \<open>total_equity\<close> return: the total profit is realized plus unrealized
  profit over all symbols (while fewer than \<open>2 ^ 32\<close> operations were made, so that no trade
  counter has wrapped). The total equity adds it to a cash balance that already contains the
  realized profit, so it counts realized profit twice: it is the initial cash plus unrealized
  profit plus two times the realized profit, minus fees.
\<close>

theorem total_equity_counts_realized_twice:
  assumes "pf_run is_fill ops (Portfolio_new cfg) = Inr pf" and "list_all (op_positive is_fill) ops"
    and "length ops < 2 ^ 32" and "total_pnl pf = Inr t" and "total_equity pf = Inr e"
  shows "t = realized_sum pf + unrealized_sum pf \<and>
    e = initial_cash cfg + 2 * realized_sum pf + unrealized_sum pf -
      sum_list (map (op_fee is_fill (fee_model cfg)) ops)"
proof -
  have "length (positions pf) = MAX_SYMBOLS"
    using pf_run_inv [OF assms(1,2) pf_inv_new] by (simp add: pf_inv_def)
  then have "t = realized_sum pf + unrealized_sum pf"
    by (rule total_pnl_Inr [OF assms(4)]) (use pf_run_untraded [OF assms(1-3)] in auto)
  moreover have "e = cash pf + t" using assms(4,5) by (simp add: total_equity_def sadd_Inr_iff)
  moreover have "cash pf = initial_cash cfg + realized_sum pf - sum_list (map (op_fee is_fill (fee_model cfg)) ops)"
    using pf_run_cash [OF assms(1,2)] by (simp add: realized_sum_new)
  ultimately show ?thesis by simp
qed

theorem total_equity_counts_realized_twice_witness:
  "\<exists>pf e. pf_run test_is_fill test_ops (Portfolio_new BacktestConfig_default) = Inr pf \<and>
     total_equity pf = Inr e \<and> realized_sum pf = 10000000000 \<and> unrealized_sum pf = 0 \<and>
     e = initial_cash BacktestConfig_default + 20000000000"
proof -
  obtain pf where run: "pf_run test_is_fill test_ops (Portfolio_new BacktestConfig_default) = Inr pf"
    using test_ops_run by blast
  have fl: "i \<noteq> 2 \<Longrightarrow> fills test_is_fill i test_ops = []" for i
    by (simp add: test_ops_def test_report_def)
  have "i < MAX_SYMBOLS \<Longrightarrow> abs_pos (positions pf ! i) =
      \<lparr>lg_net = 0, lg_avg = 0, lg_realized = (if i = 2 then 10000000000 else 0)\<rparr>" for i
    using pf_run_refines [OF run test_ops_positive, of i]
    by (cases "i = 2") (auto simp: abs_pos_new fl test_ops_fills ledger_step_def Let_def)
  then have ps: "i < MAX_SYMBOLS \<Longrightarrow> realized_pnl (positions pf ! i) = (if i = 2 then 10000000000 else 0) \<and>
      unrealized_pnl (positions pf ! i) = 0" for i
    using pf_run_inv [OF run test_ops_positive pf_inv_new] by (simp add: pf_inv_def pos_inv_def abs_pos_def)
  have len: "length (positions pf) = MAX_SYMBOLS"
    using pf_run_inv [OF run test_ops_positive pf_inv_new] by (simp add: pf_inv_def)
  obtain t where t: "total_pnl pf = Inr t" "\<bar>t\<bar> \<le> int MAX_SYMBOLS * 10000000000"
    using total_pnl_defined [OF len, of 10000000000] ps by (fastforce simp: MAX_SYMBOLS_def)
  have sums: "realized_sum pf = 10000000000" "unrealized_sum pf = 0"
    using ps by (simp_all add: realized_sum_def unrealized_sum_def MAX_SYMBOLS_def)
  have cash: "cash pf = initial_cash BacktestConfig_default + 10000000000"
    using pf_run_cash [OF run test_ops_positive] sums
    by (simp add: realized_sum_new BacktestConfig_default_def FeeModel_default_def test_ops_def
        test_report_def test_is_fill_def taker_cost_def)
  have e: "total_equity pf = Inr (cash pf + t)"
    unfolding total_equity_def t(1) using t(2)
    by (auto simp: cash BacktestConfig_default_def PRICE_SCALE_def MAX_SYMBOLS_def sadd_Inr_iff in_s64_def)
  show ?thesis
    using total_equity_counts_realized_twice [OF run test_ops_positive _ t(1) e] run e sums
    by (simp add: test_ops_def BacktestConfig_default_def FeeModel_default_def test_report_def
        test_is_fill_def taker_cost_def)
qed

text \<open>
  C9. The two inputs that leave the class's contract: a fill whose symbol id is 256 or more
  indexes outside the position array, and a fill of quantity 0 on a flat position divides by
  zero, on either side (if the fee itself can be computed and charged).
\<close>

theorem on_execution_undefined_inputs:
  assumes "is_fill r" and "pf_inv pf"
  shows "(MAX_SYMBOLS \<le> unat (rpt_symbol r) \<longrightarrow> on_execution is_fill r pf = Inl OutOfBounds) \<and>
    (unat (rpt_symbol r) < MAX_SYMBOLS \<and> net_qty (positions pf ! unat (rpt_symbol r)) = 0 \<and>
      rpt_exec_qty r = 0 \<and> in_s64 (per_trade_fee (fee_model (pf_config pf))) \<and>
      in_s64 (cash pf - per_trade_fee (fee_model (pf_config pf))) \<longrightarrow>
      on_execution is_fill r pf = Inl DivByZero)"
  using assms
  by (auto simp: on_execution_def at_r_def pf_inv_def fee_compute_def exec_buy_def exec_sell_def
      sadd_def ssub_def smul_def sneg_def sdivide_def Let_def)

theorem on_execution_undefined_inputs_witness:
  "on_execution test_is_fill (test_report 256 Buy 1 1) (Portfolio_new BacktestConfig_default) = Inl OutOfBounds \<and>
   on_execution test_is_fill (test_report 3 Buy 0 1) (Portfolio_new BacktestConfig_default) = Inl DivByZero"
  using on_execution_undefined_inputs [of test_is_fill "test_report 256 Buy 1 1", OF _ pf_inv_new, of BacktestConfig_default]
    on_execution_undefined_inputs [of test_is_fill "test_report 3 Buy 0 1", OF _ pf_inv_new, of BacktestConfig_default]
  by (simp add: test_report_def test_is_fill_def MAX_SYMBOLS_def positions_Portfolio_new
      BacktestConfig_default_def FeeModel_default_def PRICE_SCALE_def in_s64_def)
    (simp add: Portfolio_new_def MAX_SYMBOLS_def Position_default_def)

end
