(* ===== verification/Exchange.thy ===== *)
theory Exchange
  imports Portfolio_Runs
begin

section \<open>Exchange simulator (\<open>exchange/exchange_simulator.hpp\<close>, \<open>exchange_simulator.cpp\<close>)\<close>

text \<open>
  The simulator wraps the matching engine of UltraLOB, which is not part of the repository: its
  operations are the fields of \<open>MatchingEngine\<close>, a parameter of every operation here. An
  operation of the matching engine returns its new state and the execution reports it passes,
  in order, to the callback registered with \<open>add_symbol\<close>; the callback is
  \<open>on_execution_cb\<close>, which only updates the portfolio, so the reports of a call are handled one
  after the other once the engine's new state is known.

  The portfolio the simulator points to is carried in its record (\<open>None\<close> for a null pointer):
  the strategy and the runner hold pointers to the same object.
\<close>

subsection \<open>The matching engine's interface\<close>

record ('e, 'm) MatchingEngine =
  me_new :: "64 word \<Rightarrow> 'e"
  me_add_symbol :: "Symbol \<Rightarrow> 'e \<Rightarrow> 'e"
  me_has_symbol :: "'e \<Rightarrow> Symbol \<Rightarrow> bool"
  me_submit :: "OrderRequest \<Rightarrow> 'e \<Rightarrow> 'e \<times> ExecutionReport list"
  me_cancel :: "Symbol \<Rightarrow> OrderId \<Rightarrow> 'e \<Rightarrow> bool \<times> 'e \<times> ExecutionReport list"
  me_modify :: "Symbol \<Rightarrow> 'm \<Rightarrow> 'e \<Rightarrow> bool \<times> 'e \<times> ExecutionReport list"

subsection \<open>State and operations\<close>

record 'e ExchangeSimulator =
  sim_engine :: 'e
  sim_config :: BacktestConfig
  sim_portfolio :: "Portfolio option"
  current_time :: Nanos

definition ExchangeSimulator_new ::
  "('e, 'm) MatchingEngine \<Rightarrow> BacktestConfig \<Rightarrow> Portfolio option \<Rightarrow> 'e ExchangeSimulator" where
  "ExchangeSimulator_new M cfg port =
     \<lparr>sim_engine = me_new M (order_pool_capacity cfg), sim_config = cfg, sim_portfolio = port,
      current_time = 0\<rparr>"

definition initialize :: "('e, 'm) MatchingEngine \<Rightarrow> 'e ExchangeSimulator \<Rightarrow> 'e ExchangeSimulator" where
  "initialize M sim =
     fold (\<lambda>s x. x\<lparr>sim_engine := me_add_symbol M s (sim_engine x)\<rparr>) (symbols (sim_config sim)) sim"

definition advance_to :: "Nanos \<Rightarrow> 'e ExchangeSimulator \<Rightarrow> 'e ExchangeSimulator" where
  "advance_to ts sim = sim\<lparr>current_time := ts\<rparr>"

definition handle_execution ::
  "(ExecutionReport \<Rightarrow> bool) \<Rightarrow> ExecutionReport \<Rightarrow> 'e ExchangeSimulator \<Rightarrow> 'e ExchangeSimulator res" where
  "handle_execution is_fill rpt sim =
     (case sim_portfolio sim of
        None \<Rightarrow> Inr sim
      | Some pf \<Rightarrow> bind_r (on_execution is_fill rpt pf) (\<lambda>pf'. Inr (sim\<lparr>sim_portfolio := Some pf'\<rparr>)))"

definition on_execution_cb ::
  "(ExecutionReport \<Rightarrow> bool) \<Rightarrow> ExecutionReport \<Rightarrow> 'e ExchangeSimulator \<Rightarrow> 'e ExchangeSimulator res" where
  "on_execution_cb is_fill rpt self = handle_execution is_fill rpt self"

definition adjusted_req :: "'e ExchangeSimulator \<Rightarrow> OrderRequest \<Rightarrow> OrderRequest res" where
  "adjusted_req sim req =
     (let req1 = (if req_timestamp req = 0 then req\<lparr>req_timestamp := current_time sim\<rparr> else req)
      in bind_r (sadd (req_timestamp req1) (simulated_latency (sim_config sim)))
           (\<lambda>ts. Inr (req1\<lparr>req_timestamp := ts\<rparr>)))"

definition submit_order ::
  "(ExecutionReport \<Rightarrow> bool) \<Rightarrow> ('e, 'm) MatchingEngine \<Rightarrow> OrderRequest \<Rightarrow> 'e ExchangeSimulator \<Rightarrow>
   'e ExchangeSimulator res" where
  "submit_order is_fill M req sim =
     bind_r (adjusted_req sim req) (\<lambda>areq.
       let (e, rpts) = me_submit M areq (sim_engine sim)
       in fold_r (on_execution_cb is_fill) rpts (sim\<lparr>sim_engine := e\<rparr>))"

definition cancel_order ::
  "(ExecutionReport \<Rightarrow> bool) \<Rightarrow> ('e, 'm) MatchingEngine \<Rightarrow> Symbol \<Rightarrow> OrderId \<Rightarrow> 'e ExchangeSimulator \<Rightarrow>
   (bool \<times> 'e ExchangeSimulator) res" where
  "cancel_order is_fill M symb oid sim =
     (let (ok, e, rpts) = me_cancel M symb oid (sim_engine sim)
      in map_r (Pair ok) (fold_r (on_execution_cb is_fill) rpts (sim\<lparr>sim_engine := e\<rparr>)))"

definition modify_order ::
  "(ExecutionReport \<Rightarrow> bool) \<Rightarrow> ('e, 'm) MatchingEngine \<Rightarrow> Symbol \<Rightarrow> 'm \<Rightarrow> 'e ExchangeSimulator \<Rightarrow>
   (bool \<times> 'e ExchangeSimulator) res" where
  "modify_order is_fill M symb mreq sim =
     (let (ok, e, rpts) = me_modify M symb mreq (sim_engine sim)
      in map_r (Pair ok) (fold_r (on_execution_cb is_fill) rpts (sim\<lparr>sim_engine := e\<rparr>)))"

subsection \<open>Sequences of operations\<close>

datatype 'm sim_op =
  Advance Nanos | Submit OrderRequest | Cancel Symbol OrderId | Modify Symbol 'm

fun sim_step ::
  "(ExecutionReport \<Rightarrow> bool) \<Rightarrow> ('e, 'm) MatchingEngine \<Rightarrow> 'm sim_op \<Rightarrow> 'e ExchangeSimulator \<Rightarrow>
   'e ExchangeSimulator res" where
  "sim_step is_fill M (Advance ts) sim = Inr (advance_to ts sim)"
| "sim_step is_fill M (Submit req) sim = submit_order is_fill M req sim"
| "sim_step is_fill M (Cancel symb oid) sim = map_r snd (cancel_order is_fill M symb oid sim)"
| "sim_step is_fill M (Modify symb mreq) sim = map_r snd (modify_order is_fill M symb mreq sim)"

definition sim_run ::
  "(ExecutionReport \<Rightarrow> bool) \<Rightarrow> ('e, 'm) MatchingEngine \<Rightarrow> 'm sim_op list \<Rightarrow> 'e ExchangeSimulator \<Rightarrow>
   'e ExchangeSimulator res" where
  "sim_run is_fill M = fold_r (sim_step is_fill M)"

text \<open>
  What the matching engine sees and answers, as a specification that knows nothing of the
  portfolio: the engine's state, the clock, and the reports of every operation in order.
\<close>

definition stamp :: "Nanos \<Rightarrow> Nanos \<Rightarrow> OrderRequest \<Rightarrow> OrderRequest" where
  "stamp lat now req =
     req\<lparr>req_timestamp := (if req_timestamp req = 0 then now else req_timestamp req) + lat\<rparr>"

fun engine_step ::
  "('e, 'm) MatchingEngine \<Rightarrow> Nanos \<Rightarrow> 'm sim_op \<Rightarrow> 'e \<times> Nanos \<Rightarrow> ('e \<times> Nanos) \<times> ExecutionReport list" where
  "engine_step M lat (Advance ts) (e, now) = ((e, ts), [])"
| "engine_step M lat (Submit req) (e, now) =
     (let (e', rpts) = me_submit M (stamp lat now req) e in ((e', now), rpts))"
| "engine_step M lat (Cancel symb oid) (e, now) =
     (let (ok, e', rpts) = me_cancel M symb oid e in ((e', now), rpts))"
| "engine_step M lat (Modify symb mreq) (e, now) =
     (let (ok, e', rpts) = me_modify M symb mreq e in ((e', now), rpts))"

fun engine_run ::
  "('e, 'm) MatchingEngine \<Rightarrow> Nanos \<Rightarrow> 'm sim_op list \<Rightarrow> 'e \<times> Nanos \<Rightarrow> ('e \<times> Nanos) \<times> ExecutionReport list" where
  "engine_run M lat [] en = (en, [])"
| "engine_run M lat (op # ops) en =
     (let (en1, rpts1) = engine_step M lat op en; (en2, rpts2) = engine_run M lat ops en1
      in (en2, rpts1 @ rpts2))"

text \<open>The requests the matching engine receives, with the clock they are stamped from.\<close>

fun requests :: "Nanos \<Rightarrow> 'm sim_op list \<Rightarrow> Nanos \<Rightarrow> OrderRequest list" where
  "requests lat [] now = []"
| "requests lat (Advance ts # ops) now = requests lat ops ts"
| "requests lat (Submit req # ops) now = stamp lat now req # requests lat ops now"
| "requests lat (op # ops) now = requests lat ops now"

subsection \<open>Lemmas\<close>

lemma initialize_frame [simp]:
  "sim_config (initialize M sim) = sim_config sim" "sim_portfolio (initialize M sim) = sim_portfolio sim"
  "current_time (initialize M sim) = current_time sim"
proof -
  have "sim_config (fold (\<lambda>s x. x\<lparr>sim_engine := me_add_symbol M s (sim_engine x)\<rparr>) ss sim) = sim_config sim \<and>
    sim_portfolio (fold (\<lambda>s x. x\<lparr>sim_engine := me_add_symbol M s (sim_engine x)\<rparr>) ss sim) = sim_portfolio sim \<and>
    current_time (fold (\<lambda>s x. x\<lparr>sim_engine := me_add_symbol M s (sim_engine x)\<rparr>) ss sim) = current_time sim" for ss
    by (induction ss arbitrary: sim) auto
  then show "sim_config (initialize M sim) = sim_config sim" "sim_portfolio (initialize M sim) = sim_portfolio sim"
    "current_time (initialize M sim) = current_time sim"
    by (simp_all add: initialize_def)
qed

lemma initialize_engine: "sim_engine (initialize M sim) = fold (me_add_symbol M) (symbols (sim_config sim)) (sim_engine sim)"
proof -
  have "sim_engine (fold (\<lambda>s x. x\<lparr>sim_engine := me_add_symbol M s (sim_engine x)\<rparr>) ss sim) =
      fold (me_add_symbol M) ss (sim_engine sim)" for ss
    by (induction ss arbitrary: sim) auto
  then show ?thesis by (simp add: initialize_def)
qed

lemma adjusted_req_Inr_iff [res_simps]:
  "adjusted_req sim req = Inr areq \<longleftrightarrow>
   areq = stamp (simulated_latency (sim_config sim)) (current_time sim) req \<and> in_s64 (req_timestamp areq)"
  by (auto simp: adjusted_req_def stamp_def res_simps Let_def)

lemma on_execution_cb_simps:
  "sim_portfolio sim = None \<Longrightarrow> on_execution_cb is_fill rpt sim = Inr sim"
  "sim_portfolio sim = Some pf \<Longrightarrow> on_execution_cb is_fill rpt sim =
     map_r (\<lambda>pf'. sim\<lparr>sim_portfolio := Some pf'\<rparr>) (on_execution is_fill rpt pf)"
  by (cases "on_execution is_fill rpt pf"; simp add: on_execution_cb_def handle_execution_def)+

lemma handle_executions_None:
  "sim_portfolio sim = None \<Longrightarrow> fold_r (on_execution_cb is_fill) rpts sim = Inr sim"
  by (induction rpts) (simp_all add: on_execution_cb_simps)

lemma handle_executions:
  "sim_portfolio sim = Some pf \<Longrightarrow> fold_r (on_execution_cb is_fill) rpts sim =
     map_r (\<lambda>pf'. sim\<lparr>sim_portfolio := Some pf'\<rparr>) (pf_run is_fill (map Exec rpts) pf)"
proof (induction rpts arbitrary: sim pf)
  case (Cons r rpts)
  then show ?case
    by (cases "on_execution is_fill r pf") (simp_all add: on_execution_cb_simps pf_run_Cons)
qed simp

lemma pf_run_append: "pf_run is_fill (xs @ ys) pf = bind_r (pf_run is_fill xs pf) (pf_run is_fill ys)"
  by (simp add: pf_run_def fold_r_append)

lemma sim_step_Inr_iff:
  assumes "sim_portfolio sim = Some pf"
    and "engine_step M (simulated_latency (sim_config sim)) op (sim_engine sim, current_time sim) = ((e, now), rpts)"
  shows "sim_step is_fill M op sim = Inr sim' \<longleftrightarrow>
    (\<forall>r \<in> set (requests (simulated_latency (sim_config sim)) [op] (current_time sim)). in_s64 (req_timestamp r)) \<and>
    (\<exists>pf'. pf_run is_fill (map Exec rpts) pf = Inr pf' \<and>
       sim' = sim\<lparr>sim_engine := e, sim_portfolio := Some pf', current_time := now\<rparr>)"
  using assms
  by (cases op) (auto simp: advance_to_def submit_order_def cancel_order_def modify_order_def
      handle_executions res_simps split: prod.splits)

lemma requests_Cons:
  "engine_step M lat op (e, now) = ((e', now'), rpts) \<Longrightarrow>
   requests lat (op # ops) now = requests lat [op] now @ requests lat ops now'"
  by (cases op) (auto split: prod.splits)

lemma sim_run_Inr_iff:
  assumes "sim_portfolio sim = Some pf"
    and "engine_run M (simulated_latency (sim_config sim)) ops (sim_engine sim, current_time sim) = ((e, now), rpts)"
  shows "sim_run is_fill M ops sim = Inr sim' \<longleftrightarrow>
    (\<forall>r \<in> set (requests (simulated_latency (sim_config sim)) ops (current_time sim)). in_s64 (req_timestamp r)) \<and>
    (\<exists>pf'. pf_run is_fill (map Exec rpts) pf = Inr pf' \<and>
       sim' = sim\<lparr>sim_engine := e, sim_portfolio := Some pf', current_time := now\<rparr>)"
  using assms
proof (induction ops arbitrary: sim pf rpts sim')
  case Nil
  then show ?case by (auto simp: sim_run_def)
next
  case (Cons op ops)
  let ?lat = "simulated_latency (sim_config sim)"
  obtain e1 now1 rpts1 where 1: "engine_step M ?lat op (sim_engine sim, current_time sim) = ((e1, now1), rpts1)"
    by (metis prod.exhaust)
  with Cons.prems(2) obtain rpts2 where 2: "engine_run M ?lat ops (e1, now1) = ((e, now), rpts2)"
    and rpts: "rpts = rpts1 @ rpts2"
    by (auto split: prod.splits)
  have step: "sim_run is_fill M (op # ops) sim = Inr sim' \<longleftrightarrow>
      (\<exists>sim1. sim_step is_fill M op sim = Inr sim1 \<and> sim_run is_fill M ops sim1 = Inr sim')"
    by (simp add: sim_run_def bind_r_Inr_iff)
  have rest: "sim_run is_fill M ops (sim\<lparr>sim_engine := e1, sim_portfolio := Some pf1, current_time := now1\<rparr>) = Inr sim2 \<longleftrightarrow>
      (\<forall>r \<in> set (requests ?lat ops now1). in_s64 (req_timestamp r)) \<and>
      (\<exists>pf'. pf_run is_fill (map Exec rpts2) pf1 = Inr pf' \<and>
         sim2 = sim\<lparr>sim_engine := e, sim_portfolio := Some pf', current_time := now\<rparr>)" for pf1 sim2
    using Cons.IH [of "sim\<lparr>sim_engine := e1, sim_portfolio := Some pf1, current_time := now1\<rparr>" pf1 rpts2 sim2] 2
    by simp
  show ?case
    unfolding step sim_step_Inr_iff [OF Cons.prems(1) 1] requests_Cons [OF 1, of ops] rpts
    by (auto simp: rest pf_run_append bind_r_Inr_iff)
qed

lemma fold_add_symbol:
  assumes "\<And>s e t. me_has_symbol M (me_add_symbol M s e) t \<longleftrightarrow> s = t \<or> me_has_symbol M e t"
  shows "me_has_symbol M (fold (me_add_symbol M) ss e) t \<longleftrightarrow> t \<in> set ss \<or> me_has_symbol M e t"
  by (induction ss arbitrary: e) (auto simp: assms)

text \<open>Requests without a timestamp of their own are stamped from the clock.\<close>

fun op_unstamped :: "'m sim_op \<Rightarrow> bool" where
  "op_unstamped (Submit req) \<longleftrightarrow> req_timestamp req = 0"
| "op_unstamped _ \<longleftrightarrow> True"

fun clock_monotone :: "Nanos \<Rightarrow> 'm sim_op list \<Rightarrow> bool" where
  "clock_monotone now [] \<longleftrightarrow> True"
| "clock_monotone now (Advance ts # ops) \<longleftrightarrow> now \<le> ts \<and> clock_monotone ts ops"
| "clock_monotone now (op # ops) \<longleftrightarrow> clock_monotone now ops"

fun is_advance :: "'m sim_op \<Rightarrow> bool" where
  "is_advance (Advance ts) \<longleftrightarrow> True"
| "is_advance _ \<longleftrightarrow> False"

lemma requests_lower:
  "list_all op_unstamped ops \<Longrightarrow> clock_monotone now ops \<Longrightarrow>
   r \<in> set (requests lat ops now) \<Longrightarrow> now + lat \<le> req_timestamp r"
  by (induction lat ops now rule: requests.induct) (auto simp: stamp_def)

lemma requests_sorted:
  "list_all op_unstamped ops \<Longrightarrow> clock_monotone now ops \<Longrightarrow>
   sorted (map req_timestamp (requests lat ops now))"
proof (induction lat ops now rule: requests.induct)
  case (3 lat req ops now)
  then show ?case using requests_lower [of ops now _ lat] by (auto simp: stamp_def)
qed auto

lemma requests_frozen:
  "list_all op_unstamped ops \<Longrightarrow> \<not> list_ex is_advance ops \<Longrightarrow>
   r \<in> set (requests lat ops now) \<Longrightarrow> req_timestamp r = now + lat"
  by (induction lat ops now rule: requests.induct) (auto simp: stamp_def)

subsection \<open>Properties\<close>

text \<open>
  A matching engine for the witnesses: it fills every order of a registered symbol at once, at
  the order's own price, and rests nothing.
\<close>

definition fill_report :: "OrderRequest \<Rightarrow> ExecutionReport" where
  "fill_report req =
     \<lparr>rpt_order_id = req_id req, rpt_contra_order_id = 0, rpt_client_id = req_client_id req,
      rpt_symbol = req_symbol req, rpt_side = req_side req, rpt_order_type = req_type req,
      rpt_status = Filled, rpt_exec_price = req_price req, rpt_exec_qty = req_qty req,
      rpt_leaves_qty = 0, rpt_cum_qty = req_qty req, rpt_timestamp = req_timestamp req\<rparr>"

definition fill_all :: "(Symbol list, unit) MatchingEngine" where
  "fill_all =
     \<lparr>me_new = (\<lambda>_. []), me_add_symbol = (#), me_has_symbol = (\<lambda>e s. s \<in> set e),
      me_submit = (\<lambda>req e. (e, if req_symbol req \<in> set e then [fill_report req] else [])),
      me_cancel = (\<lambda>_ _ e. (False, e, [])), me_modify = (\<lambda>_ _ e. (False, e, []))\<rparr>"

definition test_config :: BacktestConfig where
  "test_config = BacktestConfig_default\<lparr>symbols := [1, 2], simulated_latency := 5\<rparr>"

definition test_sim :: "Symbol list ExchangeSimulator" where
  "test_sim = initialize fill_all (ExchangeSimulator_new fill_all test_config (Some (Portfolio_new test_config)))"

definition test_buy :: "Symbol \<Rightarrow> Qty \<Rightarrow> Price \<Rightarrow> OrderRequest" where
  "test_buy symb q x =
     \<lparr>req_id = 100, req_client_id = 0, req_symbol = symb, req_side = Buy, req_type = Limit, req_price = x,
      req_stop_price = 0, req_limit_price = 0, req_qty = q, req_timestamp = 0\<rparr>"

definition test_sim_ops :: "unit sim_op list" where
  "test_sim_ops = [Advance 1000, Submit (test_buy 1 10 10000000000), Advance 1500, Submit (test_buy 2 5 100)]"

lemma test_sim_simps:
  "sim_engine test_sim = [2, 1]" "sim_config test_sim = test_config"
  "sim_portfolio test_sim = Some (Portfolio_new test_config)" "current_time test_sim = 0"
  "simulated_latency test_config = 5" "initial_cash test_config = 1000000 * PRICE_SCALE"
  "fee_model test_config = FeeModel_default"
  by (simp_all add: test_sim_def initialize_engine ExchangeSimulator_new_def test_config_def fill_all_def
      BacktestConfig_default_def)

lemma test_engine_run:
  "engine_run fill_all 5 test_sim_ops ([2, 1], 0) =
     (([2, 1], 1500), [fill_report (stamp 5 1000 (test_buy 1 10 10000000000)), fill_report (stamp 5 1500 (test_buy 2 5 100))])"
  by (simp add: test_sim_ops_def fill_all_def stamp_def test_buy_def)

text \<open>
  C17. The simulator is exactly the matching engine with the portfolio behind it: a sequence of
  clock advances, submissions, cancellations and modifications ends defined if and only if
  every stamped timestamp fits 64 bits and the portfolio can book the engine's execution
  reports, in their order; the final state is then the engine's, with the portfolio that has
  booked exactly those reports, the clock of the last advance, and the configuration untouched.
\<close>

theorem simulator_books_all_reports:
  assumes "sim_portfolio sim = Some pf"
    and "engine_run M (simulated_latency (sim_config sim)) ops (sim_engine sim, current_time sim) = ((e, now), rpts)"
  shows "sim_run is_fill M ops sim = Inr sim' \<longleftrightarrow>
    (\<forall>r \<in> set (requests (simulated_latency (sim_config sim)) ops (current_time sim)). in_s64 (req_timestamp r)) \<and>
    (\<exists>pf'. pf_run is_fill (map Exec rpts) pf = Inr pf' \<and>
       sim' = sim\<lparr>sim_engine := e, sim_portfolio := Some pf', current_time := now\<rparr>)"
  using assms by (rule sim_run_Inr_iff)

lemma test_pf_run:
  "\<exists>pf. pf_run test_is_fill (map Exec [fill_report (stamp 5 1000 (test_buy 1 10 10000000000)),
     fill_report (stamp 5 1500 (test_buy 2 5 100))]) (Portfolio_new test_config) = Inr pf"
  by (rule pf_run_new_defined [of _ "10 ^ 11" 1000])
    (simp_all add: fill_report_def stamp_def test_buy_def MAX_SYMBOLS_def test_sim_simps
      FeeModel_default_def fee_bound_def PRICE_SCALE_def)

lemma test_requests_in_range:
  "\<forall>r \<in> set (requests 5 test_sim_ops 0). in_s64 (req_timestamp r)"
  by (simp add: test_sim_ops_def test_buy_def stamp_def in_s64_def)

theorem simulator_books_all_reports_witness:
  "\<exists>sim'. sim_run test_is_fill fill_all test_sim_ops test_sim = Inr sim' \<and> current_time sim' = 1500"
proof -
  obtain pf where pf: "pf_run test_is_fill (map Exec [fill_report (stamp 5 1000 (test_buy 1 10 10000000000)),
     fill_report (stamp 5 1500 (test_buy 2 5 100))]) (Portfolio_new test_config) = Inr pf"
    using test_pf_run by blast
  show ?thesis
    by (rule exI [of _ "test_sim\<lparr>sim_engine := [2, 1], sim_portfolio := Some pf, current_time := 1500\<rparr>"])
      (use simulator_books_all_reports [OF test_sim_simps(3), unfolded test_sim_simps, OF test_engine_run,
          of test_is_fill] test_requests_in_range pf in simp)
qed

text \<open>
  A backtest keeps its books: after any defined sequence of operations on a simulator with a
  fresh portfolio, whatever the matching engine answers, as long as its fills have positive
  quantities, the portfolio satisfies its invariant, every net position is the sum of the signed
  fills of its symbol, and the cash is the initial cash plus realized profit minus fees.
\<close>

theorem backtest_keeps_books:
  assumes "sim_portfolio sim = Some (Portfolio_new cfg)"
    and "engine_run M (simulated_latency (sim_config sim)) ops (sim_engine sim, current_time sim) = (en, rpts)"
    and "sim_run is_fill M ops sim = Inr sim'"
    and "list_all (op_positive is_fill) (map Exec rpts)"
  shows "\<exists>pf. sim_portfolio sim' = Some pf \<and> pf_inv pf \<and>
    (\<forall>i<MAX_SYMBOLS. net_qty (positions pf ! i) = sum_list (map fst (fills is_fill i (map Exec rpts)))) \<and>
    cash pf = initial_cash cfg + realized_sum pf - sum_list (map (op_fee is_fill (fee_model cfg)) (map Exec rpts))"
proof -
  obtain e now where en: "en = (e, now)" by (cases en)
  from assms(3) obtain pf where run: "pf_run is_fill (map Exec rpts) (Portfolio_new cfg) = Inr pf"
    and sim': "sim_portfolio sim' = Some pf"
    unfolding sim_run_Inr_iff [OF assms(1) assms(2) [unfolded en]] by auto
  show ?thesis
    using sim' pf_run_inv [OF run assms(4) pf_inv_new] pf_run_cash [OF run assms(4)]
      pf_run_net [OF run assms(4)]
    by (simp add: realized_sum_new)
qed

theorem backtest_keeps_books_witness:
  "\<exists>sim' pf. sim_run test_is_fill fill_all test_sim_ops test_sim = Inr sim' \<and>
     sim_portfolio sim' = Some pf \<and> net_qty (positions pf ! 2) = 5"
proof -
  obtain sim' where run: "sim_run test_is_fill fill_all test_sim_ops test_sim = Inr sim'"
    using test_pf_run test_requests_in_range
    by (auto simp: sim_run_Inr_iff [OF test_sim_simps(3), unfolded test_sim_simps, OF test_engine_run])
  have pos: "list_all (op_positive test_is_fill) (map Exec [fill_report (stamp 5 1000 (test_buy 1 10 10000000000)),
     fill_report (stamp 5 1500 (test_buy 2 5 100))])"
    by (simp add: fill_report_def stamp_def test_buy_def)
  obtain pf where "sim_portfolio sim' = Some pf"
    and "\<forall>i<MAX_SYMBOLS. net_qty (positions pf ! i) = sum_list (map fst (fills test_is_fill i
       (map Exec [fill_report (stamp 5 1000 (test_buy 1 10 10000000000)), fill_report (stamp 5 1500 (test_buy 2 5 100))])))"
    using backtest_keeps_books [OF test_sim_simps(3), unfolded test_sim_simps, OF test_engine_run run pos] by blast
  then have "net_qty (positions pf ! 2) = 5"
    by (simp add: test_position(1) fill_report_def stamp_def test_buy_def test_is_fill_def signed_qty_def)
  with run \<open>sim_portfolio sim' = Some pf\<close> show ?thesis by blast
qed

text \<open>
  Initialization registers exactly the configured symbols: when adding a symbol makes the
  matching engine know that symbol and no other, an initialized simulator's engine knows the
  symbols of the configuration and those it knew before, and nothing else of the simulator changes.
\<close>

theorem initialize_registers_symbols:
  assumes add: "\<And>s e t. me_has_symbol M (me_add_symbol M s e) t \<longleftrightarrow> s = t \<or> me_has_symbol M e t"
  shows "(\<forall>t. me_has_symbol M (sim_engine (initialize M sim)) t \<longleftrightarrow>
      t \<in> set (symbols (sim_config sim)) \<or> me_has_symbol M (sim_engine sim) t) \<and>
    initialize M sim = sim\<lparr>sim_engine := sim_engine (initialize M sim)\<rparr>"
  by (simp add: initialize_engine fold_add_symbol [OF add] ExchangeSimulator.equality)

theorem initialize_registers_symbols_witness:
  "me_has_symbol fill_all (sim_engine test_sim) 1 \<and> \<not> me_has_symbol fill_all (sim_engine test_sim) 3"
proof -
  have add: "me_has_symbol fill_all (me_add_symbol fill_all s e) t \<longleftrightarrow> s = t \<or> me_has_symbol fill_all e t" for s e t
    by (auto simp: fill_all_def)
  show ?thesis
    using initialize_registers_symbols [OF add,
        of "ExchangeSimulator_new fill_all test_config (Some (Portfolio_new test_config))"]
    unfolding test_sim_def [symmetric]
    by (simp add: ExchangeSimulator_new_def test_config_def fill_all_def)
qed

subsection \<open>What the engine receives\<close>

text \<open>
  To see the requests the simulator passes on, a matching engine that behaves like \<open>M\<close> and keeps, beside its state, the requests that
  were submitted to it, in order.
\<close>

definition recording :: "('e, 'm) MatchingEngine \<Rightarrow> ('e \<times> OrderRequest list, 'm) MatchingEngine" where
  "recording M =
     \<lparr>me_new = (\<lambda>n. (me_new M n, [])), me_add_symbol = (\<lambda>s (e, rs). (me_add_symbol M s e, rs)),
      me_has_symbol = (\<lambda>(e, rs). me_has_symbol M e),
      me_submit = (\<lambda>req (e, rs). let (e', rpts) = me_submit M req e in ((e', rs @ [req]), rpts)),
      me_cancel = (\<lambda>symb oid (e, rs). let (ok, e', rpts) = me_cancel M symb oid e in (ok, (e', rs), rpts)),
      me_modify = (\<lambda>symb mreq (e, rs). let (ok, e', rpts) = me_modify M symb mreq e in (ok, (e', rs), rpts))\<rparr>"

definition received :: "('e \<times> OrderRequest list) ExchangeSimulator \<Rightarrow> OrderRequest list" where
  "received sim = snd (sim_engine sim)"

definition unrecorded :: "('e \<times> OrderRequest list) ExchangeSimulator \<Rightarrow> 'e ExchangeSimulator" where
  "unrecorded sim =
     \<lparr>sim_engine = fst (sim_engine sim), sim_config = sim_config sim, sim_portfolio = sim_portfolio sim, current_time = current_time sim\<rparr>"

lemma executions_frame:
  "fold_r (on_execution_cb is_fill) rpts sim = Inr sim' \<Longrightarrow>
   sim_engine sim' = sim_engine sim \<and> sim_config sim' = sim_config sim \<and> current_time sim' = current_time sim"
proof (induction rpts arbitrary: sim)
  case (Cons r rpts)
  then obtain sim1 where "on_execution_cb is_fill r sim = Inr sim1" "fold_r (on_execution_cb is_fill) rpts sim1 = Inr sim'"
    by (auto simp: bind_r_Inr_iff)
  then show ?case using Cons.IH by (cases "sim_portfolio sim") (auto simp: on_execution_cb_simps map_r_Inr_iff)
qed simp

lemma executions_unrecorded:
  "fold_r (on_execution_cb is_fill) rpts sim = Inr sim' \<Longrightarrow>
   fold_r (on_execution_cb is_fill) rpts (unrecorded sim) = Inr (unrecorded sim')"
proof (induction rpts arbitrary: sim)
  case (Cons r rpts)
  then obtain sim1 where 1: "on_execution_cb is_fill r sim = Inr sim1" "fold_r (on_execution_cb is_fill) rpts sim1 = Inr sim'"
    by (auto simp: bind_r_Inr_iff)
  have "on_execution_cb is_fill r (unrecorded sim) = Inr (unrecorded sim1)"
    using 1(1) by (cases "sim_portfolio sim") (auto simp: on_execution_cb_simps map_r_Inr_iff unrecorded_def)
  then show ?case using Cons.IH [OF 1(2)] by simp
qed simp

lemma recording_step:
  assumes "sim_step is_fill (recording M) op sim = Inr sim'"
  shows "received sim' = received sim @ requests (simulated_latency (sim_config sim)) [op] (current_time sim)"
    "sim_config sim' = sim_config sim" "current_time sim' = (case op of Advance ts \<Rightarrow> ts | _ \<Rightarrow> current_time sim)"
    "sim_step is_fill M op (unrecorded sim) = Inr (unrecorded sim')"
proof -
  obtain e rs where er: "sim_engine sim = (e, rs)" by (cases "sim_engine sim")
  show "received sim' = received sim @ requests (simulated_latency (sim_config sim)) [op] (current_time sim)"
    "sim_config sim' = sim_config sim" "current_time sim' = (case op of Advance ts \<Rightarrow> ts | _ \<Rightarrow> current_time sim)"
    using assms
    by (cases op; auto simp: recording_def received_def er advance_to_def submit_order_def cancel_order_def modify_order_def
        res_simps split: prod.splits dest!: executions_frame)+
  show "sim_step is_fill M op (unrecorded sim) = Inr (unrecorded sim')"
    using assms
    by (cases op) (auto simp: recording_def er advance_to_def submit_order_def cancel_order_def modify_order_def res_simps unrecorded_def
        split: prod.splits dest!: executions_unrecorded)
qed

lemma recording_run:
  assumes "sim_run is_fill (recording M) ops sim = Inr sim'"
  shows "received sim' = received sim @ requests (simulated_latency (sim_config sim)) ops (current_time sim)"
    "sim_run is_fill M ops (unrecorded sim) = Inr (unrecorded sim')"
  using assms
proof (induction ops arbitrary: sim)
  case (Cons op ops)
  { case 1
    then obtain sim1 where 2: "sim_step is_fill (recording M) op sim = Inr sim1" "sim_run is_fill (recording M) ops sim1 = Inr sim'"
      by (auto simp: sim_run_def bind_r_Inr_iff)
    then show ?case using Cons.IH(1) [OF 2(2)] recording_step [OF 2(1)] by (cases op) auto
  next
    case 2
    then obtain sim1 where 2: "sim_step is_fill (recording M) op sim = Inr sim1" "sim_run is_fill (recording M) ops sim1 = Inr sim'"
      by (auto simp: sim_run_def bind_r_Inr_iff)
    then show ?case using Cons.IH(2) [OF 2(2)] recording_step(4) [OF 2(1)] by (simp add: sim_run_def) }
qed (simp_all add: sim_run_def)

text \<open>
  C22. Orders reach the matching engine in time order. Whatever the engine \<open>M\<close> answers, when no request carries a timestamp of its own, a
  run passes one request per submission to the engine; the timestamps never decrease when the clock is only moved forward, and
  when the clock is never moved, as in the replay loop, every order carries the same timestamp, the clock plus the configured latency.
  The run with the recording engine is the run with \<open>M\<close>.
\<close>

theorem request_timestamps_monotone:
  assumes "sim_run is_fill (recording M) ops sim = Inr sim'" and "received sim = []" and "list_all op_unstamped ops"
  shows "sim_run is_fill M ops (unrecorded sim) = Inr (unrecorded sim')
    \<and> map req_id (received sim') = concat (map (\<lambda>op. case op of Submit req \<Rightarrow> [req_id req] | _ \<Rightarrow> []) ops)
    \<and> (clock_monotone (current_time sim) ops \<longrightarrow> sorted (map req_timestamp (received sim')))
    \<and> (\<not> list_ex is_advance ops \<longrightarrow>
         (\<forall>r \<in> set (received sim'). req_timestamp r = current_time sim + simulated_latency (sim_config sim)))"
proof -
  have rec: "received sim' = requests (simulated_latency (sim_config sim)) ops (current_time sim)"
    using recording_run(1) [OF assms(1)] assms(2) by simp
  have ids: "map req_id (requests lat ops now) = concat (map (\<lambda>op. case op of Submit req \<Rightarrow> [req_id req] | _ \<Rightarrow> []) ops)" for lat now
    by (induction lat ops now rule: requests.induct) (auto simp: stamp_def)
  show ?thesis
    using recording_run(2) [OF assms(1)] requests_sorted [OF assms(3)] requests_frozen [OF assms(3)] by (auto simp: rec ids)
qed

text \<open>The simulator of the example above, without a portfolio and with the recording engine.\<close>

definition test_recorder :: "(Symbol list \<times> OrderRequest list) ExchangeSimulator" where
  "test_recorder = \<lparr>sim_engine = ([2, 1], []), sim_config = test_config, sim_portfolio = None, current_time = 0\<rparr>"

theorem request_timestamps_monotone_witness:
  "\<exists>sim'. sim_run test_is_fill (recording fill_all) test_sim_ops test_recorder = Inr sim' \<and>
     map req_timestamp (received sim') = [1005, 1505] \<and> sorted (map req_timestamp (received sim'))"
proof -
  let ?rs = "[stamp 5 1000 (test_buy 1 10 10000000000), stamp 5 1500 (test_buy 2 5 100)]"
  let ?sim = "test_recorder\<lparr>sim_engine := ([2, 1], ?rs), current_time := 1500\<rparr>"
  have run: "sim_run test_is_fill (recording fill_all) test_sim_ops test_recorder = Inr ?sim"
    by (simp add: sim_run_def test_sim_ops_def test_recorder_def advance_to_def submit_order_def adjusted_req_def test_buy_def
        test_sim_simps recording_def fill_all_def on_execution_cb_simps stamp_def res_simps sadd_def in_s64_def)
  have "sorted (map req_timestamp (received ?sim))"
    using request_timestamps_monotone [OF run] by (simp add: test_recorder_def received_def test_sim_ops_def test_buy_def)
  with run show ?thesis by (simp add: received_def stamp_def test_buy_def)
qed

end
