(* ===== verification/Events.thy ===== *)
theory Events
  imports Common_Types
begin

section \<open>Events (\<open>events/event_types.hpp\<close>, \<open>events/event.hpp\<close>)\<close>

text \<open>
  The payload structs and the 64-byte \<open>Event\<close>. The payload is a union of eight structs, so an
  event keeps its 48 raw bytes and each member of the union is a view of them
  (\<open>event_tick\<close>, \<open>event_trade\<close>, \<dots>). \<open>event_of_bytes\<close> is what reading the struct from a file
  gives; \<open>event_to_bytes\<close> is its image in memory. The lemmas show that the layout is the one
  the static assertions of the source promise and that every view reads what was written.
\<close>

subsection \<open>Images of scalars\<close>

definition bytes_u8 :: "byte \<Rightarrow> byte list" where
  "bytes_u8 w = bytes_of_nat 1 (unat w)"

definition bytes_u32 :: "32 word \<Rightarrow> byte list" where
  "bytes_u32 w = bytes_of_nat 4 (unat w)"

definition bytes_u64 :: "64 word \<Rightarrow> byte list" where
  "bytes_u64 w = bytes_of_nat 8 (unat w)"

definition bytes_s64 :: "int \<Rightarrow> byte list" where
  "bytes_s64 i = bytes_u64 (word_of_int i)"

definition get_side :: "nat \<Rightarrow> byte list \<Rightarrow> Side" where
  "get_side off bs = side_of_code (get_u8 off bs)"

subsection \<open>Payloads\<close>

record TickData =
  tick_best_bid :: Price
  tick_best_ask :: Price
  tick_bid_qty :: Qty
  tick_ask_qty :: Qty
  tick_last_price :: Price
  tick_last_qty :: Qty

record TradeData =
  trade_price :: Price
  trade_qty :: Qty
  trade_aggressor_side :: Side
  trade_pad :: "byte list"

record QuoteData =
  quote_best_bid :: Price
  quote_best_ask :: Price
  quote_bid_qty :: Qty
  quote_ask_qty :: Qty

record OrderAddData =
  add_order_id :: OrderId
  add_price :: Price
  add_qty :: Qty
  add_side :: Side
  add_pad :: "byte list"

record OrderCancelData =
  cancel_order_id :: OrderId

record OrderModifyData =
  modify_order_id :: OrderId
  modify_new_price :: Price
  modify_new_qty :: Qty

record OrderExecutionData =
  exec_order_id :: OrderId
  exec_exec_price :: Price
  exec_exec_qty :: Qty
  exec_leaves_qty :: Qty
  exec_side :: Side
  exec_pad :: "byte list"

record TimerData =
  timer_strategy_id :: StrategyId
  timer_timer_id :: "32 word"

text \<open>Each payload as it lies in the bytes of the union.\<close>

definition tick_of_bytes :: "byte list \<Rightarrow> TickData" where
  "tick_of_bytes bs =
     \<lparr>tick_best_bid = get_s64 0 bs, tick_best_ask = get_s64 8 bs, tick_bid_qty = get_u64 16 bs,
      tick_ask_qty = get_u64 24 bs, tick_last_price = get_s64 32 bs, tick_last_qty = get_u64 40 bs\<rparr>"

definition trade_of_bytes :: "byte list \<Rightarrow> TradeData" where
  "trade_of_bytes bs =
     \<lparr>trade_price = get_s64 0 bs, trade_qty = get_u64 8 bs, trade_aggressor_side = get_side 16 bs,
      trade_pad = get_bytes 17 7 bs\<rparr>"

definition quote_of_bytes :: "byte list \<Rightarrow> QuoteData" where
  "quote_of_bytes bs =
     \<lparr>quote_best_bid = get_s64 0 bs, quote_best_ask = get_s64 8 bs,
      quote_bid_qty = get_u64 16 bs, quote_ask_qty = get_u64 24 bs\<rparr>"

definition order_add_of_bytes :: "byte list \<Rightarrow> OrderAddData" where
  "order_add_of_bytes bs =
     \<lparr>add_order_id = get_u64 0 bs, add_price = get_s64 8 bs, add_qty = get_u64 16 bs,
      add_side = get_side 24 bs, add_pad = get_bytes 25 7 bs\<rparr>"

definition order_cancel_of_bytes :: "byte list \<Rightarrow> OrderCancelData" where
  "order_cancel_of_bytes bs = \<lparr>cancel_order_id = get_u64 0 bs\<rparr>"

definition order_modify_of_bytes :: "byte list \<Rightarrow> OrderModifyData" where
  "order_modify_of_bytes bs =
     \<lparr>modify_order_id = get_u64 0 bs, modify_new_price = get_s64 8 bs,
      modify_new_qty = get_u64 16 bs\<rparr>"

definition order_execution_of_bytes :: "byte list \<Rightarrow> OrderExecutionData" where
  "order_execution_of_bytes bs =
     \<lparr>exec_order_id = get_u64 0 bs, exec_exec_price = get_s64 8 bs, exec_exec_qty = get_u64 16 bs,
      exec_leaves_qty = get_u64 24 bs, exec_side = get_side 32 bs, exec_pad = get_bytes 33 7 bs\<rparr>"

definition timer_of_bytes :: "byte list \<Rightarrow> TimerData" where
  "timer_of_bytes bs =
     \<lparr>timer_strategy_id = get_u32 0 bs, timer_timer_id = get_u32 4 bs\<rparr>"

text \<open>The image of each payload struct in memory.\<close>

definition tick_to_bytes :: "TickData \<Rightarrow> byte list" where
  "tick_to_bytes d =
     bytes_s64 (tick_best_bid d) @ bytes_s64 (tick_best_ask d) @ bytes_u64 (tick_bid_qty d) @
     bytes_u64 (tick_ask_qty d) @ bytes_s64 (tick_last_price d) @ bytes_u64 (tick_last_qty d)"

definition trade_to_bytes :: "TradeData \<Rightarrow> byte list" where
  "trade_to_bytes d =
     bytes_s64 (trade_price d) @ bytes_u64 (trade_qty d) @
     bytes_u8 (side_code (trade_aggressor_side d)) @ trade_pad d"

definition quote_to_bytes :: "QuoteData \<Rightarrow> byte list" where
  "quote_to_bytes d =
     bytes_s64 (quote_best_bid d) @ bytes_s64 (quote_best_ask d) @ bytes_u64 (quote_bid_qty d) @
     bytes_u64 (quote_ask_qty d)"

definition order_add_to_bytes :: "OrderAddData \<Rightarrow> byte list" where
  "order_add_to_bytes d =
     bytes_u64 (add_order_id d) @ bytes_s64 (add_price d) @ bytes_u64 (add_qty d) @
     bytes_u8 (side_code (add_side d)) @ add_pad d"

definition order_cancel_to_bytes :: "OrderCancelData \<Rightarrow> byte list" where
  "order_cancel_to_bytes d = bytes_u64 (cancel_order_id d)"

definition order_modify_to_bytes :: "OrderModifyData \<Rightarrow> byte list" where
  "order_modify_to_bytes d =
     bytes_u64 (modify_order_id d) @ bytes_s64 (modify_new_price d) @ bytes_u64 (modify_new_qty d)"

definition order_execution_to_bytes :: "OrderExecutionData \<Rightarrow> byte list" where
  "order_execution_to_bytes d =
     bytes_u64 (exec_order_id d) @ bytes_s64 (exec_exec_price d) @ bytes_u64 (exec_exec_qty d) @
     bytes_u64 (exec_leaves_qty d) @ bytes_u8 (side_code (exec_side d)) @ exec_pad d"

definition timer_to_bytes :: "TimerData \<Rightarrow> byte list" where
  "timer_to_bytes d = bytes_u32 (timer_strategy_id d) @ bytes_u32 (timer_timer_id d)"

subsection \<open>The event\<close>

record Event =
  ev_timestamp :: Nanos
  ev_symbol :: Symbol
  ev_type :: EventType
  ev_pad :: "byte list"
  ev_payload :: "byte list"

definition event_tick :: "Event \<Rightarrow> TickData" where
  "event_tick e = tick_of_bytes (ev_payload e)"

definition event_trade :: "Event \<Rightarrow> TradeData" where
  "event_trade e = trade_of_bytes (ev_payload e)"

definition event_quote :: "Event \<Rightarrow> QuoteData" where
  "event_quote e = quote_of_bytes (ev_payload e)"

definition event_order_add :: "Event \<Rightarrow> OrderAddData" where
  "event_order_add e = order_add_of_bytes (ev_payload e)"

definition event_order_cancel :: "Event \<Rightarrow> OrderCancelData" where
  "event_order_cancel e = order_cancel_of_bytes (ev_payload e)"

definition event_order_modify :: "Event \<Rightarrow> OrderModifyData" where
  "event_order_modify e = order_modify_of_bytes (ev_payload e)"

definition event_order_execution :: "Event \<Rightarrow> OrderExecutionData" where
  "event_order_execution e = order_execution_of_bytes (ev_payload e)"

definition event_timer :: "Event \<Rightarrow> TimerData" where
  "event_timer e = timer_of_bytes (ev_payload e)"

text \<open>\<open>Event()\<close>: an \<open>EndOfData\<close> event whose whole payload is zero (\<open>tick{}\<close> fills it).\<close>

definition Event_default :: Event where
  "Event_default = \<lparr>ev_timestamp = 0, ev_symbol = 0, ev_type = EndOfData,
     ev_pad = [0, 0, 0], ev_payload = replicate 48 0\<rparr>"

definition make_end_of_data :: Event where
  "make_end_of_data = Event_default"

definition make_trade :: "Nanos \<Rightarrow> Symbol \<Rightarrow> Price \<Rightarrow> Qty \<Rightarrow> Side \<Rightarrow> Event" where
  "make_trade ts symb p q s =
     (let e = Event_default;
          e = e\<lparr>ev_timestamp := ts\<rparr>;
          e = e\<lparr>ev_symbol := symb\<rparr>;
          e = e\<lparr>ev_type := Trade\<rparr>;
          e = e\<lparr>ev_payload := put_s64 0 p (ev_payload e)\<rparr>;
          e = e\<lparr>ev_payload := put_u64 8 q (ev_payload e)\<rparr>;
          e = e\<lparr>ev_payload := put_u8 16 (side_code s) (ev_payload e)\<rparr>
      in e)"

text \<open>
  The bytes of an event as the struct lays them out, for stating what a file of events holds; the program only reads such files.
\<close>

definition event_to_bytes :: "Event \<Rightarrow> byte list" where
  "event_to_bytes e =
     bytes_s64 (ev_timestamp e) @ bytes_u32 (ev_symbol e) @ bytes_u8 (event_type_code (ev_type e)) @
     ev_pad e @ ev_payload e"

definition event_of_bytes :: "byte list \<Rightarrow> Event" where
  "event_of_bytes bs =
     \<lparr>ev_timestamp = get_s64 0 bs, ev_symbol = get_u32 8 bs,
      ev_type = event_type_of_code (get_u8 12 bs), ev_pad = get_bytes 13 3 bs,
      ev_payload = get_bytes 16 48 bs\<rparr>"

definition wf_event :: "Event \<Rightarrow> bool" where
  "wf_event e \<longleftrightarrow> in_s64 (ev_timestamp e) \<and> length (ev_pad e) = 3 \<and> length (ev_payload e) = 48 \<and>
     event_type_of_code (event_type_code (ev_type e)) = ev_type e"

subsection \<open>Lemmas on the layout\<close>

lemma length_bytes [simp]:
  "length (bytes_u8 a) = 1" "length (bytes_u32 b) = 4" "length (bytes_u64 c) = 8"
  "length (bytes_s64 i) = 8"
  by (simp_all add: bytes_u8_def bytes_u32_def bytes_u64_def bytes_s64_def)

lemma get_bytes_skip [byte_simps]:
  "length xs \<le> off \<Longrightarrow> get_bytes off n (xs @ ys) = get_bytes (off - length xs) n ys"
  by (simp add: get_bytes_def)

lemma get_bytes_hd [byte_simps]: "length xs = n \<Longrightarrow> get_bytes 0 n (xs @ ys) = xs"
  by (simp add: get_bytes_def)

lemma get_bytes_whole [byte_simps]: "length xs = n \<Longrightarrow> get_bytes 0 n xs = xs"
  by (simp add: get_bytes_def)

lemma get_skip [byte_simps]:
  "length xs \<le> off \<Longrightarrow> get_u8 off (xs @ ys) = get_u8 (off - length xs) ys"
  "length xs \<le> off \<Longrightarrow> get_u32 off (xs @ ys) = get_u32 (off - length xs) ys"
  "length xs \<le> off \<Longrightarrow> get_u64 off (xs @ ys) = get_u64 (off - length xs) ys"
  "length xs \<le> off \<Longrightarrow> get_s64 off (xs @ ys) = get_s64 (off - length xs) ys"
  by (simp_all add: get_defs get_bytes_skip)

lemma get_hd [byte_simps]:
  "get_u8 0 (bytes_u8 a @ ys) = a" "get_u32 0 (bytes_u32 b @ ys) = b"
  "get_u64 0 (bytes_u64 c @ ys) = c" "in_s64 i \<Longrightarrow> get_s64 0 (bytes_s64 i @ ys) = i"
  by (simp_all add: get_defs get_bytes_hd get_bytes_def bytes_u8_def bytes_u32_def bytes_u64_def
      bytes_s64_def word_of_bytes_of_word)

lemma get_last [byte_simps]:
  "get_u8 0 (bytes_u8 a) = a" "get_u32 0 (bytes_u32 b) = b"
  "get_u64 0 (bytes_u64 c) = c" "in_s64 i \<Longrightarrow> get_s64 0 (bytes_s64 i) = i"
  using get_hd [where ys = "[]"] by simp_all

lemma bytes_get [byte_simps]:
  "off + 1 \<le> length bs \<Longrightarrow> bytes_u8 (get_u8 off bs) = get_bytes off 1 bs"
  "off + 4 \<le> length bs \<Longrightarrow> bytes_u32 (get_u32 off bs) = get_bytes off 4 bs"
  "off + 8 \<le> length bs \<Longrightarrow> bytes_u64 (get_u64 off bs) = get_bytes off 8 bs"
  "off + 8 \<le> length bs \<Longrightarrow> bytes_s64 (get_s64 off bs) = get_bytes off 8 bs"
  using bytes_of_word_of_bytes [of "get_bytes off 1 bs", where 'a = 8]
    bytes_of_word_of_bytes [of "get_bytes off 4 bs", where 'a = 32]
    bytes_of_word_of_bytes [of "get_bytes off 8 bs", where 'a = 64]
  by (simp_all add: get_defs bytes_u8_def bytes_u32_def bytes_u64_def bytes_s64_def)

lemma get_bytes_join: "get_bytes off n bs @ get_bytes (off + n) m bs = get_bytes off (n + m) bs"
  using take_add [of n m "drop off bs"] by (simp add: get_bytes_def add.commute)

lemma in_s64_get [simp]: "in_s64 (get_s64 off bs)"
  by (simp add: get_s64_def)

lemma length_event_to_bytes: "wf_event e \<Longrightarrow> length (event_to_bytes e) = 64"
  by (simp add: wf_event_def event_to_bytes_def)

lemma wf_event_of_bytes: "length bs = 64 \<Longrightarrow> wf_event (event_of_bytes bs)"
  by (simp add: wf_event_def event_of_bytes_def)

lemma wf_Event_default [simp]: "wf_event Event_default"
  by (simp add: wf_event_def Event_default_def event_type_of_code_def)

lemma event_of_to_bytes: "wf_event e \<Longrightarrow> event_of_bytes (event_to_bytes e) = e"
  by (cases e) (simp add: wf_event_def event_of_bytes_def event_to_bytes_def byte_simps)

lemma event_to_of_bytes:
  assumes "length bs = 64"
  shows "event_to_bytes (event_of_bytes bs) = bs"
proof -
  have "event_to_bytes (event_of_bytes bs) =
      get_bytes 0 8 bs @ get_bytes 8 4 bs @ get_bytes 12 1 bs @ get_bytes 13 3 bs @ get_bytes 16 48 bs"
    using assms by (simp add: event_to_bytes_def event_of_bytes_def byte_simps)
  also have "\<dots> = get_bytes 0 64 bs"
    using get_bytes_join [of 13 3 bs 48] get_bytes_join [of 12 1 bs 51]
      get_bytes_join [of 8 4 bs 52] get_bytes_join [of 0 8 bs 56] by simp
  finally show ?thesis using assms by (simp add: get_bytes_def)
qed

subsection \<open>Lemmas on payloads\<close>

definition wf_side :: "Side \<Rightarrow> bool" where
  "wf_side s \<longleftrightarrow> side_of_code (side_code s) = s"

lemma wf_side_named [simp]: "wf_side Buy" "wf_side Sell"
  by (simp_all add: wf_side_def)

lemma wf_side_of_code [simp]: "wf_side (side_of_code b)"
  by (simp add: wf_side_def)

lemma wf_side_get [simp]: "wf_side (get_side off bs)"
  by (simp add: get_side_def)

lemma tick_roundtrip:
  "in_s64 (tick_best_bid d) \<Longrightarrow> in_s64 (tick_best_ask d) \<Longrightarrow> in_s64 (tick_last_price d) \<Longrightarrow>
   tick_of_bytes (tick_to_bytes d @ r) = d"
  by (simp add: tick_of_bytes_def tick_to_bytes_def byte_simps)

lemma trade_roundtrip:
  "in_s64 (trade_price d) \<Longrightarrow> wf_side (trade_aggressor_side d) \<Longrightarrow> length (trade_pad d) = 7 \<Longrightarrow>
   trade_of_bytes (trade_to_bytes d @ r) = d"
  by (simp add: trade_of_bytes_def trade_to_bytes_def get_side_def wf_side_def byte_simps)

lemma quote_roundtrip:
  "in_s64 (quote_best_bid d) \<Longrightarrow> in_s64 (quote_best_ask d) \<Longrightarrow>
   quote_of_bytes (quote_to_bytes d @ r) = d"
  by (simp add: quote_of_bytes_def quote_to_bytes_def byte_simps)

lemma order_add_roundtrip:
  "in_s64 (add_price d) \<Longrightarrow> wf_side (add_side d) \<Longrightarrow> length (add_pad d) = 7 \<Longrightarrow>
   order_add_of_bytes (order_add_to_bytes d @ r) = d"
  by (simp add: order_add_of_bytes_def order_add_to_bytes_def get_side_def wf_side_def byte_simps)

lemma order_cancel_roundtrip: "order_cancel_of_bytes (order_cancel_to_bytes d @ r) = d"
  by (simp add: order_cancel_of_bytes_def order_cancel_to_bytes_def byte_simps)

lemma order_modify_roundtrip:
  "in_s64 (modify_new_price d) \<Longrightarrow> order_modify_of_bytes (order_modify_to_bytes d @ r) = d"
  by (simp add: order_modify_of_bytes_def order_modify_to_bytes_def byte_simps)

lemma order_execution_roundtrip:
  "in_s64 (exec_exec_price d) \<Longrightarrow> wf_side (exec_side d) \<Longrightarrow> length (exec_pad d) = 7 \<Longrightarrow>
   order_execution_of_bytes (order_execution_to_bytes d @ r) = d"
  by (simp add: order_execution_of_bytes_def order_execution_to_bytes_def get_side_def wf_side_def
      byte_simps)

lemma timer_roundtrip: "timer_of_bytes (timer_to_bytes d @ r) = d"
  by (simp add: timer_of_bytes_def timer_to_bytes_def byte_simps)

text \<open>The sizes that the comments of \<open>event_types.hpp\<close> give, none above 48 bytes.\<close>

lemma payload_sizes:
  "length (tick_to_bytes a) = 48"
  "length (trade_pad b) = 7 \<Longrightarrow> length (trade_to_bytes b) = 24"
  "length (quote_to_bytes c) = 32"
  "length (add_pad d) = 7 \<Longrightarrow> length (order_add_to_bytes d) = 32"
  "length (order_cancel_to_bytes e) = 8"
  "length (order_modify_to_bytes f) = 24"
  "length (exec_pad g) = 7 \<Longrightarrow> length (order_execution_to_bytes g) = 40"
  "length (timer_to_bytes h) = 8"
  by (simp_all add: tick_to_bytes_def trade_to_bytes_def quote_to_bytes_def order_add_to_bytes_def
      order_cancel_to_bytes_def order_modify_to_bytes_def order_execution_to_bytes_def
      timer_to_bytes_def)

text \<open>A write into the union leaves the fields outside the written bytes alone.\<close>

lemma get_put_frame [byte_simps]:
  "off + 8 \<le> length bs \<Longrightarrow> off + 8 \<le> o1 \<or> o1 + 8 \<le> off \<Longrightarrow> get_s64 o1 (put_u64 off w bs) = get_s64 o1 bs"
  "off + 8 \<le> length bs \<Longrightarrow> off + 8 \<le> o1 \<or> o1 + 8 \<le> off \<Longrightarrow> get_u64 o1 (put_u64 off w bs) = get_u64 o1 bs"
  "off + 1 \<le> length bs \<Longrightarrow> off + 1 \<le> o1 \<or> o1 + 8 \<le> off \<Longrightarrow> get_s64 o1 (put_u8 off v bs) = get_s64 o1 bs"
  "off + 1 \<le> length bs \<Longrightarrow> off + 1 \<le> o1 \<or> o1 + 8 \<le> off \<Longrightarrow> get_u64 o1 (put_u8 off v bs) = get_u64 o1 bs"
  by (auto simp: get_defs put_defs get_put_before get_put_after)

lemma get_bytes_put_frame [byte_simps]:
  "off + 8 \<le> length bs \<Longrightarrow> off + 8 \<le> o1 \<Longrightarrow> get_bytes o1 n (put_s64 off i bs) = get_bytes o1 n bs"
  "off + 8 \<le> length bs \<Longrightarrow> off + 8 \<le> o1 \<Longrightarrow> get_bytes o1 n (put_u64 off w bs) = get_bytes o1 n bs"
  "off + 1 \<le> length bs \<Longrightarrow> off + 1 \<le> o1 \<Longrightarrow> get_bytes o1 n (put_u8 off v bs) = get_bytes o1 n bs"
  by (simp_all add: put_defs get_put_after)

lemma wf_make_trade: "in_s64 ts \<Longrightarrow> wf_event (make_trade ts symb p q s)"
  by (simp add: make_trade_def wf_event_def Event_default_def event_type_of_code_def)

lemma make_trade_simps [simp]:
  "ev_timestamp (make_trade ts symb p q s) = ts"
  "ev_symbol (make_trade ts symb p q s) = symb"
  "ev_type (make_trade ts symb p q s) = Trade"
  by (simp_all add: make_trade_def)

lemma event_trade_make_trade:
  "in_s64 p \<Longrightarrow> wf_side s \<Longrightarrow>
   event_trade (make_trade ts symb p q s) =
     \<lparr>trade_price = p, trade_qty = q, trade_aggressor_side = s, trade_pad = replicate 7 0\<rparr>"
  by (simp add: make_trade_def Let_def event_trade_def trade_of_bytes_def get_side_def wf_side_def
      Event_default_def byte_simps)
    (simp add: get_bytes_def)

text \<open>The union seen as a tagged union: which member the event's type selects.\<close>

datatype Payload =
    P_Tick TickData | P_Trade TradeData | P_Quote QuoteData | P_OrderAdd OrderAddData
  | P_OrderCancel OrderCancelData | P_OrderModify OrderModifyData
  | P_OrderExecution OrderExecutionData | P_Timer TimerData

fun payload_type :: "Payload \<Rightarrow> EventType" where
  "payload_type (P_Tick d) = MarketTick"
| "payload_type (P_Trade d) = Trade"
| "payload_type (P_Quote d) = Quote"
| "payload_type (P_OrderAdd d) = OrderAdd"
| "payload_type (P_OrderCancel d) = OrderCancel"
| "payload_type (P_OrderModify d) = OrderModify"
| "payload_type (P_OrderExecution d) = OrderExecution"
| "payload_type (P_Timer d) = StrategyTimer"

fun payload_to_bytes :: "Payload \<Rightarrow> byte list" where
  "payload_to_bytes (P_Tick d) = tick_to_bytes d"
| "payload_to_bytes (P_Trade d) = trade_to_bytes d"
| "payload_to_bytes (P_Quote d) = quote_to_bytes d"
| "payload_to_bytes (P_OrderAdd d) = order_add_to_bytes d"
| "payload_to_bytes (P_OrderCancel d) = order_cancel_to_bytes d"
| "payload_to_bytes (P_OrderModify d) = order_modify_to_bytes d"
| "payload_to_bytes (P_OrderExecution d) = order_execution_to_bytes d"
| "payload_to_bytes (P_Timer d) = timer_to_bytes d"

fun payload_of_bytes :: "EventType \<Rightarrow> byte list \<Rightarrow> Payload option" where
  "payload_of_bytes MarketTick bs = Some (P_Tick (tick_of_bytes bs))"
| "payload_of_bytes Trade bs = Some (P_Trade (trade_of_bytes bs))"
| "payload_of_bytes Quote bs = Some (P_Quote (quote_of_bytes bs))"
| "payload_of_bytes OrderAdd bs = Some (P_OrderAdd (order_add_of_bytes bs))"
| "payload_of_bytes OrderCancel bs = Some (P_OrderCancel (order_cancel_of_bytes bs))"
| "payload_of_bytes OrderModify bs = Some (P_OrderModify (order_modify_of_bytes bs))"
| "payload_of_bytes OrderExecution bs = Some (P_OrderExecution (order_execution_of_bytes bs))"
| "payload_of_bytes StrategyTimer bs = Some (P_Timer (timer_of_bytes bs))"
| "payload_of_bytes _ bs = None"

fun wf_payload :: "Payload \<Rightarrow> bool" where
  "wf_payload (P_Tick d) =
     (in_s64 (tick_best_bid d) \<and> in_s64 (tick_best_ask d) \<and> in_s64 (tick_last_price d))"
| "wf_payload (P_Trade d) =
     (in_s64 (trade_price d) \<and> wf_side (trade_aggressor_side d) \<and> length (trade_pad d) = 7)"
| "wf_payload (P_Quote d) = (in_s64 (quote_best_bid d) \<and> in_s64 (quote_best_ask d))"
| "wf_payload (P_OrderAdd d) = (in_s64 (add_price d) \<and> wf_side (add_side d) \<and> length (add_pad d) = 7)"
| "wf_payload (P_OrderCancel d) = True"
| "wf_payload (P_OrderModify d) = in_s64 (modify_new_price d)"
| "wf_payload (P_OrderExecution d) =
     (in_s64 (exec_exec_price d) \<and> wf_side (exec_side d) \<and> length (exec_pad d) = 7)"
| "wf_payload (P_Timer d) = True"

lemma payload_of_to_bytes:
  "wf_payload d \<Longrightarrow> payload_of_bytes (payload_type d) (payload_to_bytes d @ r) = Some d"
  by (cases d) (simp_all add: tick_roundtrip trade_roundtrip quote_roundtrip order_add_roundtrip
      order_cancel_roundtrip order_modify_roundtrip order_execution_roundtrip timer_roundtrip)

lemma length_payload_to_bytes: "wf_payload d \<Longrightarrow> length (payload_to_bytes d) \<le> 48"
  by (cases d) (simp_all add: payload_sizes)

subsection \<open>Properties\<close>

text \<open>
  The factory \<open>make_trade\<close> sets the header and the trade member of the union to its
  arguments, for every time and price of 64 bits and either side, clears the padding, and
  gives a well-formed event of type \<open>Trade\<close>.
\<close>

theorem make_trade_fields:
  assumes "in_s64 ts" and "in_s64 p" and "s = Buy \<or> s = Sell"
  shows "let e = make_trade ts symb p q s in
    ev_timestamp e = ts \<and> ev_symbol e = symb \<and> ev_type e = Trade \<and> wf_event e \<and>
    event_trade e = \<lparr>trade_price = p, trade_qty = q, trade_aggressor_side = s,
      trade_pad = replicate 7 0\<rparr>"
  using assms event_trade_make_trade wf_make_trade by (auto simp: Let_def)

theorem make_trade_fields_witness:
  "trade_price (event_trade (make_trade 1000 42 10050000000 100 Buy)) = 10050000000"
  using make_trade_fields [of 1000 10050000000 Buy 42 100] by (simp add: in_s64_def Let_def)

text \<open>
  The union is used as a tagged union: the payload that the event's type names is read
  back exactly as it was stored, whatever bytes lie behind it, and no payload is longer than
  the 48 bytes of the union, for all eight payload structs with field values in range.
\<close>

theorem payload_roundtrip:
  assumes "wf_payload d"
  shows "payload_of_bytes (payload_type d) (payload_to_bytes d @ r) = Some d \<and>
    length (payload_to_bytes d) \<le> 48"
  using assms by (simp add: payload_of_to_bytes length_payload_to_bytes)

theorem payload_roundtrip_witness:
  "payload_of_bytes Quote (payload_to_bytes (P_Quote \<lparr>quote_best_bid = - 5, quote_best_ask = 7,
      quote_bid_qty = 10, quote_ask_qty = 20\<rparr>) @ replicate 16 255) =
   Some (P_Quote \<lparr>quote_best_bid = - 5, quote_best_ask = 7, quote_bid_qty = 10, quote_ask_qty = 20\<rparr>)"
  using payload_roundtrip [of "P_Quote \<lparr>quote_best_bid = - 5, quote_best_ask = 7,
      quote_bid_qty = 10, quote_ask_qty = 20\<rparr>" "replicate 16 255"]
  by (simp add: in_s64_def)

end
