(* ===== verification/Strategy.thy ===== *)
theory Strategy
  imports Exchange Events
begin

section \<open>Strategies and the event dispatcher (\<open>strategy/strategy.hpp\<close>, \<open>engine/event_dispatcher.hpp\<close>)\<close>

text \<open>
  A strategy class is a record of its ten event handlers, which act on the strategy's state and
  may have undefined behaviour. A handler a derived class does not define is the empty one of
  the base class. The state that the base class gives every strategy is the simulator it points
  to; the actions \<open>send_order\<close>, \<open>cancel_order\<close> and \<open>modify_order\<close> pass to it. The base class
  also holds a pointer to the portfolio, which is the simulator's own portfolio wherever the
  repository builds a strategy.
\<close>

subsection \<open>Handlers\<close>

record 's StrategyImpl =
  on_tick :: "Nanos \<Rightarrow> Symbol \<Rightarrow> TickData \<Rightarrow> 's \<Rightarrow> 's res"
  on_trade :: "Nanos \<Rightarrow> Symbol \<Rightarrow> TradeData \<Rightarrow> 's \<Rightarrow> 's res"
  on_quote :: "Nanos \<Rightarrow> Symbol \<Rightarrow> QuoteData \<Rightarrow> 's \<Rightarrow> 's res"
  on_order_add :: "Nanos \<Rightarrow> Symbol \<Rightarrow> OrderAddData \<Rightarrow> 's \<Rightarrow> 's res"
  on_order_cancel :: "Nanos \<Rightarrow> Symbol \<Rightarrow> OrderCancelData \<Rightarrow> 's \<Rightarrow> 's res"
  on_order_modify :: "Nanos \<Rightarrow> Symbol \<Rightarrow> OrderModifyData \<Rightarrow> 's \<Rightarrow> 's res"
  on_order_execution :: "Nanos \<Rightarrow> Symbol \<Rightarrow> OrderExecutionData \<Rightarrow> 's \<Rightarrow> 's res"
  on_timer :: "Nanos \<Rightarrow> TimerData \<Rightarrow> 's \<Rightarrow> 's res"
  on_session_start :: "Nanos \<Rightarrow> 's \<Rightarrow> 's res"
  on_session_end :: "Nanos \<Rightarrow> 's \<Rightarrow> 's res"

definition Strategy_handlers :: "'s StrategyImpl" where
  "Strategy_handlers =
     \<lparr>on_tick = (\<lambda>_ _ _. Inr), on_trade = (\<lambda>_ _ _. Inr), on_quote = (\<lambda>_ _ _. Inr),
      on_order_add = (\<lambda>_ _ _. Inr), on_order_cancel = (\<lambda>_ _ _. Inr), on_order_modify = (\<lambda>_ _ _. Inr),
      on_order_execution = (\<lambda>_ _ _. Inr), on_timer = (\<lambda>_ _. Inr),
      on_session_start = (\<lambda>_. Inr), on_session_end = (\<lambda>_. Inr)\<rparr>"

subsection \<open>State and actions\<close>

record ('e, 'u) Strategy =
  strat_sim :: "'e ExchangeSimulator option"
  strat_user :: 'u

definition strategy_portfolio :: "('e, 'u) Strategy \<Rightarrow> Portfolio option" where
  "strategy_portfolio st = Option.bind (strat_sim st) sim_portfolio"

definition Strategy_send_order ::
  "(ExecutionReport \<Rightarrow> bool) \<Rightarrow> ('e, 'm) MatchingEngine \<Rightarrow> OrderRequest \<Rightarrow> ('e, 'u) Strategy \<Rightarrow>
   ('e, 'u) Strategy res" where
  "Strategy_send_order is_fill M req st =
     (case strat_sim st of
        None \<Rightarrow> Inl NullDeref
      | Some sim \<Rightarrow> map_r (\<lambda>sim'. st\<lparr>strat_sim := Some sim'\<rparr>) (submit_order is_fill M req sim))"

definition Strategy_cancel_order ::
  "(ExecutionReport \<Rightarrow> bool) \<Rightarrow> ('e, 'm) MatchingEngine \<Rightarrow> Symbol \<Rightarrow> OrderId \<Rightarrow> ('e, 'u) Strategy \<Rightarrow>
   (bool \<times> ('e, 'u) Strategy) res" where
  "Strategy_cancel_order is_fill M symb oid st =
     (case strat_sim st of
        None \<Rightarrow> Inl NullDeref
      | Some sim \<Rightarrow> map_r (\<lambda>(ok, sim'). (ok, st\<lparr>strat_sim := Some sim'\<rparr>)) (cancel_order is_fill M symb oid sim))"

definition Strategy_modify_order ::
  "(ExecutionReport \<Rightarrow> bool) \<Rightarrow> ('e, 'm) MatchingEngine \<Rightarrow> Symbol \<Rightarrow> 'm \<Rightarrow> ('e, 'u) Strategy \<Rightarrow>
   (bool \<times> ('e, 'u) Strategy) res" where
  "Strategy_modify_order is_fill M symb mreq st =
     (case strat_sim st of
        None \<Rightarrow> Inl NullDeref
      | Some sim \<Rightarrow> map_r (\<lambda>(ok, sim'). (ok, st\<lparr>strat_sim := Some sim'\<rparr>)) (modify_order is_fill M symb mreq sim))"

subsection \<open>Dispatch\<close>

definition dispatch :: "'s StrategyImpl \<Rightarrow> Event \<Rightarrow> 's \<Rightarrow> 's res" where
  "dispatch strategy e =
     (case ev_type e of
        MarketTick \<Rightarrow> on_tick strategy (ev_timestamp e) (ev_symbol e) (event_tick e)
      | Trade \<Rightarrow> on_trade strategy (ev_timestamp e) (ev_symbol e) (event_trade e)
      | Quote \<Rightarrow> on_quote strategy (ev_timestamp e) (ev_symbol e) (event_quote e)
      | OrderAdd \<Rightarrow> on_order_add strategy (ev_timestamp e) (ev_symbol e) (event_order_add e)
      | OrderCancel \<Rightarrow> on_order_cancel strategy (ev_timestamp e) (ev_symbol e) (event_order_cancel e)
      | OrderModify \<Rightarrow> on_order_modify strategy (ev_timestamp e) (ev_symbol e) (event_order_modify e)
      | OrderExecution \<Rightarrow> on_order_execution strategy (ev_timestamp e) (ev_symbol e) (event_order_execution e)
      | StrategyTimer \<Rightarrow> on_timer strategy (ev_timestamp e) (event_timer e)
      | SessionStart \<Rightarrow> on_session_start strategy (ev_timestamp e)
      | SessionEnd \<Rightarrow> on_session_end strategy (ev_timestamp e)
      | _ \<Rightarrow> Inr)"

subsection \<open>What dispatch promises\<close>

text \<open>A callback with its arguments, what it calls, and the callback an event stands for.\<close>

datatype callback =
  Call_payload Nanos Symbol Payload | Call_session_start Nanos | Call_session_end Nanos

fun call :: "'s StrategyImpl \<Rightarrow> callback \<Rightarrow> 's \<Rightarrow> 's res" where
  "call h (Call_payload ts symb (P_Tick d)) = on_tick h ts symb d"
| "call h (Call_payload ts symb (P_Trade d)) = on_trade h ts symb d"
| "call h (Call_payload ts symb (P_Quote d)) = on_quote h ts symb d"
| "call h (Call_payload ts symb (P_OrderAdd d)) = on_order_add h ts symb d"
| "call h (Call_payload ts symb (P_OrderCancel d)) = on_order_cancel h ts symb d"
| "call h (Call_payload ts symb (P_OrderModify d)) = on_order_modify h ts symb d"
| "call h (Call_payload ts symb (P_OrderExecution d)) = on_order_execution h ts symb d"
| "call h (Call_payload ts symb (P_Timer d)) = on_timer h ts d"
| "call h (Call_session_start ts) = on_session_start h ts"
| "call h (Call_session_end ts) = on_session_end h ts"

definition callback_of :: "Event \<Rightarrow> callback option" where
  "callback_of e =
     (if ev_type e = SessionStart then Some (Call_session_start (ev_timestamp e))
      else if ev_type e = SessionEnd then Some (Call_session_end (ev_timestamp e))
      else map_option (Call_payload (ev_timestamp e) (ev_symbol e)) (payload_of_bytes (ev_type e) (ev_payload e)))"

lemma dispatch_callback:
  "dispatch h e = (case callback_of e of None \<Rightarrow> Inr | Some cb \<Rightarrow> call h cb)"
  by (cases "ev_type e")
    (simp_all add: dispatch_def callback_of_def event_tick_def event_trade_def event_quote_def
      event_order_add_def event_order_cancel_def event_order_modify_def event_order_execution_def
      event_timer_def)

lemma call_default [simp]: "call Strategy_handlers cb = Inr"
  by (induction "Strategy_handlers :: 'a StrategyImpl" cb rule: call.induct)
    (simp_all add: Strategy_handlers_def)

lemma dispatch_default [simp]: "dispatch Strategy_handlers e = Inr"
  by (simp add: dispatch_callback split: option.split)

text \<open>
  A client of a strategy relies on its handlers keeping an invariant of the strategy's state; a
  safe strategy is one whose handlers are also defined wherever the invariant holds.
\<close>

locale strategy_contract =
  fixes h :: "'s StrategyImpl" and I :: "'s \<Rightarrow> bool"
  assumes call_keeps: "I s \<Longrightarrow> call h cb s = Inr s' \<Longrightarrow> I s'"
begin

lemma dispatch_keeps: "I s \<Longrightarrow> dispatch h e s = Inr s' \<Longrightarrow> I s'"
  by (auto simp: dispatch_callback split: option.splits dest: call_keeps)

lemma dispatches_keep: "fold_r (dispatch h) es s = Inr s' \<Longrightarrow> I s \<Longrightarrow> I s'"
  by (erule fold_r_invariant) (auto dest: dispatch_keeps)

end

locale safe_strategy = strategy_contract +
  assumes call_defined: "I s \<Longrightarrow> \<exists>s'. call h cb s = Inr s'"
begin

lemma dispatch_defined: "I s \<Longrightarrow> \<exists>s'. dispatch h e s = Inr s' \<and> I s'"
  using call_defined call_keeps by (fastforce simp: dispatch_callback split: option.split)

lemma dispatches_defined: "I s \<Longrightarrow> \<exists>s'. fold_r (dispatch h) es s = Inr s' \<and> I s'"
proof (induction es arbitrary: s)
  case (Cons e es)
  then show ?case using dispatch_defined [OF Cons.prems, of e] by fastforce
qed simp

end

interpretation base_strategy: safe_strategy Strategy_handlers "\<lambda>s. s = s0" for s0
  by unfold_locales simp_all

text \<open>The actions are operations of the simulator, and change nothing else of the strategy.\<close>

inductive acts ::
  "(ExecutionReport \<Rightarrow> bool) \<Rightarrow> ('e, 'm) MatchingEngine \<Rightarrow> ('e, 'u) Strategy \<Rightarrow> 'm sim_op list \<Rightarrow>
   ('e, 'u) Strategy \<Rightarrow> bool" for is_fill M where
  idle: "acts is_fill M st [] st"
| think: "acts is_fill M st ops st' \<Longrightarrow> acts is_fill M st ops (st'\<lparr>strat_user := u\<rparr>)"
| send: "acts is_fill M st ops st' \<Longrightarrow> Strategy_send_order is_fill M req st' = Inr st'' \<Longrightarrow>
    acts is_fill M st (ops @ [Submit req]) st''"
| cancel: "acts is_fill M st ops st' \<Longrightarrow> Strategy_cancel_order is_fill M symb oid st' = Inr (ok, st'') \<Longrightarrow>
    acts is_fill M st (ops @ [Cancel symb oid]) st''"
| modify: "acts is_fill M st ops st' \<Longrightarrow> Strategy_modify_order is_fill M symb mreq st' = Inr (ok, st'') \<Longrightarrow>
    acts is_fill M st (ops @ [Modify symb mreq]) st''"

lemma sim_run_snoc:
  "sim_run is_fill M (ops @ [op]) sim = bind_r (sim_run is_fill M ops sim) (sim_step is_fill M op)"
  by (cases "sim_run is_fill M ops sim") (simp_all add: sim_run_def fold_r_append)

lemma acts_sim_run:
  assumes "acts is_fill M st ops st'" and "strat_sim st = Some sim"
  shows "\<exists>sim'. strat_sim st' = Some sim' \<and> sim_run is_fill M ops sim = Inr sim' \<and> \<not> list_ex is_advance ops"
  using assms
  by (induction rule: acts.induct)
    (auto simp: sim_run_snoc Strategy_send_order_def Strategy_cancel_order_def Strategy_modify_order_def
      res_simps, auto simp: sim_run_def)

lemma acts_trans:
  assumes "acts is_fill M st' ops' st''" and "acts is_fill M st ops st'"
  shows "acts is_fill M st (ops @ ops') st''"
  using assms
  by (induction rule: acts.induct) (auto simp flip: append_assoc intro: acts.intros)

subsection \<open>Properties\<close>

text \<open>
  C21. Dispatch is a faithful tagged-union match: an event whose type and bytes hold a payload
  calls exactly the handler for that payload, with the event's time, symbol and the payload as
  stored, whatever bytes lie behind it in the union; session events call their handler; and the
  events without a callback (bar closes, end of data, unknown codes) leave the strategy as it is.
\<close>

theorem dispatch_delivers_payload:
  assumes "wf_payload d" and "ev_type e = payload_type d" and "ev_payload e = payload_to_bytes d @ r"
  shows "dispatch h e s = call h (Call_payload (ev_timestamp e) (ev_symbol e) d) s \<and>
    dispatch h (e\<lparr>ev_type := SessionStart\<rparr>) s = on_session_start h (ev_timestamp e) s \<and>
    dispatch h (e\<lparr>ev_type := SessionEnd\<rparr>) s = on_session_end h (ev_timestamp e) s \<and>
    (t \<in> {BarClose, EndOfData, EventType_other b} \<longrightarrow> dispatch h (e\<lparr>ev_type := t\<rparr>) s = Inr s)"
proof -
  have "ev_type e \<noteq> SessionStart" "ev_type e \<noteq> SessionEnd" using assms(2) by (cases d; simp)+
  then have "callback_of e = Some (Call_payload (ev_timestamp e) (ev_symbol e) d)"
    using assms by (simp add: callback_of_def payload_of_to_bytes)
  then show ?thesis by (auto simp: dispatch_callback callback_of_def)
qed

theorem dispatch_delivers_payload_witness:
  "dispatch (Strategy_handlers\<lparr>on_timer := (\<lambda>ts d s. Inr (timer_timer_id d # s))\<rparr>)
     \<lparr>ev_timestamp = 9, ev_symbol = 0, ev_type = StrategyTimer, ev_pad = [0, 0, 0],
      ev_payload = payload_to_bytes (P_Timer \<lparr>timer_strategy_id = 1, timer_timer_id = 77\<rparr>) @ replicate 40 0\<rparr> [] =
   Inr [77]"
  by (subst dispatch_delivers_payload [of "P_Timer \<lparr>timer_strategy_id = 1, timer_timer_id = 77\<rparr>" _ "replicate 40 0",
        THEN conjunct1]) simp_all

end
