(* ===== verification/Data_Reader.thy ===== *)
theory Data_Reader
  imports Events
begin

section \<open>The data reader interface (\<open>data/data_reader.hpp\<close>)\<close>

text \<open>
  \<open>DataReader\<close> is a base class that forwards its four methods to the derived reader. A derived
  reader is a record of its four operations on the reader's state \<open>'r\<close>; \<open>read_next\<close> takes the
  caller's event, which it overwrites or leaves as it is. The locale states what a client of a
  reader relies on: the reader stands for a list of events still to come.
\<close>

record 'r DataReaderImpl =
  do_open :: "string \<Rightarrow> 'r \<Rightarrow> (bool \<times> 'r) res"
  do_read_next :: "Event \<Rightarrow> 'r \<Rightarrow> (bool \<times> Event \<times> 'r) res"
  do_has_next :: "'r \<Rightarrow> bool"
  do_reset :: "'r \<Rightarrow> 'r res"

definition reader_open :: "'r DataReaderImpl \<Rightarrow> string \<Rightarrow> 'r \<Rightarrow> (bool \<times> 'r) res" where
  "reader_open R path r = do_open R path r"

definition read_next :: "'r DataReaderImpl \<Rightarrow> Event \<Rightarrow> 'r \<Rightarrow> (bool \<times> Event \<times> 'r) res" where
  "read_next R out r = do_read_next R out r"

definition has_next :: "'r DataReaderImpl \<Rightarrow> 'r \<Rightarrow> bool" where
  "has_next R r = do_has_next R r"

definition reset :: "'r DataReaderImpl \<Rightarrow> 'r \<Rightarrow> 'r res" where
  "reset R r = do_reset R r"

text \<open>An open stream of bytes or characters: what the file holds, and the position in it.\<close>

record 'b FILE =
  file_bytes :: "'b list"
  file_pos :: nat

definition frewind :: "'b FILE \<Rightarrow> 'b FILE" where
  "frewind f = f\<lparr>file_pos := 0\<rparr>"

definition file_rest :: "'b FILE \<Rightarrow> 'b list" where
  "file_rest f = drop (file_pos f) (file_bytes f)"

text \<open>
  A reader in a good state (\<open>invar\<close>) has the events \<open>contents\<close>, of which \<open>remaining\<close> are still
  to be delivered. Reading delivers them in order, and at the end leaves the caller's event and
  the reader alone; resetting starts over.
\<close>

locale data_reader =
  fixes R :: "'r DataReaderImpl"
    and invar :: "'r \<Rightarrow> bool"
    and remaining :: "'r \<Rightarrow> Event list"
    and contents :: "'r \<Rightarrow> Event list"
  assumes read_end: "invar r \<Longrightarrow> remaining r = [] \<Longrightarrow> read_next R out r = Inr (False, out, r)"
    and read_event: "invar r \<Longrightarrow> remaining r = e # es \<Longrightarrow>
      \<exists>r'. read_next R out r = Inr (True, e, r') \<and> invar r' \<and> remaining r' = es \<and> contents r' = contents r"
    and has_next_iff: "invar r \<Longrightarrow> has_next R r \<longleftrightarrow> remaining r \<noteq> []"
    and reset_rewinds: "invar r \<Longrightarrow>
      \<exists>r'. reset R r = Inr r' \<and> invar r' \<and> remaining r' = contents r \<and> contents r' = contents r"

text \<open>The usual client loop, \<open>while (reader.read_next(e)) out.push_back(e)\<close>.\<close>

partial_function (option) read_all :: "'r DataReaderImpl \<Rightarrow> Event \<Rightarrow> 'r \<Rightarrow> Event list \<Rightarrow> (Event list \<times> 'r) res option" where
  "read_all R e r acc =
     (case read_next R e r of
        Inl u \<Rightarrow> Some (Inl u)
      | Inr (ok, e', r') \<Rightarrow>
          if ok then read_all R e' r' (acc @ [e']) else Some (Inr (acc, r')))"

context data_reader
begin

lemma read_all_remaining:
  "invar r \<Longrightarrow> \<exists>r'. read_all R e r acc = Some (Inr (acc @ remaining r, r')) \<and> invar r' \<and>
     remaining r' = [] \<and> contents r' = contents r"
proof (induction "remaining r" arbitrary: r e acc)
  case Nil
  then show ?case by (subst read_all.simps) (simp add: read_end)
next
  case (Cons x xs)
  from Cons.prems Cons.hyps(2) obtain r1 where r1: "read_next R e r = Inr (True, x, r1)" "invar r1"
    "remaining r1 = xs" "contents r1 = contents r"
    using read_event [of r x xs e] by auto
  have "read_all R e r acc = read_all R x r1 (acc @ [x])"
    by (subst read_all.simps) (simp add: r1(1))
  with Cons.hyps(1) [of r1 x "acc @ [x]"] r1 Cons.hyps(2) [symmetric] show ?case by simp
qed

text \<open>Reading everything, resetting and reading again gives the whole contents.\<close>

lemma reset_read_all:
  assumes "invar r"
  shows "\<exists>r1 r2 r3. read_all R e r [] = Some (Inr (remaining r, r1)) \<and> reset R r1 = Inr r2 \<and>
    read_all R e r2 [] = Some (Inr (contents r, r3))"
proof -
  obtain r1 where 1: "read_all R e r [] = Some (Inr (remaining r, r1))" "invar r1" "contents r1 = contents r"
    using read_all_remaining [OF assms, of e "[]"] by auto
  obtain r2 where 2: "reset R r1 = Inr r2" "invar r2" "remaining r2 = contents r"
    using reset_rewinds [OF 1(2)] 1(3) by auto
  obtain r3 where "read_all R e r2 [] = Some (Inr (contents r, r3))"
    using read_all_remaining [OF 2(2), of e "[]"] 2(3) by auto
  with 1 2 show ?thesis by blast
qed

end

end
