(* ===== verification/Replay.thy ===== *)
theory Replay
  imports Strategy Data_Reader
begin

section \<open>Replay engine (\<open>engine/replay_engine.hpp\<close>)\<close>

text \<open>
  The simulation loop: it keeps the current event and one event of look-ahead, skips events
  before the configured start, stops at the first event after the configured end, and
  dispatches and counts the others. The loop is a \<open>partial_function\<close> into \<open>option\<close>: a run
  that does not end is \<open>None\<close>, so that ending is a theorem. The prefetch hint has no effect on
  the state.
\<close>

subsection \<open>State and the loop\<close>

record ('r, 's) ReplayEngine =
  re_reader :: 'r
  re_strategy :: 's
  re_config :: BacktestConfig
  events_processed :: "64 word"

definition ReplayEngine_new :: "'r \<Rightarrow> 's \<Rightarrow> BacktestConfig \<Rightarrow> ('r, 's) ReplayEngine" where
  "ReplayEngine_new rd st cfg = \<lparr>re_reader = rd, re_strategy = st, re_config = cfg, events_processed = 0\<rparr>"

definition before_start :: "BacktestConfig \<Rightarrow> Event \<Rightarrow> bool" where
  "before_start cfg e \<longleftrightarrow> start_time cfg \<noteq> 0 \<and> ev_timestamp e < start_time cfg"

definition after_end :: "BacktestConfig \<Rightarrow> Event \<Rightarrow> bool" where
  "after_end cfg e \<longleftrightarrow> end_time cfg \<noteq> 0 \<and> end_time cfg < ev_timestamp e"

text \<open>The loop body up to the label \<open>advance\<close>; \<open>False\<close> stands for \<open>break\<close>.\<close>

definition replay_event ::
  "'s StrategyImpl \<Rightarrow> Event \<Rightarrow> ('r, 's) ReplayEngine \<Rightarrow> (bool \<times> ('r, 's) ReplayEngine) res" where
  "replay_event h current_event eng =
     (if before_start (re_config eng) current_event then Inr (True, eng)
      else if after_end (re_config eng) current_event then Inr (False, eng)
      else bind_r (dispatch h current_event (re_strategy eng)) (\<lambda>s.
        Inr (True, eng\<lparr>re_strategy := s, events_processed := events_processed eng + 1\<rparr>)))"

partial_function (option) run_loop ::
  "'r DataReaderImpl \<Rightarrow> 's StrategyImpl \<Rightarrow> Event \<Rightarrow> Event \<Rightarrow> bool \<Rightarrow> bool \<Rightarrow> ('r, 's) ReplayEngine \<Rightarrow>
   ('r, 's) ReplayEngine res option" where
  "run_loop R h current_event next_event has_current hasnext eng =
     (if \<not> has_current then Some (Inr eng)
      else case replay_event h current_event eng of
        Inl u \<Rightarrow> Some (Inl u)
      | Inr (go_on, eng1) \<Rightarrow>
          if \<not> go_on then Some (Inr eng1)
          else if hasnext
          then case read_next R next_event (re_reader eng1) of
              Inl u \<Rightarrow> Some (Inl u)
            | Inr (b, next_event', rd) \<Rightarrow>
                run_loop R h next_event next_event' hasnext b (eng1\<lparr>re_reader := rd\<rparr>)
          else run_loop R h next_event next_event hasnext hasnext eng1)"

definition run :: "'r DataReaderImpl \<Rightarrow> 's StrategyImpl \<Rightarrow> ('r, 's) ReplayEngine \<Rightarrow> ('r, 's) ReplayEngine res option" where
  "run R h eng =
     (case read_next R Event_default (re_reader eng) of
        Inl u \<Rightarrow> Some (Inl u)
      | Inr (has_current, current_event, rd) \<Rightarrow>
          if has_current
          then case read_next R Event_default rd of
              Inl u \<Rightarrow> Some (Inl u)
            | Inr (hasnext, next_event, rd') \<Rightarrow>
                run_loop R h current_event next_event has_current hasnext (eng\<lparr>re_reader := rd'\<rparr>)
          else run_loop R h current_event Event_default has_current False (eng\<lparr>re_reader := rd\<rparr>))"

subsection \<open>What a run dispatches\<close>

text \<open>
  The events of a stream that a run dispatches: up to the first event after the end of the
  window, those not before its start.
\<close>

definition window :: "BacktestConfig \<Rightarrow> Event list \<Rightarrow> Event list" where
  "window cfg es = filter (\<lambda>e. \<not> before_start cfg e)
     (takeWhile (\<lambda>e. before_start cfg e \<or> \<not> after_end cfg e) es)"

definition in_window :: "BacktestConfig \<Rightarrow> Event \<Rightarrow> bool" where
  "in_window cfg e \<longleftrightarrow> \<not> before_start cfg e \<and> \<not> after_end cfg e"

lemma window_simps [simp]:
  "window cfg [] = []"
  "window cfg (e # es) =
     (if before_start cfg e then window cfg es else if after_end cfg e then [] else e # window cfg es)"
  by (simp_all add: window_def)

lemma window_in_window: "e \<in> set (window cfg es) \<Longrightarrow> in_window cfg e"
  by (induction es) (auto simp: in_window_def split: if_splits)

text \<open>On data in time order this is the filter by the time window.\<close>

lemma window_sorted:
  "sorted (map ev_timestamp es) \<Longrightarrow> window cfg es = filter (in_window cfg) es"
proof (induction es)
  case (Cons e es)
  have "filter (in_window cfg) es = []" if "after_end cfg e"
    using Cons.prems that by (auto simp: in_window_def after_end_def filter_empty_conv)
  moreover have "in_window cfg e \<longleftrightarrow> \<not> before_start cfg e \<and> \<not> after_end cfg e"
    by (simp add: in_window_def)
  moreover have "window cfg es = filter (in_window cfg) es" using Cons by simp
  ultimately show ?case by simp
qed simp

lemma window_all: "start_time cfg = 0 \<Longrightarrow> end_time cfg = 0 \<Longrightarrow> window cfg es = es"
  by (induction es) (simp_all add: before_start_def after_end_def)

text \<open>The result of a run that dispatches the events \<open>es\<close> and leaves the reader \<open>rd\<close> behind.\<close>

definition replayed :: "'s StrategyImpl \<Rightarrow> Event list \<Rightarrow> 'r \<Rightarrow> ('r, 's) ReplayEngine \<Rightarrow> ('r, 's) ReplayEngine res" where
  "replayed h es rd eng =
     map_r (\<lambda>s. eng\<lparr>re_reader := rd, re_strategy := s,
         events_processed := events_processed eng + word_of_nat (length es)\<rparr>)
       (fold_r (dispatch h) es (re_strategy eng))"

context data_reader
begin

lemma run_loop_replays:
  assumes "invar (re_reader eng)"
    and "es = (if hasnext then nxt # remaining (re_reader eng) else [])"
    and "\<not> hasnext \<longrightarrow> remaining (re_reader eng) = []"
  shows "\<exists>rd. invar rd \<and> contents rd = contents (re_reader eng) \<and>
    run_loop R h cur nxt True hasnext eng = Some (replayed h (window (re_config eng) (cur # es)) rd eng)"
  using assms
proof (induction es arbitrary: cur nxt hasnext eng)
  case Nil
  then have stop: "run_loop R h cur' nxt' hasnext hasnext eng' = Some (Inr eng')" for cur' nxt' eng'
    by (subst run_loop.simps) (simp split: if_splits)
  show ?case
    by (rule exI [of _ "re_reader eng"], subst run_loop.simps, cases "dispatch h cur (re_strategy eng)")
      (use Nil stop in \<open>auto simp: replay_event_def replayed_def split: if_splits\<close>)
next
  case (Cons x xs)
  then have hn: "hasnext" and x: "nxt = x" and xs: "xs = remaining (re_reader eng)"
    by (auto split: if_splits)
  obtain b nxt' rd where rd: "read_next R nxt (re_reader eng) = Inr (b, nxt', rd)" "invar rd"
      "contents rd = contents (re_reader eng)" "xs = (if b then nxt' # remaining rd else [])"
      "\<not> b \<longrightarrow> remaining rd = []"
    using Cons.prems(1) xs read_end read_event by (cases xs) fastforce+
  have loop: "\<exists>rd'. invar rd' \<and> contents rd' = contents (re_reader eng) \<and>
      run_loop R h nxt nxt' True b (eng1\<lparr>re_reader := rd\<rparr>) =
      Some (replayed h (window (re_config eng1) (x # xs)) rd' (eng1\<lparr>re_reader := rd\<rparr>))" for eng1
  proof -
    have "xs = (if b then nxt' # remaining (re_reader (eng1\<lparr>re_reader := rd\<rparr>)) else [])"
      using rd(4) by (cases b) simp_all
    from Cons.IH [OF _ this, of x] rd(2,3,5) x show ?thesis by (simp del: window_simps)
  qed
  have rl: "re_reader eng1 = re_reader eng" if "replay_event h cur eng = Inr (b1, eng1)" for b1 eng1
    using that by (auto simp: replay_event_def bind_r_Inr_iff split: if_splits)
  show ?case
  proof (cases "replay_event h cur eng")
    case (Inl u)
    then show ?thesis using Cons.prems(1)
      by (intro exI [of _ "re_reader eng"], subst run_loop.simps)
        (auto simp: replay_event_def replayed_def split: if_splits elim: bind_r.elims)
  next
    case (Inr p)
    then obtain b1 eng1 where p: "replay_event h cur eng = Inr (b1, eng1)" by (cases p) auto
    show ?thesis
    proof (cases b1)
      case False
      with p Cons.prems(1) show ?thesis
        by (intro exI [of _ "re_reader eng"], subst run_loop.simps)
          (auto simp: replay_event_def replayed_def bind_r_Inr_iff split: if_splits)
    next
      case True
      obtain rd' where rd': "invar rd'" "contents rd' = contents (re_reader eng)"
        "run_loop R h nxt nxt' True b (eng1\<lparr>re_reader := rd\<rparr>) =
         Some (replayed h (window (re_config eng1) (x # xs)) rd' (eng1\<lparr>re_reader := rd\<rparr>))"
        using loop by blast
      have "run_loop R h cur nxt True hasnext eng =
          Some (replayed h (window (re_config eng1) (x # xs)) rd' (eng1\<lparr>re_reader := rd\<rparr>))"
        by (subst run_loop.simps) (simp add: p True hn rl [OF p] rd(1) rd'(3))
      moreover have "replayed h (window (re_config eng1) (x # xs)) rd' (eng1\<lparr>re_reader := rd\<rparr>) =
          replayed h (window (re_config eng) (cur # x # xs)) rd' eng"
        using p True by (auto simp: replay_event_def replayed_def bind_r_Inr_iff ac_simps split: if_splits)
      ultimately show ?thesis using rd' by metis
    qed
  qed
qed

lemma run_replays:
  assumes "invar (re_reader eng)"
  shows "\<exists>rd. invar rd \<and> contents rd = contents (re_reader eng) \<and>
    run R h eng = Some (replayed h (window (re_config eng) (remaining (re_reader eng))) rd eng)"
proof (cases "remaining (re_reader eng)")
  case Nil
  with assms show ?thesis
    by (intro exI [of _ "re_reader eng"])
      (simp add: run_def read_end run_loop.simps replayed_def)
next
  case (Cons x xs)
  then obtain rd where rd: "read_next R Event_default (re_reader eng) = Inr (True, x, rd)" "invar rd"
    "remaining rd = xs" "contents rd = contents (re_reader eng)"
    using read_event [OF assms] by blast
  obtain b nxt rd1 where rd1: "read_next R Event_default rd = Inr (b, nxt, rd1)" "invar rd1"
      "contents rd1 = contents rd" "xs = (if b then nxt # remaining rd1 else [])"
      "\<not> b \<longrightarrow> remaining rd1 = []"
    using rd read_end read_event by (cases xs) fastforce+
  have "run R h eng = run_loop R h x nxt True b (eng\<lparr>re_reader := rd1\<rparr>)"
    by (simp add: run_def rd(1) rd1(1))
  moreover obtain rd' where "invar rd'" "contents rd' = contents rd1"
    "run_loop R h x nxt True b (eng\<lparr>re_reader := rd1\<rparr>) =
     Some (replayed h (window (re_config eng) (x # xs)) rd' (eng\<lparr>re_reader := rd1\<rparr>))"
    using run_loop_replays [of "eng\<lparr>re_reader := rd1\<rparr>" xs b nxt h x] rd1
    by (metis ReplayEngine.select_convs(1,3) ReplayEngine.surjective ReplayEngine.update_convs(1))
  ultimately show ?thesis
    unfolding Cons by (intro exI [of _ rd']) (simp add: rd rd1 replayed_def)
qed

end

end
