(* ===== verification/Benchmark.thy ===== *)
theory Benchmark
  imports Replay
begin

section \<open>The replay benchmark (\<open>benchmarks/bench_replay.cpp\<close>)\<close>

text \<open>
  An in-memory reader over a vector of events, a strategy that ignores them, and the body of the
  benchmark: a vector of trades replayed through the engine. \<open>from_double\<close> of UltraLOB is a
  parameter. The measuring loop of Google Benchmark repeats the body and is not modelled.
\<close>

subsection \<open>The in-memory reader\<close>

record MemoryReader =
  mr_events :: "Event list"
  mr_idx :: nat

definition MemoryReader_new :: "Event list \<Rightarrow> MemoryReader" where
  "MemoryReader_new es = \<lparr>mr_events = es, mr_idx = 0\<rparr>"

definition mr_read_next :: "Event \<Rightarrow> MemoryReader \<Rightarrow> (bool \<times> Event \<times> MemoryReader) res" where
  "mr_read_next out r =
     (if length (mr_events r) \<le> mr_idx r then Inr (False, out, r)
      else bind_r (at_r (mr_events r) (mr_idx r)) (\<lambda>e. Inr (True, e, r\<lparr>mr_idx := mr_idx r + 1\<rparr>)))"

definition mr_has_next :: "MemoryReader \<Rightarrow> bool" where
  "mr_has_next r \<longleftrightarrow> mr_idx r < length (mr_events r)"

definition mr_reset :: "MemoryReader \<Rightarrow> MemoryReader res" where
  "mr_reset r = Inr (r\<lparr>mr_idx := 0\<rparr>)"

definition MemoryReader_impl :: "MemoryReader DataReaderImpl" where
  "MemoryReader_impl =
     \<lparr>do_open = (\<lambda>_ r. Inr (True, r)), do_read_next = mr_read_next, do_has_next = mr_has_next,
      do_reset = mr_reset\<rparr>"

definition mr_remaining :: "MemoryReader \<Rightarrow> Event list" where
  "mr_remaining r = drop (mr_idx r) (mr_events r)"

lemma MemoryReader_impl_simps [simp]:
  "read_next MemoryReader_impl = mr_read_next" "has_next MemoryReader_impl = mr_has_next"
  "reset MemoryReader_impl = mr_reset"
  by (auto simp: MemoryReader_impl_def read_next_def has_next_def reset_def fun_eq_iff)

interpretation memory_reader: data_reader MemoryReader_impl "\<lambda>r. True" mr_remaining mr_events
proof
  fix r :: MemoryReader and e out es
  show "mr_remaining r = [] \<Longrightarrow> read_next MemoryReader_impl out r = Inr (False, out, r)"
    by (simp add: mr_remaining_def mr_read_next_def)
  show "\<exists>r'. read_next MemoryReader_impl out r = Inr (True, e, r') \<and> True \<and> mr_remaining r' = es \<and>
      mr_events r' = mr_events r" if "mr_remaining r = e # es"
  proof -
    from that have i: "mr_idx r < length (mr_events r)"
      by (metis drop_eq_Nil leI list.distinct(1) mr_remaining_def)
    from Cons_nth_drop_Suc [OF i] that i show ?thesis
      by (simp add: mr_remaining_def mr_read_next_def at_r_def)
  qed
  show "has_next MemoryReader_impl r \<longleftrightarrow> mr_remaining r \<noteq> []"
    by (auto simp: mr_remaining_def mr_has_next_def)
  show "\<exists>r'. reset MemoryReader_impl r = Inr r' \<and> True \<and> mr_remaining r' = mr_events r \<and> mr_events r' = mr_events r"
    by (simp add: mr_reset_def mr_remaining_def)
qed

subsection \<open>The benchmark body\<close>

text \<open>The handler \<open>on_trade\<close> only keeps its arguments from being optimised away.\<close>

definition DummyStrategy_handlers :: "'s StrategyImpl" where
  "DummyStrategy_handlers = Strategy_handlers\<lparr>on_trade := (\<lambda>ts symb trade s. Inr s)\<rparr>"

definition bench_events :: "(double \<Rightarrow> Price) \<Rightarrow> nat \<Rightarrow> Event list" where
  "bench_events from_double num_events =
     map (\<lambda>i. make_trade (sint (1000 + word_of_nat i :: 64 word)) 1 (from_double (Fin False 150)) 100 Buy)
       [0..<num_events]"

definition BM_ReplayEngine ::
  "(double \<Rightarrow> Price) \<Rightarrow> ('e, 'm) MatchingEngine \<Rightarrow> nat \<Rightarrow> (MemoryReader, ('e, unit) Strategy) ReplayEngine res option" where
  "BM_ReplayEngine from_double M num_events =
     (let events = bench_events from_double num_events;
          config = BacktestConfig_default;
          port = Portfolio_new config;
          sim = ExchangeSimulator_new M config (Some port);
          strategy = \<lparr>strat_sim = Some sim, strat_user = ()\<rparr>;
          reader = MemoryReader_new events
      in run MemoryReader_impl DummyStrategy_handlers (ReplayEngine_new reader strategy config))"

lemma DummyStrategy_default: "DummyStrategy_handlers = Strategy_handlers"
  by (simp add: DummyStrategy_handlers_def Strategy_handlers_def)

interpretation dummy_strategy: safe_strategy DummyStrategy_handlers "\<lambda>s. s = s0" for s0
  unfolding DummyStrategy_default by (rule base_strategy.safe_strategy_axioms)

subsection \<open>Properties\<close>

text \<open>
  C10. The replay engine over an in-memory vector ends and dispatches, in order, exactly the
  events of the time window: those from the configured start on, up to the first event after
  the configured end; it counts each of them once (modulo \<open>2 ^ 64\<close>), and a handler's undefined
  behaviour is the only way not to end regularly. A bound of 0 is no bound.
\<close>

theorem replay_dispatches_window:
  "\<exists>rd. run MemoryReader_impl h (ReplayEngine_new (MemoryReader_new es) s cfg) =
    Some (map_r (\<lambda>s'. \<lparr>re_reader = rd, re_strategy = s', re_config = cfg,
          events_processed = word_of_nat (length (window cfg es))\<rparr>)
       (fold_r (dispatch h) (window cfg es) s))"
proof -
  obtain rd where "run MemoryReader_impl h (ReplayEngine_new (MemoryReader_new es) s cfg) =
      Some (replayed h (window cfg es) rd (ReplayEngine_new (MemoryReader_new es) s cfg))"
    using memory_reader.run_replays [of "ReplayEngine_new (MemoryReader_new es) s cfg" h]
    by (auto simp: ReplayEngine_new_def MemoryReader_new_def mr_remaining_def)
  then show ?thesis by (intro exI [of _ rd]) (simp add: replayed_def ReplayEngine_new_def)
qed

text \<open>
  On data in time order the dispatched events are the ones whose timestamps lie in the
  window, no matter where the first event beyond it stands; without the order only events of
  the window are dispatched, but not necessarily all of them.
\<close>

theorem window_is_time_filter:
  "(sorted (map ev_timestamp es) \<longrightarrow> window cfg es = filter (in_window cfg) es) \<and>
   set (window cfg es) \<subseteq> set (filter (in_window cfg) es) \<and>
   (start_time cfg = 0 \<and> end_time cfg = 0 \<longrightarrow> window cfg es = es)"
proof -
  have "set (window cfg es) \<subseteq> set es" by (induction es) auto
  then show ?thesis using window_sorted window_in_window window_all by fastforce
qed

theorem window_is_time_filter_witness:
  "window (BacktestConfig_default\<lparr>start_time := 1001, end_time := 1002\<rparr>)
     (bench_events (\<lambda>_. 0) 5) = drop 1 (take 3 (bench_events (\<lambda>_. 0) 5))"
proof -
  have ev: "bench_events (\<lambda>_. 0) 5 = map (\<lambda>t. make_trade t 1 0 100 Buy) [1000, 1001, 1002, 1003, 1004]"
    by (simp add: bench_events_def upt_rec)
  have "sorted (map ev_timestamp (bench_events (\<lambda>_. 0) 5))" by (simp add: ev)
  with window_is_time_filter show ?thesis
    by (simp add: ev in_window_def before_start_def after_end_def BacktestConfig_default_def)
qed

text \<open>
  The benchmark measures what it claims: the engine ends, has processed every one of the
  generated events, and the simulator, its portfolio and the strategy are as they were.
\<close>

theorem benchmark_processes_all:
  "\<exists>rd. BM_ReplayEngine from_double M n =
    Some (Inr \<lparr>re_reader = rd,
      re_strategy = \<lparr>strat_sim = Some (ExchangeSimulator_new M BacktestConfig_default
        (Some (Portfolio_new BacktestConfig_default))), strat_user = ()\<rparr>,
      re_config = BacktestConfig_default, events_processed = word_of_nat n\<rparr>)"
proof -
  let ?s = "\<lparr>strat_sim = Some (ExchangeSimulator_new M BacktestConfig_default
    (Some (Portfolio_new BacktestConfig_default))), strat_user = ()\<rparr>"
  let ?eng = "ReplayEngine_new (MemoryReader_new (bench_events from_double n)) ?s BacktestConfig_default"
  have "window BacktestConfig_default es = es" for es
    by (rule window_all) (simp_all add: BacktestConfig_default_def)
  then obtain rd where "run MemoryReader_impl DummyStrategy_handlers ?eng =
      Some (replayed DummyStrategy_handlers (bench_events from_double n) rd ?eng)"
    using memory_reader.run_replays [of ?eng DummyStrategy_handlers]
    by (auto simp: ReplayEngine_new_def MemoryReader_new_def mr_remaining_def)
  moreover obtain s' where "fold_r (dispatch DummyStrategy_handlers) (bench_events from_double n) ?s = Inr s'" "s' = ?s"
    using dummy_strategy.dispatches_defined [of ?s] by blast
  ultimately show ?thesis
    by (auto simp: BM_ReplayEngine_def replayed_def ReplayEngine_new_def bench_events_def)
qed

end
