(* ===== verification/Tick_Decoder.thy ===== *)
theory Tick_Decoder
  imports Events Binary64 Decimal
begin

section \<open>Symbols and the CSV decoder (\<open>data/tick_decoder.hpp\<close>)\<close>

text \<open>
  The mapper gives every symbol name a number, in the order of first appearance from 1 on. The
  decoder splits a line at its commas, parses timestamp, symbol, type, price, quantity and side,
  and builds a trade or an order-add event. The three overloads of \<open>std::from_chars\<close> that it
  calls are modelled after the C++ standard: a sign (for the signed type and \<open>double\<close> only a
  minus), at least one digit, no check of what follows, and an error when the value does not fit.
  \<open>from_double\<close> of UltraLOB is a parameter. The mapper the decoder points to is passed and
  returned, \<open>None\<close> for a null pointer.
\<close>

subsection \<open>\<open>std::from_chars\<close>\<close>

text \<open>An optional minus sign.\<close>

definition split_minus :: "string \<Rightarrow> bool \<times> string" where
  "split_minus s = (case s of c # r \<Rightarrow> if c = CHR ''-'' then (True, r) else (False, s) | [] \<Rightarrow> (False, []))"

definition from_chars_s64 :: "string \<Rightarrow> int option" where
  "from_chars_s64 s =
     (let (neg, r) = split_minus s;
          ds = takeWhile is_digit r;
          v = (if neg then - int (nat_of_digits ds) else int (nat_of_digits ds))
      in if ds = [] \<or> \<not> in_s64 v then None else Some v)"

definition from_chars_u64 :: "string \<Rightarrow> 64 word option" where
  "from_chars_u64 s =
     (let ds = takeWhile is_digit s
      in if ds = [] \<or> 2 ^ 64 \<le> nat_of_digits ds then None else Some (word_of_nat (nat_of_digits ds)))"

definition to_lower_char :: "char \<Rightarrow> char" where
  "to_lower_char c = (let n = (of_char c :: nat) in if 65 \<le> n \<and> n \<le> 90 then char_of (n + 32) else c)"

text \<open>The decimal exponent at the head of a string, 0 if there is none.\<close>

definition exponent_of :: "string \<Rightarrow> int" where
  "exponent_of s =
     (case s of
        c # r \<Rightarrow>
          if to_lower_char c = CHR ''e'' then
            let (neg, r1) = (case r of
                  d # r' \<Rightarrow> if d = CHR ''-'' then (True, r') else if d = CHR ''+'' then (False, r') else (False, r)
                | [] \<Rightarrow> (False, []));
                ds = takeWhile is_digit r1
            in if neg then - int (nat_of_digits ds) else int (nat_of_digits ds)
          else 0
      | [] \<Rightarrow> 0)"

text \<open>
  The general format: \<open>inf\<close> and \<open>nan\<close> without regard to case, or a decimal number with optional
  point and exponent, correctly rounded; overflow, and underflow to zero, are out of range.
\<close>

definition from_chars_double :: "string \<Rightarrow> double option" where
  "from_chars_double s =
     (let (neg, r) = split_minus s;
          ip = takeWhile is_digit r;
          r1 = dropWhile is_digit r;
          fp = (case r1 of c # r2 \<Rightarrow> if c = CHR ''.'' then takeWhile is_digit r2 else [] | [] \<Rightarrow> []);
          r3 = (case r1 of c # r2 \<Rightarrow> if c = CHR ''.'' then dropWhile is_digit r2 else r1 | [] \<Rightarrow> [])
      in if map to_lower_char (take 3 r) = ''inf'' then Some (Inf neg)
         else if map to_lower_char (take 3 r) = ''nan'' then Some NaN
         else if ip @ fp = [] then None
         else
           let v = real (nat_of_digits (ip @ fp)) * 10 powi (exponent_of r3 - int (length fp))
           in case round_d v of
                Fin _ mag \<Rightarrow> if mag = 0 \<and> v \<noteq> 0 then None else Some (Fin neg mag)
              | _ \<Rightarrow> None)"

subsection \<open>The symbol mapper\<close>

record SymbolMapper =
  sm_map :: "string \<rightharpoonup> Symbol"
  sm_next_id :: Symbol

definition SymbolMapper_new :: SymbolMapper where
  "SymbolMapper_new = \<lparr>sm_map = Map.empty, sm_next_id = 1\<rparr>"

definition get_or_create :: "string \<Rightarrow> SymbolMapper \<Rightarrow> Symbol \<times> SymbolMapper" where
  "get_or_create name mp =
     (case sm_map mp name of
        Some i \<Rightarrow> (i, mp)
      | None \<Rightarrow>
          let i = sm_next_id mp
          in (i, mp\<lparr>sm_next_id := i + 1, sm_map := (sm_map mp)(name \<mapsto> i)\<rparr>))"

subsection \<open>The decoder\<close>

fun split_cols :: "nat \<Rightarrow> string \<Rightarrow> string list" where
  "split_cols 0 p = []"
| "split_cols (Suc n) p =
     (if p = [] then []
      else let c = takeWhile (\<lambda>x. x \<noteq> CHR '','') p; r = dropWhile (\<lambda>x. x \<noteq> CHR '','') p
           in if r = [] then [c] else c # split_cols n (tl r))"

definition col_side :: "string \<Rightarrow> Side" where
  "col_side c =
     (if c \<noteq> [] \<and> (hd c = CHR ''S'' \<or> hd c = CHR ''s'' \<or> hd c = CHR ''A'') then Sell else Buy)"

definition make_order_add :: "Nanos \<Rightarrow> Symbol \<Rightarrow> Price \<Rightarrow> Qty \<Rightarrow> Side \<Rightarrow> Event" where
  "make_order_add ts symb price qty side =
     (let e = Event_default;
          e = e\<lparr>ev_timestamp := ts\<rparr>;
          e = e\<lparr>ev_symbol := symb\<rparr>;
          e = e\<lparr>ev_type := OrderAdd\<rparr>;
          e = e\<lparr>ev_payload := put_s64 8 price (ev_payload e)\<rparr>;
          e = e\<lparr>ev_payload := put_u64 16 qty (ev_payload e)\<rparr>;
          e = e\<lparr>ev_payload := put_u8 24 (side_code side) (ev_payload e)\<rparr>;
          e = e\<lparr>ev_payload := put_u64 0 0 (ev_payload e)\<rparr>
      in e)"

definition lookup_symbol :: "string \<Rightarrow> SymbolMapper option \<Rightarrow> Symbol \<times> SymbolMapper option" where
  "lookup_symbol name mapper =
     (case mapper of None \<Rightarrow> (0, None) | Some mp \<Rightarrow> map_prod id Some (get_or_create name mp))"

text \<open>The part of \<open>decode_csv\<close> behind the symbol lookup: \<open>None\<close> is a return of false.\<close>

definition decode_fields :: "(double \<Rightarrow> Price) \<Rightarrow> string list \<Rightarrow> Nanos \<Rightarrow> Symbol \<Rightarrow> Event option" where
  "decode_fields from_double cols ts symb =
     (if cols ! 2 = [] then None
      else
        case from_chars_double (cols ! 3) of
          None \<Rightarrow> None
        | Some price_dbl \<Rightarrow>
            (case from_chars_u64 (cols ! 4) of
               None \<Rightarrow> None
             | Some qty \<Rightarrow>
                 let price = from_double price_dbl; side = col_side (cols ! 5); type_char = hd (cols ! 2)
                 in if type_char = CHR ''T'' then Some (make_trade ts symb price qty side)
                    else if type_char = CHR ''A'' then Some (make_order_add ts symb price qty side)
                    else None))"

definition decode_csv ::
  "(double \<Rightarrow> Price) \<Rightarrow> string \<Rightarrow> SymbolMapper option \<Rightarrow> Event option \<times> SymbolMapper option" where
  "decode_csv from_double line mapper =
     (let cols = split_cols 10 line
      in if length cols < 6 then (None, mapper)
         else case from_chars_s64 (cols ! 0) of
           None \<Rightarrow> (None, mapper)
         | Some ts \<Rightarrow>
             let (symb, mapper') = lookup_symbol (cols ! 1) mapper
             in (decode_fields from_double cols ts symb, mapper'))"

text \<open>Decoding line after line, keeping the events.\<close>

fun decode_lines ::
  "(double \<Rightarrow> Price) \<Rightarrow> string list \<Rightarrow> SymbolMapper option \<Rightarrow> Event list \<times> SymbolMapper option" where
  "decode_lines fd [] mapper = ([], mapper)"
| "decode_lines fd (l # ls) mapper =
     (let (e, mapper1) = decode_csv fd l mapper; (es, mapper2) = decode_lines fd ls mapper1
      in ((case e of None \<Rightarrow> [] | Some e \<Rightarrow> [e]) @ es, mapper2))"

subsection \<open>Reading printed numbers\<close>

lemma from_chars_u64_digits:
  assumes "s = [] \<or> \<not> is_digit (hd s)"
  shows "from_chars_u64 (nat_digits (unat w) @ s) = Some w"
  using nat_digits_ok [of "unat w"] takeWhile_digits [of "nat_digits (unat w)" s] assms unsigned_less [of w, where 'a = nat]
  by (simp add: from_chars_u64_def Let_def)

lemma split_minus_digits:
  "split_minus (nat_digits n @ s) = (False, nat_digits n @ s)"
  using nat_digits_ok [of n] hd_digit_not_minus [of "nat_digits n"]
  by (cases "nat_digits n") (auto simp: split_minus_def)

lemma from_chars_s64_digits:
  assumes "in_s64 i" and "s = [] \<or> \<not> is_digit (hd s)"
  shows "from_chars_s64 (int_digits i @ s) = Some i"
proof (cases "i < 0")
  case True
  then show ?thesis
    using assms nat_digits_ok [of "nat (- i)"] takeWhile_digits [of "nat_digits (nat (- i))" s]
    by (simp add: from_chars_s64_def int_digits_def split_minus_def Let_def)
next
  case False
  then show ?thesis
    using assms nat_digits_ok [of "nat i"] takeWhile_digits [of "nat_digits (nat i)" s]
    by (simp add: from_chars_s64_def int_digits_def split_minus_digits Let_def)
qed

subsection \<open>The mapper only grows\<close>

fun mapper_le :: "SymbolMapper option \<Rightarrow> SymbolMapper option \<Rightarrow> bool" where
  "mapper_le None None \<longleftrightarrow> True"
| "mapper_le (Some a) (Some b) \<longleftrightarrow> sm_map a \<subseteq>\<^sub>m sm_map b"
| "mapper_le _ _ \<longleftrightarrow> False"

lemma mapper_le_refl [simp]: "mapper_le m m"
  by (cases m) auto

lemma mapper_le_trans: "mapper_le a b \<Longrightarrow> mapper_le b c \<Longrightarrow> mapper_le a c"
  by (cases a; cases b; cases c) (auto intro: map_le_trans)

lemma lookup_symbol_le: "lookup_symbol name m = (i, m') \<Longrightarrow> mapper_le m m'"
  by (cases m) (auto simp: lookup_symbol_def get_or_create_def Let_def map_le_def split: option.splits)

lemma lookup_symbol_again:
  "lookup_symbol name m = (i, m1) \<Longrightarrow> mapper_le m1 m2 \<Longrightarrow> lookup_symbol name m2 = (i, m2)"
  by (cases m; cases m2)
    (auto simp: lookup_symbol_def get_or_create_def Let_def map_le_def dom_def split: option.splits)

lemma decode_csv_le: "decode_csv fd l m = (e, m') \<Longrightarrow> mapper_le m m'"
  by (auto simp: decode_csv_def Let_def split: if_splits option.splits prod.splits dest: lookup_symbol_le)

lemma decode_csv_again: "decode_csv fd l m = (e, m1) \<Longrightarrow> mapper_le m1 m2 \<Longrightarrow> decode_csv fd l m2 = (e, m2)"
  by (auto simp: decode_csv_def Let_def split: if_splits option.splits prod.splits
      dest: lookup_symbol_again)

lemma decode_lines_le: "decode_lines fd ls m = (es, m') \<Longrightarrow> mapper_le m m'"
  by (induction ls arbitrary: m es) (auto split: prod.splits dest!: decode_csv_le intro: mapper_le_trans)

text \<open>Lines that were decoded before are decoded as before.\<close>

lemma decode_lines_again:
  "decode_lines fd ls m = (es, m') \<Longrightarrow> decode_lines fd (ls @ ks) m' = decode_lines fd (ls @ ks) m"
proof (induction ls arbitrary: m es)
  case (Cons l ls)
  obtain e m1 where 1: "decode_csv fd l m = (e, m1)" by (cases "decode_csv fd l m")
  with Cons.prems obtain es1 where 2: "decode_lines fd ls m1 = (es1, m')" by (auto split: prod.splits)
  have "decode_csv fd l m' = (e, m')" using 1 decode_lines_le [OF 2] by (rule decode_csv_again)
  with 1 Cons.IH [OF 2] show ?case by simp
qed simp

lemmas decode_lines_again' = decode_lines_again [OF surjective_pairing]

lemma decode_lines_append:
  "decode_lines fd (ls @ ks) m =
     (let (es, m1) = decode_lines fd ls m; (fs, m2) = decode_lines fd ks m1 in (es @ fs, m2))"
  by (induction ls arbitrary: m) (auto split: prod.splits)

subsection \<open>Numbers are dense and distinct\<close>

fun lookups :: "string list \<Rightarrow> SymbolMapper \<Rightarrow> SymbolMapper" where
  "lookups [] mp = mp"
| "lookups (n # ns) mp = lookups ns (snd (get_or_create n mp))"

definition sm_inv :: "SymbolMapper \<Rightarrow> bool" where
  "sm_inv mp \<longleftrightarrow> finite (dom (sm_map mp)) \<and> unat (sm_next_id mp) = card (dom (sm_map mp)) + 1 \<and>
     inj_on (sm_map mp) (dom (sm_map mp)) \<and>
     (\<forall>n i. sm_map mp n = Some i \<longrightarrow> 1 \<le> unat i \<and> unat i < unat (sm_next_id mp))"

lemma sm_inv_new: "sm_inv SymbolMapper_new"
  by (simp add: sm_inv_def SymbolMapper_new_def)

lemma get_or_create_inv:
  assumes inv: "sm_inv mp" and room: "unat (sm_next_id mp) + 1 < 2 ^ 32"
  shows "sm_inv (snd (get_or_create n mp)) \<and> dom (sm_map (snd (get_or_create n mp))) = insert n (dom (sm_map mp))"
proof (cases "sm_map mp n")
  case None
  have "unat (sm_next_id mp + 1) = unat (sm_next_id mp) + 1"
    using room by (simp add: unat_word_ariths)
  moreover have "n \<notin> dom (sm_map mp)" using None by auto
  moreover have "Some (sm_next_id mp) \<notin> sm_map mp ` dom (sm_map mp)"
    using inv by (fastforce simp: sm_inv_def)
  moreover have "inj_on ((sm_map mp)(n \<mapsto> sm_next_id mp)) (insert n (dom (sm_map mp)))"
    using inv calculation(2,3) by (auto simp: sm_inv_def inj_on_def dom_def image_def) (metis option.distinct(1))
  ultimately show ?thesis using inv None
    by (auto simp: get_or_create_def Let_def sm_inv_def split: if_splits) (metis less_SucI)
next
  case (Some i)
  with inv show ?thesis by (auto simp: get_or_create_def)
qed

lemma sm_inv_card: "sm_inv mp \<Longrightarrow> card (dom (sm_map mp)) + 1 = unat (sm_next_id mp)"
  by (simp add: sm_inv_def)

lemma lookups_inv:
  assumes "sm_inv mp" and "card (dom (sm_map mp)) + length ns + 1 < 2 ^ 32"
  shows "sm_inv (lookups ns mp) \<and> dom (sm_map (lookups ns mp)) = dom (sm_map mp) \<union> set ns"
  using assms
proof (induction ns arbitrary: mp)
  case (Cons n ns)
  let ?mp = "snd (get_or_create n mp)"
  have step: "sm_inv ?mp \<and> dom (sm_map ?mp) = insert n (dom (sm_map mp))"
    using Cons.prems sm_inv_card [OF Cons.prems(1)] by (intro get_or_create_inv) auto
  moreover have "card (dom (sm_map ?mp)) \<le> card (dom (sm_map mp)) + 1"
    using step Cons.prems(1) by (simp add: sm_inv_def card_insert_if)
  ultimately show ?case using Cons.IH [of ?mp] Cons.prems(2) by auto
qed simp

lemma sm_inv_ran:
  assumes "sm_inv mp"
  shows "(\<lambda>n. unat (the (sm_map mp n))) ` dom (sm_map mp) = {1..card (dom (sm_map mp))}"
proof (rule card_subset_eq)
  show "(\<lambda>n. unat (the (sm_map mp n))) ` dom (sm_map mp) \<subseteq> {1..card (dom (sm_map mp))}"
    using assms by (fastforce simp: sm_inv_def)
  have "inj_on (\<lambda>n. unat (the (sm_map mp n))) (dom (sm_map mp))"
    using assms by (auto simp: sm_inv_def inj_on_def dom_def) (metis word_unat_eq_iff)
  then show "card ((\<lambda>n. unat (the (sm_map mp n))) ` dom (sm_map mp)) = card {1..card (dom (sm_map mp))}"
    by (simp add: card_image)
qed simp

subsection \<open>Lines\<close>

lemma split_cols_comma:
  "0 < n \<Longrightarrow> CHR '','' \<notin> set c \<Longrightarrow> split_cols n (c @ CHR '','' # r) = c # split_cols (n - 1) r"
  by (cases n) (auto simp: takeWhile_append dropWhile_append Let_def dest: dropWhile_eq_Nil_conv [THEN iffD1])

lemma split_cols_comma1:
  "0 < n \<Longrightarrow> k \<noteq> CHR '','' \<Longrightarrow> split_cols n (k # CHR '','' # r) = [k] # split_cols (n - 1) r"
  using split_cols_comma [of n "[k]" r] by simp

lemma split_cols_last: "0 < n \<Longrightarrow> CHR '','' \<notin> set c \<Longrightarrow> c \<noteq> [] \<Longrightarrow> split_cols n c = [c]"
  by (cases n) (auto simp: takeWhile_eq_all_conv dropWhile_eq_Nil_conv Let_def)

definition csv_line :: "Nanos \<Rightarrow> string \<Rightarrow> char \<Rightarrow> string \<Rightarrow> Qty \<Rightarrow> Side \<Rightarrow> string" where
  "csv_line ts name kind price qty side =
     int_digits ts @ '','' @ name @ '','' @ [kind] @ '','' @ price @ '','' @ nat_digits (unat qty) @ '','' @
     (if side = Sell then ''S'' else ''B'')"

lemma digits_no_comma: "CHR '','' \<notin> set (nat_digits n)" "CHR '','' \<notin> set (int_digits i)"
proof -
  have "CHR '','' \<notin> set ds" if "list_all is_digit ds" for ds
    using that by (induction ds) (auto simp: is_digit_def)
  then show "CHR '','' \<notin> set (nat_digits n)" "CHR '','' \<notin> set (int_digits i)"
    using nat_digits_ok by (auto simp: int_digits_def)
qed

lemma csv_line_cols:
  assumes "CHR '','' \<notin> set name" and "CHR '','' \<notin> set price" and "kind \<noteq> CHR '',''"
  shows "split_cols 10 (csv_line ts name kind price qty side) =
    [int_digits ts, name, [kind], price, nat_digits (unat qty), if side = Sell then ''S'' else ''B'']"
  using assms digits_no_comma
  by (simp add: csv_line_def split_cols_comma split_cols_comma1 split_cols_last)

lemma split_cols_none [simp]: "split_cols n [] = []"
  by (cases n) simp_all

lemma decode_csv_empty [simp]: "decode_csv fd [] m = (None, m)"
  by (simp add: decode_csv_def)

lemma decode_csv_line:
  assumes "in_s64 ts" and "CHR '','' \<notin> set name" and "CHR '','' \<notin> set price"
    and "from_chars_double price = Some d" and "get_or_create name mp = (symb, mp')"
    and "side = Buy \<or> side = Sell"
  shows "decode_csv fd (csv_line ts name CHR ''T'' price qty side) (Some mp) =
      (Some (make_trade ts symb (fd d) qty side), Some mp') \<and>
    decode_csv fd (csv_line ts name CHR ''A'' price qty side) (Some mp) =
      (Some (make_order_add ts symb (fd d) qty side), Some mp')"
proof -
  have "from_chars_s64 (int_digits ts) = Some ts" "from_chars_u64 (nat_digits (unat qty)) = Some qty"
    using from_chars_s64_digits [of ts "[]"] from_chars_u64_digits [of "[]" qty] assms(1) by simp_all
  moreover have "col_side (if side = Sell then ''S'' else ''B'') = side"
    using assms(6) by (auto simp: col_side_def)
  ultimately show ?thesis
    using assms
    by (simp add: decode_csv_def csv_line_cols decode_fields_def lookup_symbol_def Let_def)
qed

lemma from_chars_double_0: "from_chars_double ''0'' = Some (Fin False 0)"
  by (simp add: from_chars_double_def split_minus_def is_digit_def digit_val_def nat_of_digits_def
      exponent_of_def to_lower_char_def round_d_0 Let_def)

lemma get_or_create_new: "get_or_create n SymbolMapper_new = (1, snd (get_or_create n SymbolMapper_new))"
  by (simp add: get_or_create_def SymbolMapper_new_def Let_def)

subsection \<open>Properties\<close>

text \<open>
  C14. The decoder inverts the printing of a trade or an added order: a line with any 64-bit
  timestamp and quantity in decimal, any symbol name and readable price text without commas and
  either side is decoded to the event with exactly these values, the symbol's number, and the
  fixed-point value of the price.
\<close>

theorem csv_line_roundtrip:
  assumes "in_s64 ts" and "CHR '','' \<notin> set name" and "CHR '','' \<notin> set price"
    and "from_chars_double price = Some d" and "get_or_create name mp = (symb, mp')"
    and "side = Buy \<or> side = Sell"
  shows "decode_csv fd (csv_line ts name CHR ''T'' price qty side) (Some mp) =
      (Some (make_trade ts symb (fd d) qty side), Some mp') \<and>
    decode_csv fd (csv_line ts name CHR ''A'' price qty side) (Some mp) =
      (Some (make_order_add ts symb (fd d) qty side), Some mp')"
  using assms by (rule decode_csv_line)

theorem csv_line_roundtrip_witness:
  "fst (decode_csv (\<lambda>_. 7) (csv_line (- 5) ''AAPL'' CHR ''T'' ''0'' 100 Sell) (Some SymbolMapper_new)) =
     Some (make_trade (- 5) 1 7 100 Sell)"
  using csv_line_roundtrip [OF _ _ _ from_chars_double_0 get_or_create_new, of "- 5" _ Sell "\<lambda>_. 7" 100]
  by (simp add: in_s64_def)

text \<open>
  C15. Symbol numbers are dense and distinct: after looking up any sequence of fewer than
  \<open>2 ^ 32 - 2\<close> names in a new mapper exactly these names have numbers, different names have different
  numbers, and the numbers are 1 to the count of names. A later lookup never changes a number.
\<close>

theorem symbol_ids_dense:
  assumes "length ns + 1 < 2 ^ 32" and "mp = lookups ns SymbolMapper_new"
  shows "dom (sm_map mp) = set ns \<and> inj_on (sm_map mp) (set ns) \<and>
    (\<lambda>n. unat (the (sm_map mp n))) ` set ns = {1..card (set ns)} \<and>
    (\<forall>n. sm_map mp \<subseteq>\<^sub>m sm_map (snd (get_or_create n mp)))"
proof -
  have inv: "sm_inv mp" "dom (sm_map mp) = set ns"
    using lookups_inv [OF sm_inv_new, of ns] assms by (auto simp: SymbolMapper_new_def)
  moreover have "sm_map mp \<subseteq>\<^sub>m sm_map (snd (get_or_create n mp))" for n
    using lookup_symbol_le [of n "Some mp"] by (cases "get_or_create n mp") (auto simp: lookup_symbol_def)
  moreover have "inj_on (sm_map mp) (set ns)" using inv by (simp add: sm_inv_def)
  ultimately show ?thesis using sm_inv_ran [of mp] by simp
qed

theorem symbol_ids_dense_witness:
  "dom (sm_map (lookups [''AAPL'', ''MSFT'', ''AAPL''] SymbolMapper_new)) = {''AAPL'', ''MSFT''}"
  using symbol_ids_dense [of "[''AAPL'', ''MSFT'', ''AAPL'']", OF _ refl] by auto

end
