(* ===== verification/Csv_Reader.thy ===== *)
theory Csv_Reader
  imports Data_Reader Tick_Decoder
begin

section \<open>The CSV reader (\<open>data/csv_reader.hpp\<close>)\<close>

text \<open>
  The reader keeps a character buffer with a window from \<open>buffer_pos_\<close> to \<open>buffer_end_\<close>, refills
  it behind the unread rest (moved to the front, the buffer doubled when the rest fills it), cuts
  lines at newlines, and decodes them until one is an event. The decoder points to a symbol
  mapper, which is part of the reader's state here. A line handed out is a view into the buffer
  in the code; it is used before the buffer changes, so it is a copy here. \<open>size_t\<close> positions
  are \<open>nat\<close>. The first line of a file is always skipped.
\<close>

subsection \<open>State and lines\<close>

record CsvReader =
  cr_file :: "char FILE option"
  cr_mapper :: "SymbolMapper option"
  cr_buffer :: string
  cr_pos :: nat
  cr_end :: nat
  cr_eof :: bool
  cr_next_event :: Event
  cr_has_next :: bool

definition BUFFER_SIZE :: nat where
  "BUFFER_SIZE = 256 * 1024"

definition CsvReader_new :: "SymbolMapper option \<Rightarrow> CsvReader" where
  "CsvReader_new mapper =
     \<lparr>cr_file = None, cr_mapper = mapper, cr_buffer = [], cr_pos = 0, cr_end = 0, cr_eof = False,
      cr_next_event = Event_default, cr_has_next = False\<rparr>"

definition cr_close :: "CsvReader \<Rightarrow> CsvReader" where
  "cr_close r = r\<lparr>cr_file := None\<rparr>"

text \<open>\<open>vector::resize\<close>, and the characters between \<open>buffer_pos_\<close> and \<open>buffer_end_\<close>.\<close>

definition resize_chars :: "nat \<Rightarrow> string \<Rightarrow> string" where
  "resize_chars n s = take n s @ replicate (n - length s) (char_of (0 :: nat))"

definition cr_view :: "CsvReader \<Rightarrow> string" where
  "cr_view r = take (cr_end r - cr_pos r) (drop (cr_pos r) (cr_buffer r))"

definition strip_cr :: "string \<Rightarrow> string" where
  "strip_cr l = (if l \<noteq> [] \<and> last l = CHR 0x0D then butlast l else l)"

text \<open>
  The refill at the end of the loop body of \<open>read_line\<close>: the rest moved to the front of the
  buffer, the buffer doubled if the rest fills it, and \<open>fread\<close> of as many characters as fit.
\<close>

definition cr_make_room :: "CsvReader \<Rightarrow> string" where
  "cr_make_room r =
     (let rem = cr_end r - cr_pos r;
          buf1 = (if 0 < rem \<and> 0 < cr_pos r then cr_view r @ drop rem (cr_buffer r) else cr_buffer r)
      in if rem = length buf1 then resize_chars (length buf1 * 2) buf1 else buf1)"

definition fread_chars :: "nat \<Rightarrow> char FILE \<Rightarrow> string \<times> char FILE" where
  "fread_chars n f = (let data = take n (file_rest f) in (data, f\<lparr>file_pos := file_pos f + length data\<rparr>))"

definition cr_refill :: "CsvReader \<Rightarrow> CsvReader res" where
  "cr_refill r =
     (case cr_file r of
        None \<Rightarrow> Inl NullDeref
      | Some f \<Rightarrow>
          let rem = cr_end r - cr_pos r;
              buf = cr_make_room r;
              (data, f') = fread_chars (length buf - rem) f
          in Inr (r\<lparr>cr_file := Some f',
                    cr_buffer := take rem buf @ data @ drop (rem + length data) buf,
                    cr_pos := 0, cr_end := rem + length data,
                    cr_eof := (if length data = 0 then True else cr_eof r)\<rparr>))"

text \<open>A measure of the loops: the characters in the window and those still in the file.\<close>

definition cr_left :: "CsvReader \<Rightarrow> nat" where
  "cr_left r = (cr_end r - cr_pos r) + (case cr_file r of None \<Rightarrow> 0 | Some f \<Rightarrow> length (file_rest f))"

definition cr_fuel :: "CsvReader \<Rightarrow> nat" where
  "cr_fuel r = 2 * (case cr_file r of None \<Rightarrow> 0 | Some f \<Rightarrow> length (file_rest f)) + (if cr_eof r then 0 else 1)"

lemma fread_chars_rest:
  assumes "fread_chars n f = (data, f')"
  shows "data = take n (file_rest f)" "file_rest f' = drop n (file_rest f)" "file_bytes f' = file_bytes f"
    "length data + length (file_rest f') = length (file_rest f)"
  using assms by (auto simp: fread_chars_def file_rest_def Let_def min_def add.commute)

lemma cr_refillE:
  assumes "cr_refill r = Inr r'"
  obtains f f' data where "cr_file r = Some f"
    "fread_chars (length (cr_make_room r) - (cr_end r - cr_pos r)) f = (data, f')"
    "r' = r\<lparr>cr_file := Some f',
       cr_buffer := take (cr_end r - cr_pos r) (cr_make_room r) @ data @
         drop (cr_end r - cr_pos r + length data) (cr_make_room r),
       cr_pos := 0, cr_end := cr_end r - cr_pos r + length data,
       cr_eof := (if length data = 0 then True else cr_eof r)\<rparr>"
  using assms by (auto simp: cr_refill_def Let_def split: option.splits prod.splits)

lemma cr_refill_left:
  assumes "cr_refill r = Inr r'"
  shows "cr_left r' = cr_left r"
  using assms by (rule cr_refillE) (use fread_chars_rest(4) in \<open>fastforce simp: cr_left_def\<close>)

lemma cr_refill_fuel:
  assumes "cr_refill r = Inr r'" and "\<not> cr_eof r"
  shows "cr_fuel r' < cr_fuel r"
  using assms(1)
proof (rule cr_refillE)
  fix f f' data
  assume *: "cr_file r = Some f" "fread_chars (length (cr_make_room r) - (cr_end r - cr_pos r)) f = (data, f')"
    "r' = r\<lparr>cr_file := Some f',
       cr_buffer := take (cr_end r - cr_pos r) (cr_make_room r) @ data @
         drop (cr_end r - cr_pos r + length data) (cr_make_room r),
       cr_pos := 0, cr_end := cr_end r - cr_pos r + length data,
       cr_eof := (if length data = 0 then True else cr_eof r)\<rparr>"
  have "length data = 0 \<or> length (file_rest f') < length (file_rest f)"
    using fread_chars_rest(4) [OF *(2)] by linarith
  with fread_chars_rest(4) [OF *(2)] *(1,3) assms(2) show ?thesis
    by (auto simp: cr_fuel_def)
qed

text \<open>\<open>read_line\<close>: the loop, and the check before it. \<open>None\<close> is a return of false.\<close>

function read_line_loop :: "CsvReader \<Rightarrow> (string option \<times> CsvReader) res" where
  "read_line_loop r =
     (let v = cr_view r in
      if CHR 0x0A \<in> set v then
        let l = takeWhile (\<lambda>c. c \<noteq> CHR 0x0A) v
        in Inr (Some (strip_cr l), r\<lparr>cr_pos := cr_pos r + length l + 1\<rparr>)
      else if cr_eof r then
        (if 0 < length v then Inr (Some v, r\<lparr>cr_pos := cr_pos r + length v\<rparr>) else Inr (None, r))
      else bind_r (cr_refill r) read_line_loop)"
  by pat_completeness auto
termination
  by (relation "measure cr_fuel") (auto dest: cr_refill_fuel)

declare read_line_loop.simps [simp del]

definition read_line :: "CsvReader \<Rightarrow> (string option \<times> CsvReader) res" where
  "read_line r = (if cr_end r \<le> cr_pos r \<and> cr_eof r then Inr (None, r) else read_line_loop r)"

lemma takeWhile_view:
  assumes "CHR 0x0A \<in> set (cr_view r)"
  shows "length (takeWhile (\<lambda>c. c \<noteq> CHR 0x0A) (cr_view r)) < cr_end r - cr_pos r"
proof -
  have "length (takeWhile (\<lambda>c. c \<noteq> CHR 0x0A) (cr_view r)) < length (cr_view r)"
    using assms by (metis (full_types) length_takeWhile_le le_neq_implies_less takeWhile_eq_all_conv
        takeWhile_eq_take take_all_iff order_refl)
  then show ?thesis by (simp add: cr_view_def)
qed

lemma read_line_loop_left:
  "read_line_loop r = Inr (Some l, r') \<Longrightarrow> cr_left r' < cr_left r"
proof (induction r rule: read_line_loop.induct)
  case (1 r)
  show ?case
  proof (cases "CHR 0x0A \<in> set (cr_view r)")
    case True
    with 1(2) takeWhile_view [OF True] show ?thesis
      by (auto simp: read_line_loop.simps [of r] cr_left_def Let_def)
  next
    case False
    show ?thesis
    proof (cases "cr_eof r")
      case True
      with 1(2) False show ?thesis
        by (auto simp: read_line_loop.simps [of r] cr_left_def cr_view_def Let_def split: if_splits)
    next
      case eof: False
      with 1(2) False obtain r1 where "cr_refill r = Inr r1" "read_line_loop r1 = Inr (Some l, r')"
        by (auto simp: read_line_loop.simps [of r] bind_r_Inr_iff Let_def)
      with 1(1) [OF refl False eof] cr_refill_left show ?thesis by metis
    qed
  qed
qed

lemma read_line_left: "read_line r = Inr (Some l, r') \<Longrightarrow> cr_left r' < cr_left r"
  by (auto simp: read_line_def split: if_splits dest: read_line_loop_left)

subsection \<open>Events\<close>

text \<open>\<open>advance\<close>: lines are read until one decodes to an event.\<close>

function cr_advance_loop :: "(double \<Rightarrow> Price) \<Rightarrow> CsvReader \<Rightarrow> (bool \<times> CsvReader) res" where
  "cr_advance_loop fd r =
     bind_r (read_line r) (\<lambda>(l, r1).
       case l of
         None \<Rightarrow> Inr (False, r1)
       | Some line \<Rightarrow>
           if line = [] then cr_advance_loop fd r1
           else
             (case decode_csv fd line (cr_mapper r1) of
                (Some e, m) \<Rightarrow> Inr (True, r1\<lparr>cr_mapper := m, cr_next_event := e, cr_has_next := True\<rparr>)
              | (None, m) \<Rightarrow> cr_advance_loop fd (r1\<lparr>cr_mapper := m\<rparr>)))"
  by pat_completeness auto
termination
proof (relation "measure (cr_left \<circ> snd)")
  fix fd r x l r1 line m a b
  assume "read_line r = Inr x" "(l, r1) = x" "l = Some line" "(a, b) = decode_csv fd line (cr_mapper r1)" "a = (None :: Event option)"
  moreover have "cr_left (r1\<lparr>cr_mapper := b\<rparr>) = cr_left r1" by (simp add: cr_left_def)
  ultimately show "((fd, r1\<lparr>cr_mapper := b\<rparr>), (fd, r)) \<in> measure (cr_left \<circ> snd)"
    by (auto dest: read_line_left)
qed (auto dest: read_line_left)

declare cr_advance_loop.simps [simp del]

definition cr_advance :: "(double \<Rightarrow> Price) \<Rightarrow> CsvReader \<Rightarrow> (bool \<times> CsvReader) res" where
  "cr_advance fd r = cr_advance_loop fd (r\<lparr>cr_has_next := False\<rparr>)"

text \<open>The common tail of \<open>do_open\<close> and \<open>do_reset\<close>: skip the first line, then advance.\<close>

definition cr_start :: "(double \<Rightarrow> Price) \<Rightarrow> CsvReader \<Rightarrow> (bool \<times> CsvReader) res" where
  "cr_start fd r = bind_r (read_line r) (\<lambda>(_, r1). cr_advance fd r1)"

definition cr_open ::
  "(double \<Rightarrow> Price) \<Rightarrow> (string \<Rightarrow> string option) \<Rightarrow> string \<Rightarrow> CsvReader \<Rightarrow> (bool \<times> CsvReader) res" where
  "cr_open fd fs path r =
     (let r1 = cr_close r in
      case fs path of
        None \<Rightarrow> Inr (False, r1)
      | Some content \<Rightarrow>
          cr_start fd (r1\<lparr>cr_file := Some \<lparr>file_bytes = content, file_pos = 0\<rparr>,
            cr_buffer := resize_chars BUFFER_SIZE (cr_buffer r1), cr_pos := 0, cr_end := 0, cr_eof := False\<rparr>))"

definition cr_read_next :: "(double \<Rightarrow> Price) \<Rightarrow> Event \<Rightarrow> CsvReader \<Rightarrow> (bool \<times> Event \<times> CsvReader) res" where
  "cr_read_next fd out r =
     (if \<not> cr_has_next r then Inr (False, out, r)
      else bind_r (cr_advance fd r) (\<lambda>(_, r'). Inr (True, cr_next_event r, r')))"

definition cr_reset :: "(double \<Rightarrow> Price) \<Rightarrow> CsvReader \<Rightarrow> CsvReader res" where
  "cr_reset fd r =
     (case cr_file r of
        None \<Rightarrow> Inr r
      | Some f \<Rightarrow>
          map_r snd (cr_start fd (r\<lparr>cr_file := Some (frewind f), cr_pos := 0, cr_end := 0, cr_eof := False\<rparr>)))"

definition CsvReader_impl :: "(double \<Rightarrow> Price) \<Rightarrow> (string \<Rightarrow> string option) \<Rightarrow> CsvReader DataReaderImpl" where
  "CsvReader_impl fd fs =
     \<lparr>do_open = cr_open fd fs, do_read_next = cr_read_next fd, do_has_next = cr_has_next, do_reset = cr_reset fd\<rparr>"

lemma CsvReader_impl_simps [simp]:
  "reader_open (CsvReader_impl fd fs) = cr_open fd fs" "read_next (CsvReader_impl fd fs) = cr_read_next fd"
  "has_next (CsvReader_impl fd fs) = cr_has_next" "reset (CsvReader_impl fd fs) = cr_reset fd"
  by (auto simp: CsvReader_impl_def reader_open_def read_next_def has_next_def reset_def fun_eq_iff)

subsection \<open>The lines of a text\<close>

text \<open>
  The lines as a function of the whole text, without a buffer: cut at newlines, a carriage return
  before the newline dropped, and a last line without newline taken as it is.
\<close>

function csv_lines :: "string \<Rightarrow> string list" where
  "csv_lines s =
     (if s = [] then []
      else if CHR 0x0A \<in> set s
        then strip_cr (takeWhile (\<lambda>c. c \<noteq> CHR 0x0A) s) # csv_lines (tl (dropWhile (\<lambda>c. c \<noteq> CHR 0x0A) s))
      else [s])"
  by pat_completeness auto
termination
proof (relation "measure length")
  fix s :: string
  assume "s \<noteq> []"
  then show "(tl (dropWhile (\<lambda>c. c \<noteq> CHR 0x0A) s), s) \<in> measure length"
    using length_dropWhile_le [of "\<lambda>c. c \<noteq> CHR 0x0A" s] by (cases s) auto
qed simp

declare csv_lines.simps [simp del]

definition cr_pending :: "CsvReader \<Rightarrow> string" where
  "cr_pending r = cr_view r @
     (if cr_eof r then [] else case cr_file r of None \<Rightarrow> [] | Some f \<Rightarrow> file_rest f)"

definition cr_ok :: "CsvReader \<Rightarrow> bool" where
  "cr_ok r \<longleftrightarrow> cr_file r \<noteq> None \<and> cr_pos r \<le> cr_end r \<and> cr_end r \<le> length (cr_buffer r) \<and> cr_buffer r \<noteq> []"

text \<open>What reading lines leaves alone.\<close>

definition cr_same :: "CsvReader \<Rightarrow> CsvReader \<Rightarrow> bool" where
  "cr_same r r' \<longleftrightarrow> cr_mapper r' = cr_mapper r \<and> cr_next_event r' = cr_next_event r \<and>
     cr_has_next r' = cr_has_next r \<and> map_option file_bytes (cr_file r') = map_option file_bytes (cr_file r)"

lemma cr_make_room_ok:
  assumes "cr_ok r"
  shows "take (cr_end r - cr_pos r) (cr_make_room r) = cr_view r" and "cr_end r - cr_pos r < length (cr_make_room r)"
proof -
  let ?rem = "cr_end r - cr_pos r"
  let ?buf = "if 0 < ?rem \<and> 0 < cr_pos r then cr_view r @ drop ?rem (cr_buffer r) else cr_buffer r"
  have v: "length (cr_view r) = ?rem" using assms by (auto simp: cr_view_def cr_ok_def)
  have b: "take ?rem ?buf = cr_view r" "?rem \<le> length ?buf" "?buf \<noteq> []"
    using assms v by (auto simp: cr_view_def cr_ok_def)
  then show "take ?rem (cr_make_room r) = cr_view r" "?rem < length (cr_make_room r)"
    by (auto simp: cr_make_room_def Let_def resize_chars_def split: if_splits)
qed

lemma cr_refill_ok:
  assumes ok: "cr_ok r" and eof: "\<not> cr_eof r"
  obtains r' where "cr_refill r = Inr r'" "cr_ok r'" "cr_pending r' = cr_pending r" "cr_same r r'"
proof -
  let ?rem = "cr_end r - cr_pos r" and ?buf = "cr_make_room r"
  obtain f where f: "cr_file r = Some f" using ok by (auto simp: cr_ok_def)
  obtain data f' where d: "fread_chars (length ?buf - ?rem) f = (data, f')" by (metis surj_pair)
  note rest = fread_chars_rest [OF d]
  note room = cr_make_room_ok [OF ok]
  let ?r' = "r\<lparr>cr_file := Some f', cr_buffer := take ?rem ?buf @ data @ drop (?rem + length data) ?buf,
     cr_pos := 0, cr_end := ?rem + length data, cr_eof := (if length data = 0 then True else cr_eof r)\<rparr>"
  have len: "length (take ?rem ?buf) = ?rem" "length data \<le> length ?buf - ?rem"
    using room(2) rest(1) by auto
  have view: "cr_view ?r' = cr_view r @ data" using len room by (simp add: cr_view_def)
  have none: "file_rest f = []" if "data = []" using that rest(1) room(2) by simp
  have "data @ file_rest f' = file_rest f" using rest(1,2) by simp
  with none have "cr_pending ?r' = cr_pending r"
    using eof f view by (cases "data = []") (simp_all add: cr_pending_def)
  moreover have "cr_ok ?r'" using len room(2) by (auto simp: cr_ok_def)
  moreover have "cr_same r ?r'" using rest(3) f by (simp add: cr_same_def)
  moreover have "cr_refill r = Inr ?r'" using f d by (simp add: cr_refill_def Let_def)
  ultimately show ?thesis using that by blast
qed

lemma csv_lines_newline:
  assumes "CHR 0x0A \<in> set v"
  shows "csv_lines (v @ s) = strip_cr (takeWhile (\<lambda>c. c \<noteq> CHR 0x0A) v) #
    csv_lines (drop (length (takeWhile (\<lambda>c. c \<noteq> CHR 0x0A) v) + 1) v @ s)"
proof -
  let ?P = "\<lambda>c :: char. c \<noteq> CHR 0x0A"
  have d: "dropWhile ?P v = drop (length (takeWhile ?P v)) v" by (rule dropWhile_eq_drop)
  have "dropWhile ?P v \<noteq> []" using assms by (auto simp: dropWhile_eq_Nil_conv)
  then have "tl (dropWhile ?P (v @ s)) = drop (length (takeWhile ?P v) + 1) v @ s"
    using assms by (auto simp: dropWhile_append d drop_Suc tl_drop)
  moreover have "takeWhile ?P (v @ s) = takeWhile ?P v" using assms by (auto simp: takeWhile_append)
  ultimately show ?thesis using assms by (subst csv_lines.simps) auto
qed

lemma csv_lines_last: "CHR 0x0A \<notin> set v \<Longrightarrow> v \<noteq> [] \<Longrightarrow> csv_lines v = [v]"
  by (subst csv_lines.simps) simp

lemma csv_lines_Nil [simp]: "csv_lines [] = []"
  by (simp add: csv_lines.simps [of "[]"])

definition first_line :: "string list \<Rightarrow> string option" where
  "first_line ls = (case ls of [] \<Rightarrow> None | l # _ \<Rightarrow> Some l)"

lemma cr_same_refl [simp]: "cr_same r r"
  by (simp add: cr_same_def)

lemma cr_same_trans: "cr_same r s \<Longrightarrow> cr_same s t \<Longrightarrow> cr_same r t"
  by (simp add: cr_same_def)

text \<open>However the text falls into the buffer, \<open>read_line\<close> delivers the lines of the text.\<close>

lemma read_line_loop_lines:
  "cr_ok r \<Longrightarrow> \<exists>r'. read_line_loop r = Inr (first_line (csv_lines (cr_pending r)), r') \<and> cr_ok r' \<and>
     csv_lines (cr_pending r') = tl (csv_lines (cr_pending r)) \<and> cr_same r r'"
proof (induction r rule: read_line_loop.induct)
  case (1 r)
  let ?v = "cr_view r" and ?P = "\<lambda>c :: char. c \<noteq> CHR 0x0A"
  have v: "length ?v = cr_end r - cr_pos r" using 1(2) by (auto simp: cr_view_def cr_ok_def)
  have adv: "cr_pending (r\<lparr>cr_pos := cr_pos r + n\<rparr>) = drop n ?v @
      (if cr_eof r then [] else case cr_file r of None \<Rightarrow> [] | Some f \<Rightarrow> file_rest f)" for n
    by (simp add: cr_pending_def cr_view_def drop_take add.commute)
  have same: "cr_same r (r\<lparr>cr_pos := n\<rparr>)" for n by (simp add: cr_same_def)
  show ?case
  proof (cases "CHR 0x0A \<in> set ?v")
    case True
    let ?n = "length (takeWhile ?P ?v) + 1"
    have "cr_ok (r\<lparr>cr_pos := cr_pos r + ?n\<rparr>)"
      using 1(2) takeWhile_view [OF True] by (auto simp: cr_ok_def)
    moreover have "read_line_loop r = Inr (Some (strip_cr (takeWhile ?P ?v)), r\<lparr>cr_pos := cr_pos r + ?n\<rparr>)"
      using True by (subst read_line_loop.simps) (simp add: Let_def)
    moreover note csv_lines_newline [OF True]
    ultimately show ?thesis using adv [of ?n] same by (simp add: cr_pending_def first_line_def)
  next
    case nl: False
    show ?thesis
    proof (cases "cr_eof r")
      case True
      have "cr_ok (r\<lparr>cr_pos := cr_pos r + length ?v\<rparr>)" using 1(2) v by (auto simp: cr_ok_def)
      moreover have "read_line_loop r = Inr (if ?v = [] then (None, r) else (Some ?v, r\<lparr>cr_pos := cr_pos r + length ?v\<rparr>))"
        using nl True by (subst read_line_loop.simps) (simp add: Let_def)
      ultimately show ?thesis
        using nl True adv [of "length ?v"] same 1(2) csv_lines_last [OF nl]
        by (cases "?v = []") (simp_all add: cr_pending_def first_line_def)
    next
      case eof: False
      obtain r1 where r1: "cr_refill r = Inr r1" "cr_ok r1" "cr_pending r1 = cr_pending r" "cr_same r r1"
        using cr_refill_ok [OF 1(2) eof] .
      from 1(1) [OF refl nl eof] r1 obtain r' where
        "read_line_loop r1 = Inr (first_line (csv_lines (cr_pending r)), r')" "cr_ok r'"
        "csv_lines (cr_pending r') = tl (csv_lines (cr_pending r))" "cr_same r1 r'" by metis
      with r1 nl eof show ?thesis
        by (subst read_line_loop.simps) (auto simp: Let_def intro: cr_same_trans)
    qed
  qed
qed

lemma read_line_lines:
  assumes "cr_ok r"
  shows "\<exists>r'. read_line r = Inr (first_line (csv_lines (cr_pending r)), r') \<and> cr_ok r' \<and>
     csv_lines (cr_pending r') = tl (csv_lines (cr_pending r)) \<and> cr_same r r'"
proof (cases "cr_end r \<le> cr_pos r \<and> cr_eof r")
  case True
  then have "cr_pending r = []" by (simp add: cr_pending_def cr_view_def)
  with True assms show ?thesis by (simp add: read_line_def first_line_def)
next
  case False
  with read_line_loop_lines [OF assms] show ?thesis by (auto simp: read_line_def)
qed

subsection \<open>Abstraction and invariant\<close>

definition cr_text :: "CsvReader \<Rightarrow> string" where
  "cr_text r = (case cr_file r of None \<Rightarrow> [] | Some f \<Rightarrow> file_bytes f)"

definition cr_ahead :: "(double \<Rightarrow> Price) \<Rightarrow> CsvReader \<Rightarrow> Event list" where
  "cr_ahead fd r = fst (decode_lines fd (csv_lines (cr_pending r)) (cr_mapper r))"

definition cr_remaining :: "(double \<Rightarrow> Price) \<Rightarrow> CsvReader \<Rightarrow> Event list" where
  "cr_remaining fd r = (if cr_has_next r then cr_next_event r # cr_ahead fd r else [])"

definition cr_contents :: "(double \<Rightarrow> Price) \<Rightarrow> CsvReader \<Rightarrow> Event list" where
  "cr_contents fd r = fst (decode_lines fd (tl (csv_lines (cr_text r))) (cr_mapper r))"

text \<open>
  Some lines behind the header have been decoded since the file was opened or reset, and the
  mapper is the one this left.
\<close>

definition cr_invar :: "(double \<Rightarrow> Price) \<Rightarrow> CsvReader \<Rightarrow> bool" where
  "cr_invar fd r \<longleftrightarrow> cr_ok r \<and>
     (\<exists>m P. tl (csv_lines (cr_text r)) = P @ csv_lines (cr_pending r) \<and>
        cr_mapper r = snd (decode_lines fd P m))"

lemma cr_same_text: "cr_same r r' \<Longrightarrow> cr_text r' = cr_text r"
  by (auto simp: cr_same_def cr_text_def split: option.splits)

lemma cr_frame [simp]:
  "cr_pending (r\<lparr>cr_mapper := m\<rparr>) = cr_pending r" "cr_pending (r\<lparr>cr_next_event := e\<rparr>) = cr_pending r"
  "cr_pending (r\<lparr>cr_has_next := b\<rparr>) = cr_pending r"
  "cr_ok (r\<lparr>cr_mapper := m\<rparr>) = cr_ok r" "cr_ok (r\<lparr>cr_next_event := e\<rparr>) = cr_ok r"
  "cr_ok (r\<lparr>cr_has_next := b\<rparr>) = cr_ok r"
  "cr_text (r\<lparr>cr_mapper := m\<rparr>) = cr_text r" "cr_text (r\<lparr>cr_next_event := e\<rparr>) = cr_text r"
  "cr_text (r\<lparr>cr_has_next := b\<rparr>) = cr_text r"
  by (simp_all add: cr_pending_def cr_view_def cr_ok_def cr_text_def)

lemma cr_ahead_has_next [simp]: "cr_ahead fd (r\<lparr>cr_has_next := b\<rparr>) = cr_ahead fd r"
  by (simp add: cr_ahead_def)

lemma cr_advance_loop_ok:
  assumes "cr_ok r" and "\<not> cr_has_next r"
  shows "\<exists>b r' P. cr_advance_loop fd r = Inr (b, r') \<and> cr_ok r' \<and> cr_remaining fd r' = cr_ahead fd r \<and>
    (b \<longleftrightarrow> cr_ahead fd r \<noteq> []) \<and> cr_text r' = cr_text r \<and>
    csv_lines (cr_pending r) = P @ csv_lines (cr_pending r') \<and> cr_mapper r' = snd (decode_lines fd P (cr_mapper r))"
  using assms
proof (induction fd r rule: cr_advance_loop.induct)
  case (1 fd r)
  obtain r1 where r1: "read_line r = Inr (first_line (csv_lines (cr_pending r)), r1)" "cr_ok r1"
    "csv_lines (cr_pending r1) = tl (csv_lines (cr_pending r))" "cr_same r r1"
    using read_line_lines [OF 1(3)] by blast
  note same = r1(4) [unfolded cr_same_def] cr_same_text [OF r1(4)]
  show ?case
  proof (cases "csv_lines (cr_pending r)")
    case Nil
    then show ?thesis using r1 same 1(4)
      by (subst cr_advance_loop.simps) (auto simp: first_line_def cr_remaining_def cr_ahead_def intro!: exI [of _ "[]"])
  next
    case (Cons l ls)
    obtain e m where d: "decode_csv fd l (cr_mapper r1) = (e, m)" by (cases "decode_csv fd l (cr_mapper r1)")
    show ?thesis
    proof (cases e)
      case (Some ev)
      with d have "l \<noteq> []" by auto
      with Cons Some d r1 same show ?thesis
        by (subst cr_advance_loop.simps)
          (auto simp: first_line_def cr_remaining_def cr_ahead_def split: prod.split intro!: exI [of _ "[l]"])
    next
      case None
      let ?r2 = "r1\<lparr>cr_mapper := m\<rparr>"
      have step: "cr_advance_loop fd r = cr_advance_loop fd ?r2"
        using Cons None d r1(1) by (subst cr_advance_loop.simps) (cases "l = []"; auto simp: first_line_def)
      have "\<exists>b r' P. cr_advance_loop fd ?r2 = Inr (b, r') \<and> cr_ok r' \<and> cr_remaining fd r' = cr_ahead fd ?r2 \<and>
          (b \<longleftrightarrow> cr_ahead fd ?r2 \<noteq> []) \<and> cr_text r' = cr_text ?r2 \<and>
          csv_lines (cr_pending ?r2) = P @ csv_lines (cr_pending r') \<and> cr_mapper r' = snd (decode_lines fd P (cr_mapper ?r2))"
      proof (cases "l = []")
        case True
        with d have "?r2 = r1" by simp
        with 1(1) [OF r1(1) refl _ True] Cons r1(2) same 1(4) show ?thesis by (simp add: first_line_def)
      next
        case False
        with 1(2) [OF r1(1) refl _ False] Cons d None r1(2) same 1(4) show ?thesis by (simp add: first_line_def)
      qed
      then obtain b r' P where ih: "cr_advance_loop fd ?r2 = Inr (b, r')" "cr_ok r'" "cr_remaining fd r' = cr_ahead fd ?r2"
        "b \<longleftrightarrow> cr_ahead fd ?r2 \<noteq> []" "cr_text r' = cr_text ?r2"
        "csv_lines (cr_pending ?r2) = P @ csv_lines (cr_pending r')" "cr_mapper r' = snd (decode_lines fd P (cr_mapper ?r2))"
        by blast
      have "cr_ahead fd ?r2 = cr_ahead fd r"
        using Cons d None r1(3) same by (simp add: cr_ahead_def split: prod.split)
      moreover have "csv_lines (cr_pending r) = (l # P) @ csv_lines (cr_pending r')"
        using Cons r1(3) ih(6) by simp
      moreover have "cr_mapper r' = snd (decode_lines fd (l # P) (cr_mapper r))"
        using d same ih(7) by (simp split: prod.split)
      ultimately show ?thesis
        using ih step same by (intro exI [of _ b] exI [of _ r'] exI [of _ "l # P"]) simp
    qed
  qed
qed

text \<open>Decoding on from an invariant state keeps the invariant and the contents.\<close>

lemma cr_invar_advance:
  assumes inv: "cr_invar fd r" and t: "cr_text r' = cr_text r" and ok: "cr_ok r'"
    and p: "csv_lines (cr_pending r) = P @ csv_lines (cr_pending r')" and m: "cr_mapper r' = snd (decode_lines fd P (cr_mapper r))"
  shows "cr_invar fd r' \<and> cr_contents fd r' = cr_contents fd r"
proof -
  obtain m0 P0 where 0: "tl (csv_lines (cr_text r)) = P0 @ csv_lines (cr_pending r)" "cr_mapper r = snd (decode_lines fd P0 m0)"
    using inv by (auto simp: cr_invar_def)
  have m': "cr_mapper r' = snd (decode_lines fd (P0 @ P) m0)"
    using m 0(2) by (simp add: decode_lines_append split: prod.split)
  have "decode_lines fd (tl (csv_lines (cr_text r))) (cr_mapper r) = decode_lines fd (tl (csv_lines (cr_text r))) m0"
    using 0 by (simp add: decode_lines_again')
  moreover have "decode_lines fd (tl (csv_lines (cr_text r))) (cr_mapper r') = decode_lines fd (tl (csv_lines (cr_text r))) m0"
    using 0(1) p m' decode_lines_again' [of fd "P0 @ P" "csv_lines (cr_pending r')" m0] by simp
  moreover have "tl (csv_lines (cr_text r')) = (P0 @ P) @ csv_lines (cr_pending r')"
    using t 0(1) p by simp
  ultimately show ?thesis using ok t m' by (simp only: cr_invar_def cr_contents_def) blast
qed

lemma cr_advance_ok:
  assumes "cr_invar fd r"
  shows "\<exists>b r'. cr_advance fd r = Inr (b, r') \<and> cr_invar fd r' \<and> cr_remaining fd r' = cr_ahead fd r \<and>
    (b \<longleftrightarrow> cr_ahead fd r \<noteq> []) \<and> cr_contents fd r' = cr_contents fd r"
proof -
  have ok: "cr_ok (r\<lparr>cr_has_next := False\<rparr>)" using assms by (simp add: cr_invar_def)
  obtain b r' P where 1: "cr_advance fd r = Inr (b, r')" "cr_ok r'" "cr_remaining fd r' = cr_ahead fd r"
    "b \<longleftrightarrow> cr_ahead fd r \<noteq> []" "cr_text r' = cr_text r" "csv_lines (cr_pending r) = P @ csv_lines (cr_pending r')"
    "cr_mapper r' = snd (decode_lines fd P (cr_mapper r))"
    using cr_advance_loop_ok [OF ok, of fd] by (auto simp: cr_advance_def)
  with cr_invar_advance [OF assms 1(5,2,6,7)] show ?thesis by blast
qed

text \<open>Opening and resetting: a fresh window at the start of the text.\<close>

lemma cr_start_ok:
  assumes "cr_ok r" and "cr_pending r = cr_text r"
  shows "\<exists>b r'. cr_start fd r = Inr (b, r') \<and> cr_invar fd r' \<and> cr_remaining fd r' = cr_contents fd r \<and>
    (b \<longleftrightarrow> cr_contents fd r \<noteq> []) \<and> cr_contents fd r' = cr_contents fd r"
proof -
  obtain r1 where r1: "read_line r = Inr (first_line (csv_lines (cr_pending r)), r1)" "cr_ok r1"
    "csv_lines (cr_pending r1) = tl (csv_lines (cr_pending r))" "cr_same r r1"
    using read_line_lines [OF assms(1)] by blast
  note same = r1(4) [unfolded cr_same_def] cr_same_text [OF r1(4)]
  have "cr_invar fd r1" "cr_contents fd r1 = cr_contents fd r" "cr_ahead fd r1 = cr_contents fd r"
    using r1 same assms(2) by (auto simp: cr_invar_def cr_contents_def cr_ahead_def intro!: exI [of _ "[]"])
  with cr_advance_ok [of fd r1] r1(1) show ?thesis by (auto simp: cr_start_def)
qed

interpretation csv_reader: data_reader "CsvReader_impl fd fs" "cr_invar fd" "cr_remaining fd" "cr_contents fd" for fd fs
proof
  fix r out e es
  assume inv: "cr_invar fd r"
  show "cr_remaining fd r = [] \<Longrightarrow> read_next (CsvReader_impl fd fs) out r = Inr (False, out, r)"
    by (simp add: cr_read_next_def cr_remaining_def split: if_splits)
  show "has_next (CsvReader_impl fd fs) r \<longleftrightarrow> cr_remaining fd r \<noteq> []"
    by (simp add: cr_remaining_def)
  show "\<exists>r'. read_next (CsvReader_impl fd fs) out r = Inr (True, e, r') \<and> cr_invar fd r' \<and>
      cr_remaining fd r' = es \<and> cr_contents fd r' = cr_contents fd r" if "cr_remaining fd r = e # es"
    using that cr_advance_ok [OF inv] by (auto simp: cr_read_next_def cr_remaining_def split: if_splits)
  show "\<exists>r'. reset (CsvReader_impl fd fs) r = Inr r' \<and> cr_invar fd r' \<and> cr_remaining fd r' = cr_contents fd r \<and>
      cr_contents fd r' = cr_contents fd r"
  proof -
    obtain f where f: "cr_file r = Some f" using inv by (auto simp: cr_invar_def cr_ok_def)
    let ?r1 = "r\<lparr>cr_file := Some (frewind f), cr_pos := 0, cr_end := 0, cr_eof := False\<rparr>"
    have "cr_ok ?r1" "cr_pending ?r1 = cr_text ?r1" "cr_contents fd ?r1 = cr_contents fd r"
      using inv f by (simp_all add: cr_invar_def cr_ok_def cr_pending_def cr_view_def cr_text_def file_rest_def
          frewind_def cr_contents_def)
    with cr_start_ok [of ?r1 fd] f show ?thesis by (auto simp: cr_reset_def)
  qed
qed

lemma cr_open_ok:
  assumes "fs path = Some content"
  shows "\<exists>r'. cr_open fd fs path r = Inr (fst (decode_lines fd (tl (csv_lines content)) (cr_mapper r)) \<noteq> [], r') \<and>
    cr_invar fd r' \<and> cr_remaining fd r' = fst (decode_lines fd (tl (csv_lines content)) (cr_mapper r)) \<and>
    cr_contents fd r' = fst (decode_lines fd (tl (csv_lines content)) (cr_mapper r))"
proof -
  let ?r1 = "(cr_close r)\<lparr>cr_file := Some \<lparr>file_bytes = content, file_pos = 0\<rparr>,
    cr_buffer := resize_chars BUFFER_SIZE (cr_buffer (cr_close r)), cr_pos := 0, cr_end := 0, cr_eof := False\<rparr>"
  have "cr_ok ?r1" "cr_pending ?r1 = cr_text ?r1"
    "cr_contents fd ?r1 = fst (decode_lines fd (tl (csv_lines content)) (cr_mapper r))"
    by (auto simp: cr_ok_def cr_pending_def cr_view_def cr_text_def file_rest_def cr_contents_def cr_close_def
        resize_chars_def BUFFER_SIZE_def)
  with cr_start_ok [of ?r1 fd] assms show ?thesis by (auto simp: cr_open_def Let_def)
qed

subsection \<open>Properties\<close>

text \<open>
  C13. The buffered CSV reader is transparent: opening a readable text and reading until
  \<open>read_next\<close> fails delivers the events of its lines in order, skipping the first line whatever it
  holds and every line that does not decode, no matter where the 256 KB buffer cuts the text or how
  long a line is; \<open>open\<close> answers whether there is an event; and after \<open>reset\<close> the same events come
  again, with the same symbol numbers. Every loop ends and nothing is undefined.
\<close>

theorem csv_reader_delivers_text:
  assumes "fs path = Some content" and "evs = fst (decode_lines fd (tl (csv_lines content)) (cr_mapper r))"
  shows "\<exists>r1 r2 r3 r4. reader_open (CsvReader_impl fd fs) path r = Inr (evs \<noteq> [], r1) \<and>
    read_all (CsvReader_impl fd fs) e r1 [] = Some (Inr (evs, r2)) \<and>
    reset (CsvReader_impl fd fs) r2 = Inr r3 \<and>
    read_all (CsvReader_impl fd fs) e r3 [] = Some (Inr (evs, r4))"
proof -
  obtain r1 where r1: "cr_open fd fs path r = Inr (evs \<noteq> [], r1)" "cr_invar fd r1"
    "cr_remaining fd r1 = evs" "cr_contents fd r1 = evs"
    using cr_open_ok [of fs path content fd r] assms by auto
  with csv_reader.reset_read_all [where fs = fs and e = e, OF r1(2)] show ?thesis by simp
qed

definition test_text :: string where
  "test_text = ''ts,sym,type,price,qty,side'' @ CHR 0x0A # csv_line 5 ''A'' CHR ''T'' ''0'' 7 Sell"

lemma test_text_lines: "csv_lines test_text = [''ts,sym,type,price,qty,side'', csv_line 5 ''A'' CHR ''T'' ''0'' 7 Sell]"
proof -
  have l: "csv_line 5 ''A'' CHR ''T'' ''0'' 7 Sell = ''5,A,T,0,7,S''"
    by code_simp
  show ?thesis
    unfolding test_text_def l
    using csv_lines_newline [of "''ts,sym,type,price,qty,side'' @ [CHR 0x0A]" "''5,A,T,0,7,S''"]
    by (simp add: csv_lines_last strip_cr_def)
qed

theorem csv_reader_delivers_text_witness:
  "\<exists>r1 r2. reader_open (CsvReader_impl (\<lambda>_. 9) (\<lambda>_. Some test_text)) ''day.csv'' (CsvReader_new (Some SymbolMapper_new)) =
       Inr (True, r1) \<and>
     read_all (CsvReader_impl (\<lambda>_. 9) (\<lambda>_. Some test_text)) Event_default r1 [] = Some (Inr ([make_trade 5 1 9 7 Sell], r2))"
proof -
  have "fst (decode_lines (\<lambda>_. 9) (tl (csv_lines test_text)) (Some SymbolMapper_new)) = [make_trade 5 1 9 7 Sell]"
    using decode_csv_line [OF _ _ _ from_chars_double_0 get_or_create_new, of 5 "''A''" Sell "\<lambda>_. 9" 7]
    by (simp add: test_text_lines in_s64_def)
  with csv_reader_delivers_text [of "\<lambda>_. Some test_text" "''day.csv''" test_text _ "\<lambda>_. 9"
      "CsvReader_new (Some SymbolMapper_new)" Event_default]
  show ?thesis by (auto simp: CsvReader_new_def)
qed

end
