(* ===== verification/Binary_Reader.thy ===== *)
theory Binary_Reader
  imports Data_Reader
begin

section \<open>The binary event reader (\<open>data/binary_reader.hpp\<close>)\<close>

text \<open>
  A file is its bytes and the stream's position; \<open>fopen\<close> is a parameter \<open>fs\<close>, the bytes of
  every readable path. \<open>fread\<close> of whole structs returns as many 64-byte records as are left, up
  to the buffer's size, and consumes the bytes of an incomplete last record; a null stream is
  undefined behaviour. Read errors of the device are not modelled. The reader keeps a buffer
  of 65536 events and one event of look-ahead. The indices into the buffer are \<open>size_t\<close> in the
  code and \<open>nat\<close> here: they never exceed 65536.
\<close>

subsection \<open>Reading structs\<close>

text \<open>The whole 64-byte records of a block of bytes.\<close>

function records :: "byte list \<Rightarrow> Event list" where
  "records bs = (if length bs < 64 then [] else event_of_bytes (take 64 bs) # records (drop 64 bs))"
  by auto
termination by (relation "measure length") auto

declare records.simps [simp del]

definition fread_events :: "nat \<Rightarrow> byte FILE \<Rightarrow> Event list \<times> byte FILE" where
  "fread_events n f =
     (let bs = take (n * 64) (drop (file_pos f) (file_bytes f))
      in (records bs, f\<lparr>file_pos := file_pos f + length bs\<rparr>))"

subsection \<open>State and operations\<close>

definition EVENTS_PER_READ :: nat where
  "EVENTS_PER_READ = 65536"

record BinaryReader =
  br_file :: "byte FILE option"
  br_buffer :: "Event list"
  br_buffer_idx :: nat
  br_buffer_count :: nat
  br_is_eof :: bool
  br_next_event :: Event
  br_has_next :: bool

definition BinaryReader_new :: BinaryReader where
  "BinaryReader_new =
     \<lparr>br_file = None, br_buffer = [], br_buffer_idx = 0, br_buffer_count = 0, br_is_eof = False,
      br_next_event = Event_default, br_has_next = False\<rparr>"

definition br_close :: "BinaryReader \<Rightarrow> BinaryReader" where
  "br_close r = r\<lparr>br_file := None\<rparr>"

text \<open>Reading the next chunk, the inner part of \<open>advance\<close>: \<open>None\<close> if the file is at its end.\<close>

definition br_fill :: "BinaryReader \<Rightarrow> BinaryReader res" where
  "br_fill r =
     (case br_file r of
        None \<Rightarrow> Inl NullDeref
      | Some f \<Rightarrow>
          let (evs, f') = fread_events EVENTS_PER_READ f
          in Inr (r\<lparr>br_file := Some f', br_buffer := evs @ drop (length evs) (br_buffer r),
                    br_buffer_count := length evs, br_buffer_idx := 0\<rparr>))"

definition br_take :: "BinaryReader \<Rightarrow> (bool \<times> BinaryReader) res" where
  "br_take r =
     bind_r (at_r (br_buffer r) (br_buffer_idx r)) (\<lambda>e.
       Inr (True, r\<lparr>br_next_event := e, br_buffer_idx := br_buffer_idx r + 1, br_has_next := True\<rparr>))"

definition br_advance :: "BinaryReader \<Rightarrow> (bool \<times> BinaryReader) res" where
  "br_advance r =
     (if br_buffer_count r \<le> br_buffer_idx r then
        if br_is_eof r then Inr (False, r\<lparr>br_has_next := False\<rparr>)
        else bind_r (br_fill r) (\<lambda>r1.
          if br_buffer_count r1 = 0 then Inr (False, r1\<lparr>br_is_eof := True, br_has_next := False\<rparr>)
          else br_take (if br_buffer_count r1 < EVENTS_PER_READ then r1\<lparr>br_is_eof := True\<rparr> else r1))
      else br_take r)"

text \<open>\<open>buffer_.resize(EVENTS_PER_READ)\<close> keeps what the buffer holds and pads it with \<open>Event()\<close>.\<close>

definition resize_events :: "nat \<Rightarrow> Event list \<Rightarrow> Event list" where
  "resize_events n evs = take n evs @ replicate (n - length evs) Event_default"

definition br_open :: "(string \<Rightarrow> byte list option) \<Rightarrow> string \<Rightarrow> BinaryReader \<Rightarrow> (bool \<times> BinaryReader) res" where
  "br_open fs path r =
     (let r1 = br_close r in
      case fs path of
        None \<Rightarrow> Inr (False, r1)
      | Some bs \<Rightarrow>
          br_advance (r1\<lparr>br_file := Some \<lparr>file_bytes = bs, file_pos = 0\<rparr>,
            br_buffer := resize_events EVENTS_PER_READ (br_buffer r1), br_buffer_idx := 0,
            br_buffer_count := 0, br_is_eof := False\<rparr>))"

definition br_read_next :: "Event \<Rightarrow> BinaryReader \<Rightarrow> (bool \<times> Event \<times> BinaryReader) res" where
  "br_read_next out r =
     (if \<not> br_has_next r then Inr (False, out, r)
      else bind_r (br_advance r) (\<lambda>(_, r'). Inr (True, br_next_event r, r')))"

definition br_reset :: "BinaryReader \<Rightarrow> BinaryReader res" where
  "br_reset r =
     (case br_file r of
        None \<Rightarrow> Inr r
      | Some f \<Rightarrow>
          map_r snd (br_advance (r\<lparr>br_file := Some (frewind f), br_buffer_idx := 0,
            br_buffer_count := 0, br_is_eof := False\<rparr>)))"

definition BinaryReader_impl :: "(string \<Rightarrow> byte list option) \<Rightarrow> BinaryReader DataReaderImpl" where
  "BinaryReader_impl fs =
     \<lparr>do_open = br_open fs, do_read_next = br_read_next, do_has_next = br_has_next, do_reset = br_reset\<rparr>"

lemma BinaryReader_impl_simps [simp]:
  "reader_open (BinaryReader_impl fs) = br_open fs" "read_next (BinaryReader_impl fs) = br_read_next"
  "has_next (BinaryReader_impl fs) = br_has_next" "reset (BinaryReader_impl fs) = br_reset"
  by (auto simp: BinaryReader_impl_def reader_open_def read_next_def has_next_def reset_def fun_eq_iff)

subsection \<open>The events of a file\<close>

lemma records_append_chunk:
  "length xs = n * 64 \<Longrightarrow> records (xs @ ys) = records xs @ records ys"
proof (induction n arbitrary: xs)
  case 0
  then show ?case by (simp add: records.simps [of "[]"])
next
  case (Suc n)
  then have "length (drop 64 xs) = n * 64" by simp
  from Suc.IH [OF this] Suc.prems show ?case
    by (simp add: records.simps [of "xs @ ys"] records.simps [of xs])
qed

lemma length_records: "length (records bs) = length bs div 64"
proof (induction bs rule: records.induct)
  case (1 bs)
  then show ?case by (simp add: records.simps [of bs] le_div_geq)
qed

lemma records_take_drop: "records bs = records (take (n * 64) bs) @ records (drop (n * 64) bs)"
proof (cases "n * 64 \<le> length bs")
  case True
  then show ?thesis using records_append_chunk [of "take (n * 64) bs" n "drop (n * 64) bs"] by simp
next
  case False
  then show ?thesis by (simp add: records.simps [of "[]"])
qed

lemma records_short: "length bs < 64 \<Longrightarrow> records bs = []"
  by (simp add: records.simps [of bs])

text \<open>A file written as the images of events is read back as these events.\<close>

lemma records_event_bytes:
  "list_all wf_event es \<Longrightarrow> records (concat (map event_to_bytes es)) = es"
proof (induction es)
  case Nil
  then show ?case by (simp add: records_short)
next
  case (Cons e es)
  then show ?case
    using records_append_chunk [of "event_to_bytes e" 1 "concat (map event_to_bytes es)"]
    by (simp add: length_event_to_bytes records.simps [of "event_to_bytes e"] records_short event_of_to_bytes)
qed

subsection \<open>Abstraction and invariant\<close>

definition br_contents :: "BinaryReader \<Rightarrow> Event list" where
  "br_contents r = (case br_file r of None \<Rightarrow> [] | Some f \<Rightarrow> records (file_bytes f))"

text \<open>The events behind the look-ahead: the rest of the buffer, then the rest of the file.\<close>

definition br_ahead :: "BinaryReader \<Rightarrow> Event list" where
  "br_ahead r =
     drop (br_buffer_idx r) (take (br_buffer_count r) (br_buffer r)) @
     (if br_is_eof r then [] else
      case br_file r of None \<Rightarrow> [] | Some f \<Rightarrow> records (drop (file_pos f) (file_bytes f)))"

definition br_remaining :: "BinaryReader \<Rightarrow> Event list" where
  "br_remaining r = (if br_has_next r then br_next_event r # br_ahead r else [])"

definition br_buffer_ok :: "BinaryReader \<Rightarrow> bool" where
  "br_buffer_ok r \<longleftrightarrow> br_file r \<noteq> None \<and> length (br_buffer r) = EVENTS_PER_READ \<and>
     br_buffer_idx r \<le> br_buffer_count r \<and> br_buffer_count r \<le> EVENTS_PER_READ"

definition br_invar :: "BinaryReader \<Rightarrow> bool" where
  "br_invar r \<longleftrightarrow> br_buffer_ok r"

lemma br_fill_ok:
  assumes "br_buffer_ok r" and "br_buffer_count r \<le> br_buffer_idx r" and "\<not> br_is_eof r"
  obtains r1 where "br_fill r = Inr r1" "br_buffer_ok r1" "br_buffer_idx r1 = 0" "\<not> br_is_eof r1"
    "br_contents r1 = br_contents r" "br_ahead r1 = br_ahead r"
    "br_buffer_count r1 < EVENTS_PER_READ \<Longrightarrow>
       br_ahead r1 = take (br_buffer_count r1) (br_buffer r1)"
proof -
  obtain f where f: "br_file r = Some f" using assms(1) by (auto simp: br_buffer_ok_def)
  let ?rest = "drop (file_pos f) (file_bytes f)"
  let ?bs = "take (EVENTS_PER_READ * 64) ?rest"
  let ?r1 = "r\<lparr>br_file := Some (f\<lparr>file_pos := file_pos f + length ?bs\<rparr>),
    br_buffer := records ?bs @ drop (length (records ?bs)) (br_buffer r),
    br_buffer_count := length (records ?bs), br_buffer_idx := 0\<rparr>"
  have len: "length (records ?bs) \<le> EVENTS_PER_READ"
    by (simp add: length_records EVENTS_PER_READ_def)
  have rest: "drop (file_pos f + length ?bs) (file_bytes f) = drop (EVENTS_PER_READ * 64) ?rest"
    by (cases "length ?rest \<le> EVENTS_PER_READ * 64") (simp_all add: min_def add.commute)
  have short: "length (drop (EVENTS_PER_READ * 64) ?rest) < 64" if "length (records ?bs) < EVENTS_PER_READ"
    using that by (simp add: length_records EVENTS_PER_READ_def min_def split: if_splits)
  show ?thesis
  proof
    show "br_fill r = Inr ?r1" by (simp add: br_fill_def f fread_events_def Let_def)
    show "br_buffer_ok ?r1" using assms(1) len by (simp add: br_buffer_ok_def)
    show "br_contents ?r1 = br_contents r" by (simp add: br_contents_def f)
    show "br_ahead ?r1 = br_ahead r"
      using assms rest records_take_drop [of ?rest EVENTS_PER_READ] by (simp add: br_ahead_def f)
    show "br_ahead ?r1 = take (br_buffer_count ?r1) (br_buffer ?r1)" if "br_buffer_count ?r1 < EVENTS_PER_READ"
      using assms(3) rest short that records_short by (simp add: br_ahead_def)
  qed (use assms in simp_all)
qed

lemma br_take_ok:
  assumes "br_buffer_ok r" and "br_buffer_idx r < br_buffer_count r"
  shows "\<exists>r'. br_take r = Inr (True, r') \<and> br_buffer_ok r' \<and> br_contents r' = br_contents r \<and>
    br_remaining r' = br_ahead r \<and> br_ahead r \<noteq> []"
proof -
  let ?i = "br_buffer_idx r" and ?xs = "take (br_buffer_count r) (br_buffer r)"
  have i: "?i < length ?xs" "?i < length (br_buffer r)" using assms by (auto simp: br_buffer_ok_def)
  then have "drop ?i ?xs = br_buffer r ! ?i # drop (?i + 1) ?xs"
    using Cons_nth_drop_Suc [OF i(1)] assms(2) by simp
  then show ?thesis
    using assms i by (simp add: br_take_def at_r_def br_buffer_ok_def br_contents_def br_remaining_def br_ahead_def)
qed

lemma br_advance_ok:
  assumes "br_buffer_ok r"
  shows "\<exists>b r'. br_advance r = Inr (b, r') \<and> br_buffer_ok r' \<and> br_contents r' = br_contents r \<and>
    br_remaining r' = br_ahead r \<and> (b \<longleftrightarrow> br_ahead r \<noteq> [])"
proof (cases "br_buffer_count r \<le> br_buffer_idx r")
  case False
  with br_take_ok [OF assms] show ?thesis by (auto simp: br_advance_def)
next
  case empty: True
  show ?thesis
  proof (cases "br_is_eof r")
    case True
    then show ?thesis using assms empty
      by (auto simp: br_advance_def br_remaining_def br_ahead_def br_buffer_ok_def br_contents_def)
  next
    case False
    obtain r1 where fill: "br_fill r = Inr r1" and ok: "br_buffer_ok r1" "br_buffer_idx r1 = 0" "\<not> br_is_eof r1"
      and c: "br_contents r1 = br_contents r" and a: "br_ahead r1 = br_ahead r"
      and s: "br_buffer_count r1 < EVENTS_PER_READ \<Longrightarrow> br_ahead r1 = take (br_buffer_count r1) (br_buffer r1)"
      using br_fill_ok [OF assms empty False] by metis
    let ?r2 = "if br_buffer_count r1 < EVENTS_PER_READ then r1\<lparr>br_is_eof := True\<rparr> else r1"
    have "br_buffer_ok ?r2" "br_contents ?r2 = br_contents r"
      using ok c by (auto simp: br_buffer_ok_def br_contents_def)
    moreover have a2: "br_ahead ?r2 = br_ahead r"
      using s a ok(2) by (auto simp: br_ahead_def)
    moreover have "br_advance r = br_take ?r2" "br_buffer_idx ?r2 < br_buffer_count ?r2" if "br_buffer_count r1 \<noteq> 0"
      using that empty False fill ok(2) by (auto simp: br_advance_def)
    ultimately have step: "\<exists>r'. br_advance r = Inr (True, r') \<and> br_buffer_ok r' \<and> br_contents r' = br_contents r \<and>
        br_remaining r' = br_ahead r \<and> br_ahead r \<noteq> []" if "br_buffer_count r1 \<noteq> 0"
      using that br_take_ok [of ?r2] by metis
    show ?thesis
    proof (cases "br_buffer_count r1 = 0")
      case True
      then have "br_ahead r = []" using s a by (simp add: EVENTS_PER_READ_def)
      with True empty False fill ok c show ?thesis
        by (auto simp: br_advance_def br_remaining_def br_buffer_ok_def br_contents_def)
    next
      case False
      from step [OF this] show ?thesis by blast
    qed
  qed
qed

interpretation binary_reader: data_reader "BinaryReader_impl fs" br_invar br_remaining br_contents for fs
proof
  fix r out e es
  assume inv: "br_invar r"
  show "br_remaining r = [] \<Longrightarrow> read_next (BinaryReader_impl fs) out r = Inr (False, out, r)"
    by (simp add: br_read_next_def br_remaining_def split: if_splits)
  show "has_next (BinaryReader_impl fs) r \<longleftrightarrow> br_remaining r \<noteq> []"
    by (simp add: br_remaining_def)
  show "\<exists>r'. read_next (BinaryReader_impl fs) out r = Inr (True, e, r') \<and> br_invar r' \<and>
      br_remaining r' = es \<and> br_contents r' = br_contents r" if "br_remaining r = e # es"
    using that inv br_advance_ok [of r]
    by (auto simp: br_read_next_def br_remaining_def br_invar_def split: if_splits)
  show "\<exists>r'. reset (BinaryReader_impl fs) r = Inr r' \<and> br_invar r' \<and> br_remaining r' = br_contents r \<and>
      br_contents r' = br_contents r"
  proof -
    obtain f where f: "br_file r = Some f" using inv by (auto simp: br_invar_def br_buffer_ok_def)
    let ?r1 = "r\<lparr>br_file := Some (frewind f), br_buffer_idx := 0, br_buffer_count := 0, br_is_eof := False\<rparr>"
    have "br_buffer_ok ?r1" "br_ahead ?r1 = br_contents r" "br_contents ?r1 = br_contents r"
      using inv f by (simp_all add: br_invar_def br_buffer_ok_def br_ahead_def br_contents_def frewind_def)
    with br_advance_ok [of ?r1] show ?thesis
      by (auto simp: br_reset_def f br_invar_def)
  qed
qed

text \<open>Opening a readable file.\<close>

lemma br_open_ok:
  assumes "fs path = Some bs"
  shows "\<exists>r'. br_open fs path r = Inr (records bs \<noteq> [], r') \<and> br_invar r' \<and>
    br_remaining r' = records bs \<and> br_contents r' = records bs"
proof -
  let ?r1 = "(br_close r)\<lparr>br_file := Some \<lparr>file_bytes = bs, file_pos = 0\<rparr>,
    br_buffer := resize_events EVENTS_PER_READ (br_buffer (br_close r)), br_buffer_idx := 0,
    br_buffer_count := 0, br_is_eof := False\<rparr>"
  have "br_buffer_ok ?r1" "br_ahead ?r1 = records bs" "br_contents ?r1 = records bs"
    by (simp_all add: br_buffer_ok_def br_ahead_def br_contents_def resize_events_def)
  moreover have "br_open fs path r = br_advance ?r1"
    using assms by (simp add: br_open_def Let_def)
  ultimately show ?thesis using br_advance_ok [of ?r1] by (auto simp: br_invar_def)
qed

subsection \<open>Properties\<close>

text \<open>
  C12. The chunked reader is transparent: opening a readable file and reading until \<open>read_next\<close>
  fails delivers exactly the file's whole 64-byte records in order, whatever state the reader
  was in before and however the records fall into the 65536-event chunks; an incomplete last
  record is dropped; \<open>open\<close> answers whether there is a record at all; and after \<open>reset\<close> the same
  events are delivered again. No operation on the way is undefined, and the loop ends.
\<close>

theorem binary_reader_delivers_file:
  assumes "fs path = Some bs"
  shows "\<exists>r1 r2 r3 r4. reader_open (BinaryReader_impl fs) path r = Inr (64 \<le> length bs, r1) \<and>
    read_all (BinaryReader_impl fs) e r1 [] = Some (Inr (records bs, r2)) \<and>
    reset (BinaryReader_impl fs) r2 = Inr r3 \<and>
    read_all (BinaryReader_impl fs) e r3 [] = Some (Inr (records bs, r4))"
proof -
  obtain r1 where r1: "br_open fs path r = Inr (records bs \<noteq> [], r1)" "br_invar r1"
    "br_remaining r1 = records bs" "br_contents r1 = records bs"
    using br_open_ok [of fs path bs r] assms by auto
  have "records bs \<noteq> [] \<longleftrightarrow> 64 \<le> length bs" by (simp add: records.simps [of bs])
  with r1 binary_reader.reset_read_all [OF r1(2), of fs e] show ?thesis
    by simp
qed

theorem binary_reader_delivers_file_witness:
  "\<exists>r1. reader_open (BinaryReader_impl (\<lambda>_. Some (replicate 100 0))) ''ticks.bin'' BinaryReader_new = Inr (True, r1)"
  using binary_reader_delivers_file [of "\<lambda>_. Some (replicate 100 0)" "''ticks.bin''" "replicate 100 0"
      BinaryReader_new Event_default] by simp blast

text \<open>
  Files round trip: a file that holds the memory images of well-formed events, one after
  the other, is delivered as exactly these events.
\<close>

theorem binary_file_roundtrip:
  assumes "list_all wf_event es" and "es \<noteq> []" and "fs path = Some (concat (map event_to_bytes es))"
  shows "\<exists>r1 r2. reader_open (BinaryReader_impl fs) path r = Inr (True, r1) \<and>
    read_all (BinaryReader_impl fs) e r1 [] = Some (Inr (es, r2))"
proof -
  obtain r1 where "br_open fs path r = Inr (True, r1)" "br_invar r1" "br_remaining r1 = es"
    using br_open_ok [of fs path "concat (map event_to_bytes es)" r] assms by (auto simp: records_event_bytes)
  with binary_reader.read_all_remaining [of r1 fs e "[]"] show ?thesis
    by auto
qed

definition test_events :: "Event list" where
  "test_events = [make_trade 1000 1 15000000000 100 Buy, make_trade 2000 1 15100000000 50 Sell]"

lemma wf_test_events: "list_all wf_event test_events"
  by (simp add: test_events_def wf_make_trade in_s64_def)

theorem binary_file_roundtrip_witness:
  "\<exists>r1 r2. reader_open (BinaryReader_impl (\<lambda>_. Some (concat (map event_to_bytes test_events)))) ''t'' BinaryReader_new =
       Inr (True, r1) \<and>
     read_all (BinaryReader_impl (\<lambda>_. Some (concat (map event_to_bytes test_events)))) Event_default r1 [] =
       Some (Inr (test_events, r2))"
  by (rule binary_file_roundtrip [OF wf_test_events]) (simp_all add: test_events_def)

text \<open>
  C23. A failed \<open>open\<close> does not reset the look-ahead: on a reader that still had an event of an
  earlier file, \<open>open\<close> of an unreadable path answers false and closes the file, yet \<open>has_next\<close>
  stays true; the next \<open>read_next\<close> delivers the stale event of the earlier file, or reads
  through the null stream when the buffer is used up and the end was not seen yet.
\<close>

theorem binary_reader_stale_after_failed_open:
  assumes "fs path = None" and "br_invar r" and "br_has_next r"
  shows "\<exists>r1. reader_open (BinaryReader_impl fs) path r = Inr (False, r1) \<and>
    has_next (BinaryReader_impl fs) r1 \<and>
    (if br_buffer_idx r = br_buffer_count r \<and> \<not> br_is_eof r
     then read_next (BinaryReader_impl fs) e r1 = Inl NullDeref
     else \<exists>r2. read_next (BinaryReader_impl fs) e r1 = Inr (True, br_next_event r, r2))"
  using assms
  by (auto simp: br_open_def br_close_def br_read_next_def br_advance_def br_fill_def br_take_def at_r_def
      br_invar_def br_buffer_ok_def)

theorem binary_reader_stale_after_failed_open_witness:
  "\<exists>r r1. br_open (\<lambda>_. Some (concat (map event_to_bytes test_events))) ''day1'' BinaryReader_new = Inr (True, r) \<and>
     reader_open (BinaryReader_impl (\<lambda>_. None)) ''day2'' r = Inr (False, r1) \<and> has_next (BinaryReader_impl (\<lambda>_. None)) r1"
proof -
  have "test_events \<noteq> []" by (simp add: test_events_def)
  then obtain r where r: "br_open (\<lambda>_. Some (concat (map event_to_bytes test_events))) ''day1'' BinaryReader_new = Inr (True, r)"
    "br_invar r" "br_remaining r = test_events"
    using br_open_ok [of "\<lambda>_. Some (concat (map event_to_bytes test_events))" "''day1''" _ BinaryReader_new]
      records_event_bytes [OF wf_test_events] by force
  then have "br_has_next r" using \<open>test_events \<noteq> []\<close> by (simp add: br_remaining_def split: if_splits)
  from binary_reader_stale_after_failed_open [of "\<lambda>_. None" "''day2''", OF _ r(2) this] r(1) show ?thesis by auto
qed

end
