(* ===== verification/Risk.thy ===== *)
theory Risk
  imports Portfolio_Runs
begin

section \<open>Risk engine (\<open>risk/risk_engine.hpp\<close>, \<open>risk_engine.cpp\<close>)\<close>

text \<open>
  Pre-trade checks and the kill switch. The engine's state is its limits and the kill flag;
  the portfolio it points to is read only, so it is an argument (\<open>None\<close> for a null pointer).
  \<open>check_pre_trade\<close> keeps the order of the checks and the unsigned arithmetic of the position
  check: \<open>expected_pos += req.qty\<close> adds a \<open>uint64_t\<close> to an \<open>int64_t\<close>, which is computed
  modulo \<open>2 ^ 64\<close> and converted back, and the comparison of \<open>std::abs(expected_pos)\<close> with the
  limit is unsigned.
\<close>

subsection \<open>State and operations\<close>

record RiskLimits =
  max_position_per_symbol :: Qty
  max_loss :: Price
  max_order_size :: Qty

definition RiskLimits_default :: RiskLimits where
  "RiskLimits_default = \<lparr>max_position_per_symbol = 100000, max_loss = 0, max_order_size = 10000\<rparr>"

datatype RiskRejectReason = Reject_None | MaxPosition | MaxLoss | MaxOrderSize | KillSwitch

record RiskEngine =
  limits :: RiskLimits
  killed :: bool

definition RiskEngine_new :: "RiskLimits \<Rightarrow> RiskEngine" where
  "RiskEngine_new lims = \<lparr>limits = lims, killed = False\<rparr>"

definition trigger_kill_switch :: "RiskEngine \<Rightarrow> RiskEngine" where
  "trigger_kill_switch re = re\<lparr>killed := True\<rparr>"

definition is_killed :: "RiskEngine \<Rightarrow> bool" where
  "is_killed re = killed re"

text \<open>The position expected if the order is fully filled.\<close>

definition expected_pos :: "Position \<Rightarrow> OrderRequest \<Rightarrow> int" where
  "expected_pos p req =
     (if req_side req = Buy then sint (word_of_int (net_qty p) + req_qty req :: 64 word)
      else sint (word_of_int (net_qty p) - req_qty req :: 64 word))"

text \<open>Whether the loss limit is breached, and whether the position limit would be.\<close>

definition loss_breached :: "RiskLimits \<Rightarrow> Portfolio option \<Rightarrow> bool res" where
  "loss_breached lims port =
     (case port of
        None \<Rightarrow> Inr False
      | Some pf \<Rightarrow>
          if max_loss lims > 0
          then bind_r (total_pnl pf) (\<lambda>t. bind_r (sneg (max_loss lims)) (\<lambda>m. Inr (t < m)))
          else Inr False)"

definition position_breached :: "RiskLimits \<Rightarrow> Portfolio option \<Rightarrow> OrderRequest \<Rightarrow> bool res" where
  "position_breached lims port req =
     (case port of
        None \<Rightarrow> Inr False
      | Some pf \<Rightarrow>
          if max_position_per_symbol lims > 0
          then bind_r (get_position pf (req_symbol req)) (\<lambda>p.
               bind_r (chk \<bar>expected_pos p req\<bar>) (\<lambda>a.
                 Inr (word_of_int a > max_position_per_symbol lims)))
          else Inr False)"

definition check_pre_trade ::
  "Portfolio option \<Rightarrow> OrderRequest \<Rightarrow> RiskEngine \<Rightarrow> (RiskRejectReason \<times> RiskEngine) res" where
  "check_pre_trade port req re =
     (if killed re then Inr (KillSwitch, re)
      else if max_order_size (limits re) > 0 \<and> req_qty req > max_order_size (limits re)
        then Inr (MaxOrderSize, re)
      else
        bind_r (loss_breached (limits re) port) (\<lambda>loss.
        if loss then Inr (MaxLoss, re\<lparr>killed := True\<rparr>)
        else
          bind_r (position_breached (limits re) port req) (\<lambda>pos.
          if pos then Inr (MaxPosition, re) else Inr (Reject_None, re))))"

text \<open>
  The engine as a state machine: the calls that change it or report a decision, against any
  portfolio and any order.
\<close>

inductive risk_step :: "RiskEngine \<Rightarrow> RiskRejectReason option \<Rightarrow> RiskEngine \<Rightarrow> bool" where
  check: "check_pre_trade port req re = Inr (rr, re') \<Longrightarrow> risk_step re (Some rr) re'"
| trigger: "risk_step re None (trigger_kill_switch re)"

inductive risk_trace :: "RiskEngine \<Rightarrow> RiskRejectReason option list \<Rightarrow> RiskEngine \<Rightarrow> bool" where
  nil: "risk_trace re [] re"
| step: "risk_step re l re' \<Longrightarrow> risk_trace re' ls re'' \<Longrightarrow> risk_trace re (l # ls) re''"

inductive_cases risk_stepE: "risk_step re l re'"
inductive_simps risk_trace_Nil: "risk_trace re [] re'"
inductive_simps risk_trace_Cons: "risk_trace re (l # ls) re'"

subsection \<open>Lemmas\<close>

lemma trigger_kill_switch_simps [simp]:
  "killed (trigger_kill_switch re)" "limits (trigger_kill_switch re) = limits re"
  by (simp_all add: trigger_kill_switch_def)

lemma check_killed [simp]: "killed re \<Longrightarrow> check_pre_trade port req re = Inr (KillSwitch, re)"
  by (simp add: check_pre_trade_def)

lemma check_limits:
  "check_pre_trade port req re = Inr (rr, re') \<Longrightarrow> limits re' = limits re"
  by (auto simp: check_pre_trade_def bind_r_Inr_iff split: if_splits)

lemma check_killed_iff:
  "check_pre_trade port req re = Inr (rr, re') \<Longrightarrow> killed re' \<longleftrightarrow> killed re \<or> rr = MaxLoss"
  by (auto simp: check_pre_trade_def bind_r_Inr_iff split: if_splits)

lemma check_kills:
  "check_pre_trade port req re = Inr (MaxLoss, re') \<Longrightarrow> killed re'"
  "check_pre_trade port req re = Inr (KillSwitch, re') \<Longrightarrow> killed re'"
  by (auto simp: check_pre_trade_def bind_r_Inr_iff split: if_splits)

lemma risk_step_killed: "risk_step re l re' \<Longrightarrow> killed re \<Longrightarrow> killed re' \<and> l \<in> {None, Some KillSwitch}"
  by (auto elim!: risk_stepE)

lemma risk_trace_killed:
  "risk_trace re ls re' \<Longrightarrow> killed re \<Longrightarrow> killed re' \<and> set ls \<subseteq> {None, Some KillSwitch}"
  by (induction rule: risk_trace.induct) (auto dest: risk_step_killed)

lemma risk_trace_limits: "risk_trace re ls re' \<Longrightarrow> limits re' = limits re"
  by (induction rule: risk_trace.induct) (auto elim!: risk_stepE dest: check_limits)

lemma word_of_int_less_unat:
  assumes "0 \<le> a" "a < 2 ^ 64"
  shows "m < (word_of_int a :: 64 word) \<longleftrightarrow> int (unat m) < a"
proof -
  have "uint (word_of_int a :: 64 word) = a"
    using assms by (simp add: uint_word_of_int_eq take_bit_int_eq_self)
  then show ?thesis by (simp add: word_less_def)
qed

text \<open>The order's signed size in unbounded integers.\<close>

definition order_delta :: "OrderRequest \<Rightarrow> int" where
  "order_delta req = (if req_side req = Buy then int (unat (req_qty req)) else - int (unat (req_qty req)))"

lemma expected_pos_eq:
  assumes "in_s64 (net_qty p + order_delta req)"
  shows "expected_pos p req = net_qty p + order_delta req"
proof -
  have "word_of_int (net_qty p) + req_qty req = (word_of_int (net_qty p + int (unat (req_qty req))) :: 64 word)"
    "word_of_int (net_qty p) - req_qty req = (word_of_int (net_qty p - int (unat (req_qty req))) :: 64 word)"
    by simp_all
  then show ?thesis
    using assms by (auto simp: expected_pos_def order_delta_def simp del: of_int_add of_int_diff)
qed

lemma position_breached_iff:
  assumes "position_breached lims (Some pf) req = Inr b" and "0 < max_position_per_symbol lims"
    and "in_s64 (net_qty (positions pf ! unat (req_symbol req)) + order_delta req)"
  shows "b \<longleftrightarrow> int (unat (max_position_per_symbol lims)) <
    \<bar>net_qty (positions pf ! unat (req_symbol req)) + order_delta req\<bar>"
proof -
  let ?e = "net_qty (positions pf ! unat (req_symbol req)) + order_delta req"
  have "b \<longleftrightarrow> max_position_per_symbol lims < word_of_int \<bar>?e\<bar>" and "in_s64 \<bar>?e\<bar>"
    using assms by (auto simp: position_breached_def get_position_def res_simps expected_pos_eq)
  moreover from this(2) have "\<bar>?e\<bar> < 2 ^ 64" by (simp add: in_s64_def)
  ultimately show ?thesis by (simp add: word_of_int_less_unat)
qed

lemma loss_breached_eq:
  assumes "total_pnl pf = Inr t" and "in_s64 (max_loss lims)"
  shows "loss_breached lims (Some pf) = Inr (0 < max_loss lims \<and> t < - max_loss lims)"
proof -
  have "in_s64 (- max_loss lims)" if "0 < max_loss lims"
    using assms(2) that by (simp add: in_s64_def)
  then show ?thesis using assms(1) by (simp add: loss_breached_def checked_in)
qed

lemma position_breached_eq:
  assumes "unat (req_symbol req) < length (positions pf)"
    and "\<bar>net_qty (positions pf ! unat (req_symbol req)) + order_delta req\<bar> < 2 ^ 63"
  shows "position_breached lims (Some pf) req =
    Inr (0 < max_position_per_symbol lims \<and> int (unat (max_position_per_symbol lims)) <
         \<bar>net_qty (positions pf ! unat (req_symbol req)) + order_delta req\<bar>)"
proof -
  have "in_s64 (net_qty (positions pf ! unat (req_symbol req)) + order_delta req)"
    "in_s64 \<bar>net_qty (positions pf ! unat (req_symbol req)) + order_delta req\<bar>"
    using assms(2) by (auto intro: in_s64_abs)
  then show ?thesis using assms
    by (auto simp: position_breached_def get_position_def at_r_def expected_pos_eq word_of_int_less_unat)
qed

lemma risk_trace_append:
  "risk_trace re (as @ bs) re'' \<longleftrightarrow> (\<exists>re'. risk_trace re as re' \<and> risk_trace re' bs re'')"
  by (induction as arbitrary: re) (auto simp: risk_trace_Nil risk_trace_Cons)

subsection \<open>What the checks decide\<close>

text \<open>
  The decision in unbounded integers: the flags in the order of the checks, the profit and the
  position as numbers, a limit of zero switched off.
\<close>

definition pre_trade_spec :: "bool \<Rightarrow> RiskLimits \<Rightarrow> int \<Rightarrow> int \<Rightarrow> OrderRequest \<Rightarrow> RiskRejectReason" where
  "pre_trade_spec k lims pnl net req =
     (if k then KillSwitch
      else if 0 < unat (max_order_size lims) \<and> unat (max_order_size lims) < unat (req_qty req) then MaxOrderSize
      else if 0 < max_loss lims \<and> pnl < - max_loss lims then MaxLoss
      else if 0 < unat (max_position_per_symbol lims) \<and>
        int (unat (max_position_per_symbol lims)) < \<bar>net + order_delta req\<bar> then MaxPosition
      else Reject_None)"

lemma unat_pos_iff: "0 < unat (w :: 64 word) \<longleftrightarrow> 0 < w"
  by (simp add: word_less_nat_alt)

text \<open>An order and limits as in the unit tests, against a fresh portfolio.\<close>

definition test_order :: "Symbol \<Rightarrow> Side \<Rightarrow> Qty \<Rightarrow> OrderRequest" where
  "test_order symb s q =
     \<lparr>req_id = 1, req_client_id = 0, req_symbol = symb, req_side = s, req_type = Market, req_price = 0,
      req_stop_price = 0, req_limit_price = 0, req_qty = q, req_timestamp = 0\<rparr>"

definition test_risk :: RiskEngine where
  "test_risk = RiskEngine_new \<lparr>max_position_per_symbol = 200, max_loss = 1000, max_order_size = 300\<rparr>"

lemma total_pnl_new: "total_pnl (Portfolio_new cfg) = Inr 0"
  unfolding total_pnl_def
  by (rule fold_r_id)
    (simp add: total_pnl_step_def at_r_def positions_Portfolio_new, simp add: Position_default_def)

lemmas test_risk_simps = test_risk_def RiskEngine_new_def test_order_def order_delta_def
  positions_Portfolio_new Position_default_def MAX_SYMBOLS_def total_pnl_new

text \<open>
  C18. On any portfolio whose total profit is defined, an order in a tracked symbol whose
  resulting position fits 64 bits is decided exactly as in unbounded integers: the kill switch
  first, then the order size, the loss limit and the position limit. The only state that
  changes is the kill flag, and only a breached loss limit sets it.
\<close>

theorem check_pre_trade_refines_spec:
  assumes "total_pnl pf = Inr t" and "in_s64 (max_loss (limits re))"
    and "unat (req_symbol req) < length (positions pf)"
    and "\<bar>net_qty (positions pf ! unat (req_symbol req)) + order_delta req\<bar> < 2 ^ 63"
  shows "check_pre_trade (Some pf) req re =
    (let d = pre_trade_spec (is_killed re) (limits re) t
           (net_qty (positions pf ! unat (req_symbol req))) req
     in Inr (d, re\<lparr>killed := killed re \<or> d = MaxLoss\<rparr>))"
  using assms
  by (simp add: check_pre_trade_def pre_trade_spec_def is_killed_def loss_breached_eq
      position_breached_eq unat_pos_iff Let_def flip: word_less_nat_alt)

theorem check_pre_trade_refines_spec_witness:
  "check_pre_trade (Some (Portfolio_new BacktestConfig_default)) (test_order 1 Buy 250) test_risk =
     Inr (MaxPosition, test_risk)"
  using check_pre_trade_refines_spec [of "Portfolio_new BacktestConfig_default" 0 test_risk "test_order 1 Buy 250"]
  by (simp add: test_risk_simps pre_trade_spec_def is_killed_def in_s64_def)

text \<open>
  An approved order satisfies every limit that is switched on, and the approval leaves the
  engine as it was: the quantity is at most the maximal order size, the portfolio's profit is
  not below the loss limit, and if the resulting position fits a signed 64-bit integer its
  absolute value is at most the position limit.
\<close>

theorem approved_order_within_limits:
  assumes ok: "check_pre_trade (Some pf) req re = Inr (Reject_None, re')"
  shows "re' = re \<and> \<not> is_killed re \<and>
    (0 < max_order_size (limits re) \<longrightarrow> req_qty req \<le> max_order_size (limits re)) \<and>
    (0 < max_loss (limits re) \<longrightarrow> (\<exists>t. total_pnl pf = Inr t \<and> - max_loss (limits re) \<le> t)) \<and>
    (0 < max_position_per_symbol (limits re) \<longrightarrow>
     in_s64 (net_qty (positions pf ! unat (req_symbol req)) + order_delta req) \<longrightarrow>
     \<bar>net_qty (positions pf ! unat (req_symbol req)) + order_delta req\<bar>
       \<le> int (unat (max_position_per_symbol (limits re))))"
proof -
  have pos: "position_breached (limits re) (Some pf) req = Inr False"
    and rest: "re' = re" "\<not> killed re"
      "0 < max_order_size (limits re) \<longrightarrow> req_qty req \<le> max_order_size (limits re)"
      "loss_breached (limits re) (Some pf) = Inr False"
    using ok by (auto simp: check_pre_trade_def bind_r_Inr_iff split: if_splits)
  then show ?thesis
    using position_breached_iff [OF pos]
    by (auto simp: loss_breached_def is_killed_def res_simps)
qed

lemma test_order_approved:
  "check_pre_trade (Some (Portfolio_new BacktestConfig_default)) (test_order 1 Sell 150) test_risk =
     Inr (Reject_None, test_risk)"
  using loss_breached_eq [OF total_pnl_new, of "limits test_risk" BacktestConfig_default]
    position_breached_eq [of "test_order 1 Sell 150" "Portfolio_new BacktestConfig_default" "limits test_risk"]
  by (simp add: test_risk_simps check_pre_trade_def in_s64_def)

theorem approved_order_within_limits_witness:
  "req_qty (test_order 1 Sell 150) \<le> max_order_size (limits test_risk)"
  using approved_order_within_limits [OF test_order_approved] by (simp add: test_risk_simps)

text \<open>
  C19. The kill switch latches: in any sequence of checks and manual triggers, after a manual
  trigger or a decision MaxLoss the engine is killed for good and every later check, against
  whatever portfolio and order, answers KillSwitch. The limits never change.
\<close>

theorem kill_switch_latches:
  assumes tr: "risk_trace re (as @ l # bs) re'" and l: "l \<in> {None, Some MaxLoss, Some KillSwitch}"
  shows "is_killed re' \<and> set bs \<subseteq> {None, Some KillSwitch} \<and> limits re' = limits re"
proof -
  from tr obtain r1 r2 where 1: "risk_step r1 l r2" and 2: "risk_trace r2 bs re'"
    by (auto simp: risk_trace_append risk_trace_Cons)
  have "killed r2"
    using 1 l by (auto elim!: risk_stepE dest!: check_kills)
  with 2 risk_trace_killed risk_trace_limits [OF tr] show ?thesis by (auto simp: is_killed_def)
qed

theorem kill_switch_latches_witness:
  "risk_trace test_risk [None, Some KillSwitch] (trigger_kill_switch test_risk) \<and>
   is_killed (trigger_kill_switch test_risk)"
proof -
  have tr: "risk_trace test_risk ([] @ None # [Some KillSwitch]) (trigger_kill_switch test_risk)"
    by (auto simp: risk_trace_Nil risk_trace_Cons intro!: risk_step.trigger
        risk_step.check [where port = None and req = "test_order 1 Buy 10"] exI)
  from kill_switch_latches [OF tr] tr show ?thesis by simp
qed

text \<open>
  C20. With the order-size limit switched off the position check can be passed by wrap-around:
  on a flat position an order to buy \<open>2 ^ 64 - n\<close> is approved for every \<open>n\<close> up to the position
  limit, since the 64-bit sum is \<open>- n\<close>.
\<close>

theorem position_check_wraps:
  assumes "max_order_size (limits re) = 0" "max_loss (limits re) = 0" "\<not> killed re"
    and "unat (req_symbol req) < length (positions pf)"
    and "net_qty (positions pf ! unat (req_symbol req)) = 0"
    and "req_side req = Buy" "req_qty req = - word_of_nat n" "n < 2 ^ 63"
    and "n \<le> unat (max_position_per_symbol (limits re))"
  shows "check_pre_trade (Some pf) req re = Inr (Reject_None, re)"
proof -
  have "expected_pos (positions pf ! unat (req_symbol req)) req = - int n"
  proof -
    have "in_s64 (- int n)" using assms(8) by (simp add: in_s64_def)
    then have "sint (word_of_int (- int n) :: 64 word) = - int n" by (rule sint_word_of_int_s64)
    then show ?thesis using assms by (simp add: expected_pos_def)
  qed
  moreover have "in_s64 (int n)" using assms(8) by (simp add: in_s64_def)
  moreover have "\<not> max_position_per_symbol (limits re) < word_of_int (int n)"
  proof -
    have "max_position_per_symbol (limits re) < word_of_int (int n) \<longleftrightarrow>
        int (unat (max_position_per_symbol (limits re))) < int n"
      by (rule word_of_int_less_unat) (use assms(8) in simp_all)
    with assms(9) show ?thesis by (metis not_le of_nat_less_iff)
  qed
  ultimately show ?thesis using assms
    by (simp add: check_pre_trade_def loss_breached_def position_breached_def get_position_def at_r_def)
qed

theorem position_check_wraps_witness:
  "check_pre_trade (Some (Portfolio_new BacktestConfig_default)) (test_order 1 Buy (2 ^ 64 - 50))
     (RiskEngine_new \<lparr>max_position_per_symbol = 200, max_loss = 0, max_order_size = 0\<rparr>) =
   Inr (Reject_None, RiskEngine_new \<lparr>max_position_per_symbol = 200, max_loss = 0, max_order_size = 0\<rparr>)"
  by (rule position_check_wraps [where n = 50]) (simp_all add: test_risk_simps)

end
