(* ===== verification/Python_Runner.thy ===== *)
theory Python_Runner
  imports Replay Binary_Reader Risk
begin

section \<open>The Python bridge and runner (\<open>bindings/python/module.cpp\<close>)\<close>

text \<open>
  Python strategies override two virtual methods, \<open>on_trade\<close> and \<open>on_tick\<close>. They are Python
  code, so they are a parameter: functions on the Python object's own state \<open>'u\<close>, which is all
  they are given access to (a Python callback that raises an exception or does not return is not
  modelled). \<open>CppBridgeStrategy\<close> forwards to them, and \<open>PythonBacktestRunner\<close> puts the
  components together. The runner copies the configuration for the replay engine, but its portfolio and simulator keep references to
  the object the constructor was given, which belongs to Python: a run reads it as it is then, and a run after it was destroyed
  reads through a dead reference. The declarations that export the classes to Python, and \<open>to_double\<close> of
  UltraLOB, are outside the model; the latter is a parameter.
\<close>

subsection \<open>The bridge\<close>

record 'u PyStrategyBase =
  py_on_trade :: "Nanos \<Rightarrow> Symbol \<Rightarrow> TradeData \<Rightarrow> 'u \<Rightarrow> 'u"
  py_on_tick :: "Nanos \<Rightarrow> Symbol \<Rightarrow> TickData \<Rightarrow> 'u \<Rightarrow> 'u"

text \<open>The virtual methods a Python class does not override.\<close>

definition PyStrategyBase_default :: "'u PyStrategyBase" where
  "PyStrategyBase_default = \<lparr>py_on_trade = (\<lambda>ts symb trade u. u), py_on_tick = (\<lambda>ts symb tick u. u)\<rparr>"

definition bridge_on_trade ::
  "'u PyStrategyBase option \<Rightarrow> Nanos \<Rightarrow> Symbol \<Rightarrow> TradeData \<Rightarrow> ('e, 'u) Strategy \<Rightarrow> ('e, 'u) Strategy res" where
  "bridge_on_trade py_strat ts symb trade st =
     (case py_strat of
        None \<Rightarrow> Inr st
      | Some py \<Rightarrow> Inr (st\<lparr>strat_user := py_on_trade py ts symb trade (strat_user st)\<rparr>))"

definition bridge_on_tick ::
  "'u PyStrategyBase option \<Rightarrow> Nanos \<Rightarrow> Symbol \<Rightarrow> TickData \<Rightarrow> ('e, 'u) Strategy \<Rightarrow> ('e, 'u) Strategy res" where
  "bridge_on_tick py_strat ts symb tick st =
     (case py_strat of
        None \<Rightarrow> Inr st
      | Some py \<Rightarrow> Inr (st\<lparr>strat_user := py_on_tick py ts symb tick (strat_user st)\<rparr>))"

definition CppBridgeStrategy_handlers :: "'u PyStrategyBase option \<Rightarrow> ('e, 'u) Strategy StrategyImpl" where
  "CppBridgeStrategy_handlers py_strat =
     Strategy_handlers\<lparr>on_trade := bridge_on_trade py_strat, on_tick := bridge_on_tick py_strat\<rparr>"

subsection \<open>The runner\<close>

record ('e, 'u) PythonBacktestRunner =
  rn_config :: BacktestConfig
  rn_strat :: "('e, 'u) Strategy"

definition PythonBacktestRunner_new ::
  "('e, 'm) MatchingEngine \<Rightarrow> BacktestConfig \<Rightarrow> 'u \<Rightarrow> ('e, 'u) PythonBacktestRunner" where
  "PythonBacktestRunner_new M cfg u =
     \<lparr>rn_config = cfg,
      rn_strat = \<lparr>strat_sim = Some (ExchangeSimulator_new M cfg (Some (Portfolio_new cfg))), strat_user = u\<rparr>\<rparr>"

datatype 'a outcome = Throws string | Returns 'a

text \<open>What simulator and portfolio see through their references when the object shows \<open>cfg\<close>.\<close>

definition see_config :: "BacktestConfig \<Rightarrow> ('e, 'u) Strategy \<Rightarrow> ('e, 'u) Strategy" where
  "see_config cfg st =
     st\<lparr>strat_sim := map_option (\<lambda>sim. sim\<lparr>sim_config := cfg,
          sim_portfolio := map_option (\<lambda>pf. pf\<lparr>pf_config := cfg\<rparr>) (sim_portfolio sim)\<rparr>) (strat_sim st)\<rparr>"

text \<open>
  The configuration object at the time of the run, \<open>None\<close> when it has been destroyed; \<open>initialize\<close> reads it. A read
  through the dead reference is given as a null dereference.
\<close>

definition runner_run ::
  "(string \<Rightarrow> byte list option) \<Rightarrow> ('e, 'm) MatchingEngine \<Rightarrow> 'u PyStrategyBase option \<Rightarrow> string \<Rightarrow>
   BacktestConfig option \<Rightarrow> ('e, 'u) PythonBacktestRunner \<Rightarrow> ('e, 'u) PythonBacktestRunner outcome res option" where
  "runner_run fs M py_strat data_file arg rn =
     (case reader_open (BinaryReader_impl fs) data_file BinaryReader_new of
        Inl u \<Rightarrow> Some (Inl u)
      | Inr (opened, reader) \<Rightarrow>
          if \<not> opened then Some (Inr (Throws ''Failed to open data file''))
          else case arg of
                 None \<Rightarrow> Some (Inl NullDeref)
               | Some cfg \<Rightarrow>
                   let st = see_config cfg (rn_strat rn);
                       strat = st\<lparr>strat_sim := map_option (initialize M) (strat_sim st)\<rparr>;
                       engine = ReplayEngine_new reader strat (rn_config rn)
                   in map_option (map_r (\<lambda>eng. Returns (rn\<lparr>rn_strat := re_strategy eng\<rparr>)))
                        (run (BinaryReader_impl fs) (CppBridgeStrategy_handlers py_strat) engine))"

definition runner_total_pnl :: "(Price \<Rightarrow> double) \<Rightarrow> ('e, 'u) PythonBacktestRunner \<Rightarrow> double res" where
  "runner_total_pnl to_double rn =
     (case strategy_portfolio (rn_strat rn) of
        None \<Rightarrow> Inl NullDeref
      | Some pf \<Rightarrow> map_r to_double (total_pnl pf))"

subsection \<open>What the bridge does\<close>

text \<open>What a callback does to the Python object, as a plain function.\<close>

fun py_call :: "'u PyStrategyBase \<Rightarrow> callback \<Rightarrow> 'u \<Rightarrow> 'u" where
  "py_call py (Call_payload ts symb (P_Trade d)) u = py_on_trade py ts symb d u"
| "py_call py (Call_payload ts symb (P_Tick d)) u = py_on_tick py ts symb d u"
| "py_call py _ u = u"

definition py_event :: "'u PyStrategyBase option \<Rightarrow> Event \<Rightarrow> 'u \<Rightarrow> 'u" where
  "py_event py_strat e u =
     (case (py_strat, callback_of e) of (Some py, Some cb) \<Rightarrow> py_call py cb u | _ \<Rightarrow> u)"

lemma call_bridge:
  "call (CppBridgeStrategy_handlers py_strat) cb st =
     Inr (case py_strat of None \<Rightarrow> st | Some py \<Rightarrow> st\<lparr>strat_user := py_call py cb (strat_user st)\<rparr>)"
proof (cases cb)
  case (Call_payload ts symb p)
  then show ?thesis
    by (cases p) (simp_all add: CppBridgeStrategy_handlers_def Strategy_handlers_def bridge_on_trade_def
        bridge_on_tick_def split: option.split)
qed (simp_all add: CppBridgeStrategy_handlers_def Strategy_handlers_def split: option.split)

lemma dispatch_bridge:
  "dispatch (CppBridgeStrategy_handlers py_strat) e st = Inr (st\<lparr>strat_user := py_event py_strat e (strat_user st)\<rparr>)"
  by (simp add: dispatch_callback py_event_def call_bridge split: option.split)

lemma dispatches_bridge:
  "fold_r (dispatch (CppBridgeStrategy_handlers py_strat)) es st =
     Inr (st\<lparr>strat_user := fold (py_event py_strat) es (strat_user st)\<rparr>)"
  by (induction es arbitrary: st) (simp_all add: dispatch_bridge)

text \<open>A Python strategy never touches the simulator it was built with.\<close>

interpretation bridge_strategy: safe_strategy "CppBridgeStrategy_handlers py_strat" "\<lambda>st. strat_sim st = sim0"
  for py_strat sim0
  by unfold_locales (auto simp: call_bridge split: option.splits)

lemmas binary_run_replays = data_reader.run_replays [OF binary_reader.data_reader_axioms]

lemma runner_run_opened:
  assumes "fs data_file = Some bs" and "64 \<le> length bs"
  shows "runner_run fs M py_strat data_file (Some cfg) rn =
    Some (Inr (Returns (rn\<lparr>rn_strat := (see_config cfg (rn_strat rn))
      \<lparr>strat_sim := map_option (initialize M) (strat_sim (see_config cfg (rn_strat rn))),
       strat_user := fold (py_event py_strat) (window (rn_config rn) (records bs)) (strat_user (rn_strat rn))\<rparr>\<rparr>)))"
proof -
  have "records bs \<noteq> []" using assms(2) by (simp add: records.simps [of bs])
  with br_open_ok [of fs data_file bs BinaryReader_new] assms(1) obtain rd where
    rd: "br_open fs data_file BinaryReader_new = Inr (True, rd)" "br_invar rd" "br_remaining rd = records bs"
    by auto
  let ?st = "see_config cfg (rn_strat rn)"
  let ?strat = "?st\<lparr>strat_sim := map_option (initialize M) (strat_sim ?st)\<rparr>"
  have user: "strat_user ?st = strat_user (rn_strat rn)" by (simp add: see_config_def)
  let ?eng = "ReplayEngine_new rd ?strat (rn_config rn)"
  obtain rd' where "run (BinaryReader_impl fs) (CppBridgeStrategy_handlers py_strat) ?eng =
      Some (replayed (CppBridgeStrategy_handlers py_strat) (window (rn_config rn) (records bs)) rd' ?eng)"
    using binary_run_replays [of ?eng fs "CppBridgeStrategy_handlers py_strat"] rd
    by (auto simp: ReplayEngine_new_def)
  then show ?thesis
    by (simp add: runner_run_def rd replayed_def dispatches_bridge ReplayEngine_new_def Let_def user)
qed

lemma runner_run_dead:
  assumes "fs data_file = Some bs" and "64 \<le> length bs"
  shows "runner_run fs M py_strat data_file None rn = Some (Inl NullDeref)"
proof -
  have "records bs \<noteq> []" using assms(2) by (simp add: records.simps [of bs])
  with br_open_ok [of fs data_file bs BinaryReader_new] assms(1) show ?thesis by (auto simp: runner_run_def)
qed

lemma runner_run_failed:
  assumes "fs data_file = None \<or> (\<exists>bs. fs data_file = Some bs \<and> length bs < 64)"
  shows "runner_run fs M py_strat data_file arg rn = Some (Inr (Throws ''Failed to open data file''))"
proof (cases "fs data_file")
  case None
  then show ?thesis by (simp add: runner_run_def br_open_def Let_def)
next
  case (Some bs)
  with assms have "records bs = []" by (simp add: records_short)
  with br_open_ok [of fs data_file bs BinaryReader_new, OF Some] show ?thesis
    by (auto simp: runner_run_def)
qed

subsection \<open>Properties\<close>

text \<open>
  C11. The runner end to end: for every file system, matching engine and Python strategy a run ends. If the file is readable and holds at
  least one whole record, and the configuration object the runner was made from still exists, nothing is undefined and the Python object
  has been called, in file order, once for every trade and tick of the time window, with the values stored in the file, and
  for nothing else; the window is that of the configuration the runner copied, the symbols are those the object lists at the time of the
  run. If the object is gone, the run reads through a dead reference. If the file is missing or shorter than one record, the run throws
  \<open>Failed to open data file\<close>. The Python callbacks return.
\<close>

theorem runner_replays_file:
  "runner_run fs M py_strat data_file arg rn =
    (case fs data_file of
       Some bs \<Rightarrow>
         if length bs < 64 then Some (Inr (Throws ''Failed to open data file''))
         else (case arg of
           None \<Rightarrow> Some (Inl NullDeref)
         | Some cfg \<Rightarrow> Some (Inr (Returns (rn\<lparr>rn_strat := (see_config cfg (rn_strat rn))
             \<lparr>strat_sim := map_option (initialize M) (strat_sim (see_config cfg (rn_strat rn))),
              strat_user := fold (py_event py_strat) (window (rn_config rn) (records bs)) (strat_user (rn_strat rn))\<rparr>\<rparr>))))
     | None \<Rightarrow> Some (Inr (Throws ''Failed to open data file'')))"
  by (auto simp: runner_run_opened runner_run_dead runner_run_failed not_less split: option.split)

text \<open>When the object has not changed since the runner was made, the references show what the runner copied.\<close>

lemma see_config_new: "see_config cfg (rn_strat (PythonBacktestRunner_new M cfg u)) = rn_strat (PythonBacktestRunner_new M cfg u)"
  by (simp add: see_config_def PythonBacktestRunner_new_def ExchangeSimulator_new_def Portfolio_new_def)

end
