(* ===== verification/Backtest.thy ===== *)
theory Backtest
  imports Benchmark Csv_Reader Python_Runner
begin

section \<open>A backtest from the data file to the books\<close>

text \<open>
  The composition of the components: a CSV file is opened and replayed through the replay engine and the dispatcher
  into a strategy whose handlers trade only through the three actions of its base class (the relation \<open>acts\<close>); the simulator passes the orders to
  the matching engine and books its reports in the portfolio. The
  locale \<open>acting_strategy\<close> is the contract, and gives \<open>strategy_contract\<close>, on which the replay rests.
\<close>

subsection \<open>Strategies that act through their base class\<close>

definition acts_only ::
  "(ExecutionReport \<Rightarrow> bool) \<Rightarrow> ('e, 'm) MatchingEngine \<Rightarrow> ('e, 'u) Strategy StrategyImpl \<Rightarrow> bool" where
  "acts_only is_fill M h \<longleftrightarrow> (\<forall>cb st st'. call h cb st = Inr st' \<longrightarrow> (\<exists>ops. acts is_fill M st ops st'))"

locale acting_strategy =
  fixes is_fill :: "ExecutionReport \<Rightarrow> bool" and M :: "('e, 'm) MatchingEngine" and h :: "('e, 'u) Strategy StrategyImpl"
  assumes acts_only: "acts_only is_fill M h"

sublocale acting_strategy \<subseteq> strategy_contract h "\<lambda>s. \<exists>ops. acts is_fill M st ops s" for st
  by unfold_locales (use acts_only in \<open>unfold acts_only_def, blast intro: acts_trans\<close>)

context acting_strategy
begin

lemma replay_acts: "fold_r (dispatch h) es st = Inr st' \<Longrightarrow> \<exists>ops. acts is_fill M st ops st'"
  by (erule dispatches_keep) (auto intro: acts.idle)

end

interpretation base_acting: acting_strategy is_fill M Strategy_handlers for is_fill M
  by unfold_locales (auto simp: acts_only_def intro: acts.idle)

interpretation dummy_acting: acting_strategy is_fill M DummyStrategy_handlers for is_fill M
  unfolding DummyStrategy_default by (rule base_acting.acting_strategy_axioms)

interpretation bridge_acting: acting_strategy is_fill M "CppBridgeStrategy_handlers py_strat" for is_fill M py_strat
  by unfold_locales (auto simp: acts_only_def call_bridge intro: acts.intros split: option.splits)

subsection \<open>Matching engines that fill positive quantities\<close>

definition positive_fills :: "(ExecutionReport \<Rightarrow> bool) \<Rightarrow> ('e, 'm) MatchingEngine \<Rightarrow> bool" where
  "positive_fills is_fill M \<longleftrightarrow>
     (\<forall>req e. list_all (\<lambda>r. op_positive is_fill (Exec r)) (snd (me_submit M req e))) \<and>
     (\<forall>symb oid e. list_all (\<lambda>r. op_positive is_fill (Exec r)) (snd (snd (me_cancel M symb oid e)))) \<and>
     (\<forall>symb mreq e. list_all (\<lambda>r. op_positive is_fill (Exec r)) (snd (snd (me_modify M symb mreq e))))"

lemma positive_step:
  assumes "positive_fills is_fill M"
  shows "list_all (op_positive is_fill) (map Exec (snd (engine_step M lat op en)))"
proof -
  obtain e now where en: "en = (e, now)" by (cases en)
  show ?thesis
    using assms unfolding en positive_fills_def
    by (cases op) (auto simp: list_all_iff split: prod.split, metis snd_conv, (metis snd_conv)+)
qed

lemma positive_run:
  "positive_fills is_fill M \<Longrightarrow> list_all (op_positive is_fill) (map Exec (snd (engine_run M lat ops en)))"
proof (induction ops arbitrary: en)
  case (Cons op ops)
  then show ?case
    using positive_step [OF Cons.prems, of lat op en] by (auto simp: split_beta Let_def)
qed simp

text \<open>The books after a strategy has acted on a simulator with a fresh portfolio.\<close>

lemma acts_keeps_books:
  assumes "acts is_fill M st acs st'" and "strat_sim st = Some sim" and "sim_portfolio sim = Some (Portfolio_new cfg)"
    and "positive_fills is_fill M"
  shows "\<exists>ops rpts pf. \<not> list_ex is_advance ops
    \<and> rpts = snd (engine_run M (simulated_latency (sim_config sim)) ops (sim_engine sim, current_time sim))
    \<and> strategy_portfolio st' = Some pf \<and> pf_inv pf
    \<and> (\<forall>i<MAX_SYMBOLS. net_qty (positions pf ! i) = sum_list (map fst (fills is_fill i (map Exec rpts))))
    \<and> cash pf = initial_cash cfg + realized_sum pf - sum_list (map (op_fee is_fill (fee_model cfg)) (map Exec rpts))"
proof -
  obtain ops sim' where ops: "\<not> list_ex is_advance ops" "sim_run is_fill M ops sim = Inr sim'" "strat_sim st' = Some sim'"
    using acts_sim_run [OF assms(1,2)] by blast
  obtain e now rpts where er:
      "engine_run M (simulated_latency (sim_config sim)) ops (sim_engine sim, current_time sim) = ((e, now), rpts)"
    by (metis prod.exhaust)
  have pos: "list_all (op_positive is_fill) (map Exec rpts)"
    using positive_run [OF assms(4)] er by (metis snd_conv)
  obtain pf where run: "pf_run is_fill (map Exec rpts) (Portfolio_new cfg) = Inr pf" and "sim_portfolio sim' = Some pf"
    using ops(2) unfolding sim_run_Inr_iff [OF assms(3) er] by auto
  then show ?thesis
    using ops(1,3) er pf_run_inv [OF run pos pf_inv_new] pf_run_cash [OF run pos] pf_run_net [OF run pos]
    by (intro exI [of _ ops] exI [of _ rpts] exI [of _ pf]) (simp add: strategy_portfolio_def realized_sum_new)
qed

lemmas csv_run_replays = data_reader.run_replays [OF csv_reader.data_reader_axioms]

subsection \<open>Properties\<close>

text \<open>
  C2. A backtest over a CSV file ends and keeps its books. For every readable file, every window and every strategy
  that trades only through the actions of its base class, on a simulator with a fresh portfolio and a matching engine whose fills have
  positive quantities: the run ends; its behaviour is undefined only if that of a handler is, called with the events of the window; and otherwise it has counted exactly the events of the
  window that the lines of the file behind the first decode to, and the portfolio the strategy sees satisfies its
  invariant, every net position is the sum of the signed fills the matching engine reported for its symbol to the orders of the run,
  and the cash is the initial cash plus realized profit minus the fees of these fills.
\<close>

theorem csv_backtest_keeps_books:
  assumes "fs path = Some content" and "evs = fst (decode_lines fd (tl (csv_lines content)) (cr_mapper r))"
    and "acts_only is_fill M h" and "positive_fills is_fill M"
    and "strat_sim st = Some sim" and "sim_portfolio sim = Some (Portfolio_new cfg)"
  shows "\<exists>r1 out. reader_open (CsvReader_impl fd fs) path r = Inr (evs \<noteq> [], r1)
    \<and> run (CsvReader_impl fd fs) h (ReplayEngine_new r1 st cfg) = Some out
    \<and> (\<forall>e. out = Inl e \<longleftrightarrow> fold_r (dispatch h) (window cfg evs) st = Inl e)
    \<and> (\<forall>eng. out = Inr eng \<longrightarrow>
         events_processed eng = word_of_nat (length (window cfg evs)) \<and>
         (\<exists>ops rpts pf. \<not> list_ex is_advance ops
            \<and> rpts = snd (engine_run M (simulated_latency (sim_config sim)) ops (sim_engine sim, current_time sim))
            \<and> strategy_portfolio (re_strategy eng) = Some pf \<and> pf_inv pf
            \<and> (\<forall>i<MAX_SYMBOLS. net_qty (positions pf ! i) = sum_list (map fst (fills is_fill i (map Exec rpts))))
            \<and> cash pf = initial_cash cfg + realized_sum pf -
                sum_list (map (op_fee is_fill (fee_model cfg)) (map Exec rpts))))"
proof -
  obtain r1 where r1: "cr_open fd fs path r = Inr (evs \<noteq> [], r1)" "cr_invar fd r1" "cr_remaining fd r1 = evs"
    using cr_open_ok [of fs path content fd r] assms(1,2) by auto
  let ?eng = "ReplayEngine_new r1 st cfg"
  obtain rd where run: "run (CsvReader_impl fd fs) h ?eng = Some (replayed h (window cfg evs) rd ?eng)"
    using csv_run_replays [of fd ?eng fs h] r1(2,3) by (auto simp: ReplayEngine_new_def)
  have books: "\<exists>ops rpts pf. \<not> list_ex is_advance ops
      \<and> rpts = snd (engine_run M (simulated_latency (sim_config sim)) ops (sim_engine sim, current_time sim))
      \<and> strategy_portfolio st' = Some pf \<and> pf_inv pf
      \<and> (\<forall>i<MAX_SYMBOLS. net_qty (positions pf ! i) = sum_list (map fst (fills is_fill i (map Exec rpts))))
      \<and> cash pf = initial_cash cfg + realized_sum pf - sum_list (map (op_fee is_fill (fee_model cfg)) (map Exec rpts))"
    if "fold_r (dispatch h) (window cfg evs) st = Inr st'" for st'
    using acts_keeps_books [OF _ assms(5,6,4)] acting_strategy.replay_acts [OF acting_strategy.intro [OF assms(3)] that] by blast
  show ?thesis
    using r1(1) run books
    by (intro exI [of _ r1] exI [of _ "replayed h (window cfg evs) rd ?eng"] conjI)
      (simp_all add: replayed_def ReplayEngine_new_def map_r_Inl_iff, auto simp: res_simps simp del: map_map)
qed

text \<open>A strategy that buys on every trade, and an engine that fills orders of a positive quantity.\<close>

definition fill_positive :: "(Symbol list, unit) MatchingEngine" where
  "fill_positive = fill_all\<lparr>me_submit := (\<lambda>req e. (e, if 0 < sint (req_qty req) then [fill_report req] else []))\<rparr>"

definition buy_on_trade :: "(Symbol list, unit) Strategy StrategyImpl" where
  "buy_on_trade = Strategy_handlers
     \<lparr>on_trade := (\<lambda>ts symb d st. Strategy_send_order test_is_fill fill_positive (test_buy symb 10 100) st)\<rparr>"

lemma buy_on_trade_acts:
  "acts_only test_is_fill fill_positive buy_on_trade"
  unfolding acts_only_def
proof (intro allI impI)
  fix cb st st' assume c: "call buy_on_trade cb st = Inr st'"
  show "\<exists>ops. acts test_is_fill fill_positive st ops st'"
    using c
    by (induction buy_on_trade cb rule: call.induct)
      (auto simp: buy_on_trade_def Strategy_handlers_def intro: acts.intros)
qed

lemma buy_on_trade_defined:
  "\<exists>st'. fold_r (dispatch buy_on_trade) [make_trade 5 1 9 7 Sell] \<lparr>strat_sim = Some test_sim, strat_user = ()\<rparr> = Inr st'"
proof -
  let ?ops = "[Submit (test_buy 1 10 100)] :: unit sim_op list"
  have er: "engine_run fill_positive (simulated_latency (sim_config test_sim)) ?ops (sim_engine test_sim, current_time test_sim) =
      ((sim_engine test_sim, 0), [fill_report (stamp 5 0 (test_buy 1 10 100))])"
    by (simp add: test_sim_simps fill_positive_def stamp_def test_buy_def)
  have "\<exists>pf. pf_run test_is_fill (map Exec [fill_report (stamp 5 0 (test_buy 1 10 100))]) (Portfolio_new test_config) = Inr pf"
    by (rule pf_run_new_defined [of _ "10 ^ 11" 1000])
      (simp_all add: fill_report_def stamp_def test_buy_def MAX_SYMBOLS_def test_sim_simps FeeModel_default_def fee_bound_def PRICE_SCALE_def)
  then obtain sim' where "sim_run test_is_fill fill_positive ?ops test_sim = Inr sim'"
    unfolding sim_run_Inr_iff [OF test_sim_simps(3) er] by (auto simp: test_sim_simps stamp_def test_buy_def in_s64_def)
  then have "submit_order test_is_fill fill_positive (test_buy 1 10 100) test_sim = Inr sim'"
    by (simp add: sim_run_def)
  then show ?thesis
    by (simp add: dispatch_def buy_on_trade_def Strategy_send_order_def)
qed

theorem csv_backtest_keeps_books_witness:
  "\<exists>r1 eng pf. reader_open (CsvReader_impl (\<lambda>_. 9) (\<lambda>_. Some test_text)) ''day.csv'' (CsvReader_new (Some SymbolMapper_new)) = Inr (True, r1)
    \<and> run (CsvReader_impl (\<lambda>_. 9) (\<lambda>_. Some test_text)) buy_on_trade
        (ReplayEngine_new r1 \<lparr>strat_sim = Some test_sim, strat_user = ()\<rparr> test_config) = Some (Inr eng)
    \<and> events_processed eng = 1 \<and> strategy_portfolio (re_strategy eng) = Some pf \<and> pf_inv pf"
proof -
  have evs: "fst (decode_lines (\<lambda>_. 9) (tl (csv_lines test_text)) (Some SymbolMapper_new)) = [make_trade 5 1 9 7 Sell]"
    using decode_csv_line [OF _ _ _ from_chars_double_0 get_or_create_new, of 5 "''A''" Sell "\<lambda>_. 9" 7]
    by (simp add: test_text_lines in_s64_def)
  have pos: "positive_fills test_is_fill fill_positive"
    by (simp add: positive_fills_def fill_positive_def fill_all_def fill_report_def)
  have win: "window test_config [make_trade 5 1 9 7 Sell] = [make_trade 5 1 9 7 Sell]"
    by (rule window_all) (simp_all add: test_config_def BacktestConfig_default_def)
  let ?st = "\<lparr>strat_sim = Some test_sim, strat_user = ()\<rparr>"
  obtain st' where st': "fold_r (dispatch buy_on_trade) [make_trade 5 1 9 7 Sell] ?st = Inr st'" using buy_on_trade_defined by blast
  have "out \<noteq> Inl e" if "\<forall>e. out = Inl e \<longleftrightarrow> fold_r (dispatch buy_on_trade) [make_trade 5 1 9 7 Sell] ?st = Inl e"
    for out :: "(CsvReader, (Symbol list, unit) Strategy) ReplayEngine res" and e
    using that st' by simp
  then have ok: "\<exists>eng. out = Inr eng" if "\<forall>e. out = Inl e \<longleftrightarrow> fold_r (dispatch buy_on_trade) [make_trade 5 1 9 7 Sell] ?st = Inl e"
    for out :: "(CsvReader, (Symbol list, unit) Strategy) ReplayEngine res"
    using that by (cases out) blast+
  show ?thesis
    using csv_backtest_keeps_books [of "\<lambda>_. Some test_text" "''day.csv''" test_text "[make_trade 5 1 9 7 Sell]" "\<lambda>_. 9"
        "CsvReader_new (Some SymbolMapper_new)", OF _ _ buy_on_trade_acts pos _ test_sim_simps(3), of ?st] evs win
    by (auto simp: CsvReader_new_def simp del: fold_r.simps dest!: ok)
qed

end
