(* ===== verification/Performance.thy ===== *)
theory Performance
  imports Portfolio_Runs
begin

section \<open>Performance analytics and report (\<open>analytics/performance.hpp\<close>, \<open>performance.cpp\<close>, \<open>analytics/report.hpp\<close>)\<close>

text \<open>
  The metrics of an equity curve in binary64 arithmetic, operation by operation. \<open>to_double\<close> of
  UltraLOB, \<open>std::pow\<close>, whose rounding no standard fixes, and the formatting of a \<open>double\<close> with
  two decimals by the fmt library are parameters. The count of returns is a \<open>size_t\<close>.
\<close>

subsection \<open>State and operations\<close>

record PerformanceAnalytics =
  initial_equity :: double
  last_equity :: double
  peak_equity :: double
  max_dd :: double
  max_dd_pct :: double
  ret_count :: "64 word"
  mean_return :: double
  m2 :: double

definition PerformanceAnalytics_new :: PerformanceAnalytics where
  "PerformanceAnalytics_new =
     \<lparr>initial_equity = Fin True 1, last_equity = Fin False 0, peak_equity = Fin False 0, max_dd = Fin False 0,
      max_dd_pct = Fin False 0, ret_count = 0, mean_return = Fin False 0, m2 = Fin False 0\<rparr>"

definition zero_d :: double where
  "zero_d = Fin False 0"

text \<open>The three parts of \<open>update\<close>: the first call, the drawdown, and Welford's step.\<close>

definition update_drawdown :: "double \<Rightarrow> PerformanceAnalytics \<Rightarrow> PerformanceAnalytics" where
  "update_drawdown equity p =
     (if dlt (peak_equity p) equity then p\<lparr>peak_equity := equity\<rparr>
      else
        let dd = dsub (peak_equity p) equity;
            dd_pct = ddiv dd (peak_equity p);
            p = (if dlt (max_dd p) dd then p\<lparr>max_dd := dd\<rparr> else p)
        in if dlt (max_dd_pct p) dd_pct then p\<lparr>max_dd_pct := dd_pct\<rparr> else p)"

definition update_returns :: "double \<Rightarrow> PerformanceAnalytics \<Rightarrow> PerformanceAnalytics" where
  "update_returns equity p =
     (if dlt zero_d (last_equity p) then
        let ret = ddiv (dsub equity (last_equity p)) (last_equity p);
            n = ret_count p + 1;
            delta = dsub ret (mean_return p);
            mean = dadd (mean_return p) (ddiv delta (of_int_d (uint n)));
            delta2 = dsub ret mean
        in p\<lparr>ret_count := n, mean_return := mean, m2 := dadd (m2 p) (dmul delta delta2)\<rparr>
      else p)"

definition update_equity :: "double \<Rightarrow> PerformanceAnalytics \<Rightarrow> PerformanceAnalytics" where
  "update_equity equity p =
     (if dlt (initial_equity p) zero_d
      then p\<lparr>initial_equity := equity, last_equity := equity, peak_equity := equity\<rparr>
      else (update_returns equity (update_drawdown equity p))\<lparr>last_equity := equity\<rparr>)"

definition perf_update :: "(Price \<Rightarrow> double) \<Rightarrow> Nanos \<Rightarrow> Portfolio \<Rightarrow> PerformanceAnalytics \<Rightarrow> PerformanceAnalytics res" where
  "perf_update to_double ts port p = map_r (\<lambda>v. update_equity (to_double v) p) (total_equity port)"

definition sharpe_ratio :: "double \<Rightarrow> PerformanceAnalytics \<Rightarrow> double" where
  "sharpe_ratio risk_free_rate p =
     (if ret_count p < 2 \<or> deq (m2 p) zero_d then zero_d
      else
        let variance = ddiv (m2 p) (of_int_d (uint (ret_count p - 1)));
            stddev = dsqrt variance
        in ddiv (dsub (mean_return p) risk_free_rate) stddev)"

definition total_return :: "PerformanceAnalytics \<Rightarrow> double" where
  "total_return p =
     (if dle (initial_equity p) zero_d then zero_d
      else ddiv (dsub (last_equity p) (initial_equity p)) (initial_equity p))"

definition nanos_per_year :: double where
  "nanos_per_year = dmul (dmul (dmul (dmul (round_d 365.25) (of_int_d 24)) (of_int_d 60)) (of_int_d 60)) (of_int_d 1000000000)"

definition annualized_return :: "(double \<Rightarrow> double \<Rightarrow> double) \<Rightarrow> Nanos \<Rightarrow> PerformanceAnalytics \<Rightarrow> double" where
  "annualized_return pow duration_ns p =
     (if duration_ns = 0 \<or> dle (initial_equity p) zero_d then zero_d
      else
        let years = ddiv (of_int_d duration_ns) nanos_per_year
        in if dle years zero_d then zero_d
           else dsub (pow (ddiv (last_equity p) (initial_equity p)) (ddiv (of_int_d 1) years)) (of_int_d 1))"

text \<open>The console summary; its rules are forty box-drawing characters in UTF-8.\<close>

definition report_rule :: string where
  "report_rule = concat (replicate 40 [CHR 0xE2, CHR 0x94, CHR 0x80]) @ [CHR 0x0A]"

definition generate_console_summary ::
  "(double \<Rightarrow> double \<Rightarrow> double) \<Rightarrow> (double \<Rightarrow> string) \<Rightarrow> PerformanceAnalytics \<Rightarrow> Nanos \<Rightarrow> string" where
  "generate_console_summary pow fmt_2f perf duration_ns =
     (let ret_pct = dmul (total_return perf) (of_int_d 100);
          ann_ret = dmul (annualized_return pow duration_ns perf) (of_int_d 100);
          dd_pct = dmul (max_dd_pct perf) (of_int_d 100);
          sharpe = sharpe_ratio zero_d perf
      in report_rule @ ''         UltraBacktest Results          '' @ [CHR 0x0A] @ report_rule @
         ''Total Return:       '' @ fmt_2f ret_pct @ ''%'' @ [CHR 0x0A] @
         ''Annualized Return:  '' @ fmt_2f ann_ret @ ''%'' @ [CHR 0x0A] @
         ''Max Drawdown:       '' @ fmt_2f dd_pct @ ''%'' @ [CHR 0x0A] @
         ''Sharpe Ratio:       '' @ fmt_2f sharpe @ [CHR 0x0A] @ report_rule)"

subsection \<open>The drawdown of an equity curve\<close>

text \<open>The largest fall of the curve below its highest point so far.\<close>

definition drawdown :: "real list \<Rightarrow> real" where
  "drawdown xs = Max ((\<lambda>j. Max (set (take (Suc j) xs)) - xs ! j) ` {..<length xs})"

lemma drawdown_single [simp]: "drawdown [x] = 0"
  by (simp add: drawdown_def lessThan_Suc)

lemma drawdown_snoc:
  assumes "xs \<noteq> []"
  shows "drawdown (xs @ [y]) = max (drawdown xs) (Max (set (xs @ [y])) - y)"
proof -
  let ?f = "\<lambda>zs j. Max (set (take (Suc j) zs)) - zs ! j"
  have "?f (xs @ [y]) ` {..<length xs} = ?f xs ` {..<length xs}"
    by (rule image_cong) (auto simp: nth_append)
  then have "drawdown (xs @ [y]) = Max (insert (?f (xs @ [y]) (length xs)) (?f xs ` {..<length xs}))"
    by (simp add: drawdown_def lessThan_Suc)
  also have "\<dots> = max (?f (xs @ [y]) (length xs)) (drawdown xs)"
    unfolding drawdown_def using assms by (intro Max_insert) auto
  finally show ?thesis by (simp add: max.commute)
qed

text \<open>Every fall of the curve is within its drawdown, and the drawdown is one of them.\<close>

lemma drawdown_upper:
  assumes "i \<le> j" and "j < length xs"
  shows "xs ! i - xs ! j \<le> drawdown xs"
proof -
  have "xs ! i \<in> set (take (Suc j) xs)" using assms by (auto simp: in_set_conv_nth intro!: exI [of _ i])
  then have "xs ! i \<le> Max (set (take (Suc j) xs))" by simp
  moreover have "Max (set (take (Suc j) xs)) - xs ! j \<le> drawdown xs"
    unfolding drawdown_def using assms by (intro Max_ge) auto
  ultimately show ?thesis by linarith
qed

lemma drawdown_attained:
  assumes "xs \<noteq> []"
  shows "\<exists>i j. i \<le> j \<and> j < length xs \<and> drawdown xs = xs ! i - xs ! j"
proof -
  have "drawdown xs \<in> (\<lambda>j. Max (set (take (Suc j) xs)) - xs ! j) ` {..<length xs}"
    unfolding drawdown_def using assms by (intro Max_in) auto
  then obtain j where j: "j < length xs" "drawdown xs = Max (set (take (Suc j) xs)) - xs ! j" by auto
  have "Max (set (take (Suc j) xs)) \<in> set (take (Suc j) xs)" using assms by (intro Max_in) auto
  then obtain i where "i \<le> j" "Max (set (take (Suc j) xs)) = xs ! i"
    by (auto simp: in_set_conv_nth less_Suc_eq_le)
  with j show ?thesis by auto
qed

lemma drawdown_nonneg: "xs \<noteq> [] \<Longrightarrow> 0 \<le> drawdown xs"
  using drawdown_upper [of 0 0 xs] by simp

subsection \<open>Tracking the drawdown\<close>

lemma round_d_less:
  assumes "0 \<le> a" "0 \<le> b"
  shows "dlt (round_d a) (round_d b) \<Longrightarrow> a < b"
  using assms rnd_mag_mono [of b a] by (cases "b \<le> a") (auto simp: round_d_def Let_def split: if_splits)

lemma round_d_max:
  assumes "0 \<le> a" "0 \<le> b"
  shows "(if dlt (round_d a) (round_d b) then round_d b else round_d a) = round_d (max a b)"
proof (cases "a \<le> b")
  case True
  then show ?thesis using assms rnd_mag_mono [OF assms(1) True]
    by (auto simp: round_d_def Let_def max_def)
next
  case False
  then show ?thesis using round_d_less [OF assms] by (auto simp: max_def)
qed

lemma dsub_fin:
  assumes "is_fin x" "is_fin y" "dval y \<le> dval x"
  shows "dval x = dval y \<and> (\<exists>s. dsub x y = Fin s 0) \<or> dval y < dval x \<and> dsub x y = round_d (dval x - dval y)"
  using assms by (cases x; cases y) (auto simp: dsub_def Let_def)

lemma dlt_fin: "is_fin x \<Longrightarrow> is_fin y \<Longrightarrow> dlt x y \<longleftrightarrow> dval x < dval y"
  by (cases x; cases y) auto

lemma dlt_round_zero: "\<not> dlt (round_d a) (Fin s 0)" if "0 \<le> a"
  using that rnd_mag_nonneg [of a] by (auto simp: round_d_def Let_def)

definition tracks :: "double list \<Rightarrow> PerformanceAnalytics \<Rightarrow> bool" where
  "tracks es p \<longleftrightarrow> initial_equity p = hd es \<and> last_equity p = last es \<and> is_fin (peak_equity p) \<and>
     dval (peak_equity p) = Max (dval ` set es) \<and> max_dd p = round_d (drawdown (map dval es))"

lemma update_returns_frame [simp]:
  "initial_equity (update_returns e p) = initial_equity p" "peak_equity (update_returns e p) = peak_equity p"
  "max_dd (update_returns e p) = max_dd p" "max_dd_pct (update_returns e p) = max_dd_pct p"
  by (simp_all add: update_returns_def Let_def)

lemma update_drawdown_frame [simp]: "initial_equity (update_drawdown e p) = initial_equity p"
  by (simp add: update_drawdown_def Let_def)

lemma update_drawdown_peak:
  "peak_equity (update_drawdown e p) = (if dlt (peak_equity p) e then e else peak_equity p)"
  "max_dd (update_drawdown e p) =
     (if \<not> dlt (peak_equity p) e \<and> dlt (max_dd p) (dsub (peak_equity p) e) then dsub (peak_equity p) e else max_dd p)"
  by (simp_all add: update_drawdown_def Let_def)

lemma tracks_update:
  assumes tr: "tracks es p" and ne: "es \<noteq> []" and fin: "is_fin e" and init: "is_fin (hd es)" "0 \<le> dval (hd es)"
  shows "tracks (es @ [e]) (update_equity e p)"
proof -
  let ?D = "drawdown (map dval es)" and ?P = "peak_equity p"
  let ?v = "max (dval ?P) (dval e) - dval e"
  have D: "0 \<le> ?D" using ne by (simp add: drawdown_nonneg)
  have Mx: "Max (dval ` set (es @ [e])) = max (dval ?P) (dval e)"
    using tr ne by (simp add: tracks_def max.commute)
  have dd: "drawdown (map dval (es @ [e])) = max ?D ?v"
    using ne Mx by (simp add: drawdown_snoc)
  have "\<not> dlt (initial_equity p) zero_d"
    using tr init by (simp add: tracks_def zero_d_def dlt_fin)
  then have u: "update_equity e p = (update_returns e (update_drawdown e p))\<lparr>last_equity := e\<rparr>"
    by (simp add: update_equity_def)
  have lt: "dlt ?P e \<longleftrightarrow> dval ?P < dval e" using tr fin by (simp add: tracks_def dlt_fin)
  have "max_dd (update_drawdown e p) = round_d (max ?D ?v)"
  proof (cases "dval ?P < dval e")
    case True
    then show ?thesis using lt tr D by (simp add: update_drawdown_peak tracks_def max_def)
  next
    case False
    then have "?v = dval ?P - dval e" by simp
    moreover have "dval ?P = dval e \<and> (\<exists>s. dsub ?P e = Fin s 0) \<or>
        dval e < dval ?P \<and> dsub ?P e = round_d (dval ?P - dval e)"
      using dsub_fin [of ?P e] tr fin False by (auto simp: tracks_def)
    ultimately show ?thesis
      using lt False tr D dlt_round_zero [OF D] round_d_max [OF D, of ?v]
      by (auto simp: update_drawdown_peak tracks_def max_def)
  qed
  moreover have "is_fin (peak_equity (update_drawdown e p)) \<and>
      dval (peak_equity (update_drawdown e p)) = max (dval ?P) (dval e)"
    using tr fin lt by (auto simp: update_drawdown_peak tracks_def)
  ultimately show ?thesis
    using tr ne dd Mx u by (simp add: tracks_def del: set_append map_append)
qed

lemma tracks_run:
  assumes "list_all is_fin es" and "is_fin e0" and "0 \<le> dval e0"
  shows "tracks (e0 # es) (fold update_equity (e0 # es) PerformanceAnalytics_new)"
  using assms(1)
proof (induction es rule: rev_induct)
  case Nil
  then show ?case using assms(2)
    by (simp add: tracks_def update_equity_def PerformanceAnalytics_new_def zero_d_def round_d_0)
next
  case (snoc e es)
  then show ?case using tracks_update [of "e0 # es" _ e] assms(2,3) by simp
qed

text \<open>A curve that starts below zero: the first branch of the update is taken every time.\<close>

lemma dlt_zero: "is_fin e \<Longrightarrow> dlt e zero_d \<longleftrightarrow> dval e < 0"
  by (simp add: zero_d_def dlt_fin)

lemma negative_run:
  assumes "list_all (\<lambda>e. is_fin e \<and> dval e < 0) es" and "es \<noteq> []"
  shows "fold update_equity es PerformanceAnalytics_new =
    PerformanceAnalytics_new\<lparr>initial_equity := last es, last_equity := last es, peak_equity := last es\<rparr>"
  using assms
proof (induction es rule: rev_induct)
  case (snoc e es)
  have new: "dlt (initial_equity PerformanceAnalytics_new) zero_d"
    by (simp add: PerformanceAnalytics_new_def dlt_zero)
  show ?case
  proof (cases "es = []")
    case True
    with new show ?thesis by (simp add: update_equity_def)
  next
    case False
    with snoc have "dlt (last es) zero_d" by (auto simp: list_all_iff dlt_zero)
    with snoc False show ?thesis by (simp add: update_equity_def)
  qed
qed simp

subsection \<open>Properties\<close>

text \<open>
  C16. The tracked maximal drawdown is the exact one, rounded once: over any sequence of finite
  equities of which the first is not negative, \<open>max_drawdown\<close> is the largest fall of the curve
  below its running peak, computed in real numbers and rounded to the nearest \<open>double\<close>, although the
  code compares and keeps rounded falls; the peak is the exact maximum, and the first and last
  equities are kept as they are.
\<close>

theorem max_drawdown_correctly_rounded:
  assumes "list_all is_fin es" and "is_fin e0" and "0 \<le> dval e0"
    and "p = fold update_equity (e0 # es) PerformanceAnalytics_new"
  shows "max_dd p = round_d (drawdown (map dval (e0 # es))) \<and> dval (peak_equity p) = Max (dval ` set (e0 # es)) \<and>
    initial_equity p = e0 \<and> last_equity p = last (e0 # es)"
  using tracks_run [OF assms(1-3)] assms(4) by (simp add: tracks_def)

theorem max_drawdown_correctly_rounded_witness:
  "max_dd (fold update_equity [Fin False 2, Fin False 1] PerformanceAnalytics_new) = round_d 1"
  using max_drawdown_correctly_rounded [of "[Fin False 1]" "Fin False 2", OF _ _ _ refl]
    drawdown_snoc [of "[2]" 1]
  by simp

text \<open>
  Losses that start below zero are never recorded: -1 stands for "no equity yet", and any
  negative equity is taken for it, so while the equity stays negative every update starts over:
  the drawdown, the count of returns and the total return stay 0 however far the equity falls.
\<close>

theorem negative_equity_never_tracked:
  assumes "list_all (\<lambda>e. is_fin e \<and> dval e < 0) es" and "es \<noteq> []"
    and "p = fold update_equity es PerformanceAnalytics_new"
  shows "max_dd p = zero_d \<and> max_dd_pct p = zero_d \<and> ret_count p = 0 \<and> total_return p = zero_d \<and>
    sharpe_ratio r p = zero_d"
proof -
  have "dlt (last es) zero_d" using assms(1,2) by (auto simp: list_all_iff dlt_zero)
  then show ?thesis
    using negative_run [OF assms(1,2)] assms(3)
    by (simp add: PerformanceAnalytics_new_def zero_d_def total_return_def sharpe_ratio_def dle_def)
qed

theorem negative_equity_never_tracked_witness:
  "max_dd (fold update_equity [Fin True 1, Fin True 100] PerformanceAnalytics_new) = zero_d"
  using negative_equity_never_tracked [of "[Fin True 1, Fin True 100]", OF _ _ refl] by simp

end
