(* ===== verification/Log_Base.thy ===== *)
theory Log_Base
  imports Decimal
begin

section \<open>Logging: levels, messages, padding (spdlog)\<close>

text \<open>
  The parts of the bundled logging library on which its pattern formatter rests: the levels and
  their names (\<open>common.h\<close>, \<open>common-inl.h\<close>), a log message (\<open>details/log_msg.h\<close>), the helpers that
  append padded numbers to a buffer (\<open>details/fmt_helper.h\<close>) and the padder that aligns or
  truncates what is written during its lifetime (\<open>pattern_formatter.h\<close>, \<open>pattern_formatter-inl.h\<close>).
  A buffer is a string that grows at its end. A time point counts nanoseconds since the epoch, and
  \<open>duration_cast\<close> truncates towards zero.
\<close>

subsection \<open>Levels\<close>

datatype level_enum = Lv_trace | Lv_debug | Lv_info | Lv_warn | Lv_err | Lv_critical | Lv_off | Lv_n_levels

fun level_code :: "level_enum \<Rightarrow> nat" where
  "level_code Lv_trace = 0"
| "level_code Lv_debug = 1"
| "level_code Lv_info = 2"
| "level_code Lv_warn = 3"
| "level_code Lv_err = 4"
| "level_code Lv_critical = 5"
| "level_code Lv_off = 6"
| "level_code Lv_n_levels = 7"

definition level_of_code :: "nat \<Rightarrow> level_enum" where
  "level_of_code n = [Lv_trace, Lv_debug, Lv_info, Lv_warn, Lv_err, Lv_critical, Lv_off, Lv_n_levels] ! n"

definition level_string_views :: "string list" where
  "level_string_views = [''trace'', ''debug'', ''info'', ''warning'', ''error'', ''critical'', ''off'']"

definition short_level_names :: "string list" where
  "short_level_names = [''T'', ''D'', ''I'', ''W'', ''E'', ''C'', ''O'']"

definition level_to_string_view :: "level_enum \<Rightarrow> string res" where
  "level_to_string_view l = at_r level_string_views (level_code l)"

definition to_short_c_str :: "level_enum \<Rightarrow> string res" where
  "to_short_c_str l = at_r short_level_names (level_code l)"

fun find_index :: "'a \<Rightarrow> 'a list \<Rightarrow> nat" where
  "find_index x [] = 0"
| "find_index x (y # ys) = (if x = y then 0 else Suc (find_index x ys))"

definition level_from_str :: "string \<Rightarrow> level_enum" where
  "level_from_str name =
     (let it = find_index name level_string_views
      in if it \<noteq> length level_string_views then level_of_code it
         else if name = ''warn'' then Lv_warn
         else if name = ''err'' then Lv_err
         else Lv_off)"

subsection \<open>Messages\<close>

text \<open>The file and function names of a location are C strings, \<open>None\<close> for a null pointer.\<close>

record source_loc =
  filename :: "string option"
  line :: int
  funcname :: "string option"

definition c_str :: "string option \<Rightarrow> string res" where
  "c_str p = (case p of Some s \<Rightarrow> Inr s | None \<Rightarrow> Inl NullDeref)"

definition source_empty :: "source_loc \<Rightarrow> bool" where
  "source_empty loc \<longleftrightarrow> line loc \<le> 0"

record log_msg =
  logger_name :: string
  msg_level :: level_enum
  time :: int
  thread_id :: nat
  color_range_start :: nat
  color_range_end :: nat
  msg_source :: source_loc
  payload :: string

text \<open>The constructors take the time and the thread of the caller from the operating system.\<close>

definition log_msg_at :: "nat \<Rightarrow> int \<Rightarrow> source_loc \<Rightarrow> string \<Rightarrow> level_enum \<Rightarrow> string \<Rightarrow> log_msg" where
  "log_msg_at tid log_time loc a_logger_name lvl msg =
     \<lparr>logger_name = a_logger_name, msg_level = lvl, time = log_time, thread_id = tid,
      color_range_start = 0, color_range_end = 0, msg_source = loc, payload = msg\<rparr>"

definition log_msg_loc :: "nat \<Rightarrow> int \<Rightarrow> source_loc \<Rightarrow> string \<Rightarrow> level_enum \<Rightarrow> string \<Rightarrow> log_msg" where
  "log_msg_loc tid now loc a_logger_name lvl msg = log_msg_at tid now loc a_logger_name lvl msg"

definition source_loc_default :: source_loc where
  "source_loc_default = \<lparr>filename = None, line = 0, funcname = None\<rparr>"

definition log_msg_plain :: "nat \<Rightarrow> int \<Rightarrow> string \<Rightarrow> level_enum \<Rightarrow> string \<Rightarrow> log_msg" where
  "log_msg_plain tid now a_logger_name lvl msg = log_msg_at tid now source_loc_default a_logger_name lvl msg"

record tm =
  tm_sec :: int
  tm_min :: int
  tm_hour :: int
  tm_mday :: int
  tm_mon :: int
  tm_year :: int
  tm_wday :: int

subsection \<open>Appending numbers\<close>

type_synonym memory_buf = string

definition append_string_view :: "string \<Rightarrow> memory_buf \<Rightarrow> memory_buf" where
  "append_string_view view dest = dest @ view"

definition push_back :: "char \<Rightarrow> memory_buf \<Rightarrow> memory_buf" where
  "push_back c dest = dest @ [c]"

definition append_int :: "int \<Rightarrow> memory_buf \<Rightarrow> memory_buf" where
  "append_int n dest = dest @ int_digits n"

fun count_digits_fallback :: "nat \<Rightarrow> nat \<Rightarrow> nat" where
  "count_digits_fallback n count =
     (if n < 10 then count
      else if n < 100 then count + 1
      else if n < 1000 then count + 2
      else if n < 10000 then count + 3
      else count_digits_fallback (n div 10000) (count + 4))"

declare count_digits_fallback.simps [simp del]

definition count_digits :: "nat \<Rightarrow> nat" where
  "count_digits n = count_digits_fallback n 1"

text \<open>
  Outside 0 to 99 \<open>pad2\<close> leaves the number to the format \<open>{:02}\<close>, which pads nothing there: such a
  number has at least two characters.
\<close>

definition pad2 :: "int \<Rightarrow> memory_buf \<Rightarrow> memory_buf" where
  "pad2 n dest =
     (if 0 \<le> n \<and> n < 100
      then push_back (char_of (48 + nat n mod 10)) (push_back (char_of (48 + nat n div 10)) dest)
      else append_int n dest)"

definition pad_uint :: "nat \<Rightarrow> nat \<Rightarrow> memory_buf \<Rightarrow> memory_buf" where
  "pad_uint n width dest = append_int (int n) (dest @ replicate (width - count_digits n) CHR ''0'')"

definition pad3 :: "nat \<Rightarrow> memory_buf \<Rightarrow> memory_buf" where
  "pad3 n dest =
     (if n < 1000
      then push_back (char_of (n mod 100 mod 10 + 48))
             (push_back (char_of (n mod 100 div 10 + 48)) (push_back (char_of (n div 100 + 48)) dest))
      else append_int (int n) dest)"

definition pad6 :: "nat \<Rightarrow> memory_buf \<Rightarrow> memory_buf" where
  "pad6 n dest = pad_uint n 6 dest"

definition pad9 :: "nat \<Rightarrow> memory_buf \<Rightarrow> memory_buf" where
  "pad9 n dest = pad_uint n 9 dest"

text \<open>Units of a duration in nanoseconds: seconds, milli-, micro- and nanoseconds.\<close>

definition ns_s :: int where "ns_s = 1000000000"
definition ns_ms :: int where "ns_ms = 1000000"
definition ns_us :: int where "ns_us = 1000"
definition ns_ns :: int where "ns_ns = 1"

definition duration_cast :: "int \<Rightarrow> int \<Rightarrow> int" where
  "duration_cast unit d = d sdiv unit"

text \<open>The last conversion is exact: a second is a whole number of every unit.\<close>

definition time_fraction :: "int \<Rightarrow> int \<Rightarrow> int" where
  "time_fraction unit tp =
     (let secs = duration_cast ns_s tp
      in duration_cast unit tp - duration_cast unit (secs * ns_s))"

subsection \<open>Padding\<close>

datatype pad_side = Pad_left | Pad_right | Pad_center

record padding_info =
  pi_width :: nat
  pi_side :: pad_side
  pi_truncate :: bool
  pi_enabled :: bool

definition padding_info_default :: padding_info where
  "padding_info_default = \<lparr>pi_width = 0, pi_side = Pad_left, pi_truncate = False, pi_enabled = False\<rparr>"

definition padding_info_new :: "nat \<Rightarrow> pad_side \<Rightarrow> bool \<Rightarrow> padding_info" where
  "padding_info_new w s t = \<lparr>pi_width = w, pi_side = s, pi_truncate = t, pi_enabled = True\<rparr>"

text \<open>The blanks come from a constant of 64 characters; a longer pad reads beyond it.\<close>

definition spaces_size :: int where
  "spaces_size = 64"

definition pad_it :: "int \<Rightarrow> memory_buf \<Rightarrow> memory_buf res" where
  "pad_it count dest =
     (if 0 \<le> count \<and> count \<le> spaces_size
      then Inr (append_string_view (replicate (nat count) CHR '' '') dest) else Inl OutOfBounds)"

text \<open>The constructor gives the buffer and the pad still to come, the destructor the buffer.\<close>

definition scoped_padder_begin :: "nat \<Rightarrow> padding_info \<Rightarrow> memory_buf \<Rightarrow> (int \<times> memory_buf) res" where
  "scoped_padder_begin wrapped_size padinfo dest =
     (let remaining_pad = int (pi_width padinfo) - int wrapped_size
      in if remaining_pad \<le> 0 then Inr (remaining_pad, dest)
         else if pi_side padinfo = Pad_left then bind_r (pad_it remaining_pad dest) (\<lambda>d. Inr (0, d))
         else if pi_side padinfo = Pad_center then
           let half_pad = remaining_pad div 2; reminder = remaining_pad mod 2
           in bind_r (pad_it half_pad dest) (\<lambda>d. Inr (half_pad + reminder, d))
         else Inr (remaining_pad, dest))"

definition scoped_padder_end :: "padding_info \<Rightarrow> int \<Rightarrow> memory_buf \<Rightarrow> memory_buf res" where
  "scoped_padder_end padinfo remaining_pad dest =
     (if 0 \<le> remaining_pad then pad_it remaining_pad dest
      else if pi_truncate padinfo then Inr (take (nat (int (length dest) + remaining_pad)) dest)
      else Inr dest)"

text \<open>The template parameter of the flag formatters, and writing under a padder.\<close>

datatype Padder = Scoped | Null_scoped

definition with_padder ::
  "Padder \<Rightarrow> padding_info \<Rightarrow> nat \<Rightarrow> (memory_buf \<Rightarrow> memory_buf) \<Rightarrow> memory_buf \<Rightarrow> memory_buf res" where
  "with_padder P padinfo wrapped_size write dest =
     (case P of
        Null_scoped \<Rightarrow> Inr (write dest)
      | Scoped \<Rightarrow>
          bind_r (scoped_padder_begin wrapped_size padinfo dest) (\<lambda>(remaining_pad, d).
            scoped_padder_end padinfo remaining_pad (write d)))"

definition padder_count_digits :: "Padder \<Rightarrow> nat \<Rightarrow> nat" where
  "padder_count_digits P n = (case P of Scoped \<Rightarrow> count_digits n | Null_scoped \<Rightarrow> 0)"

subsection \<open>Lemmas\<close>

lemma count_digits_fallback_length:
  "1 \<le> count \<Longrightarrow> count_digits_fallback n count = count - 1 + length (nat_digits n)"
proof (induction n count rule: count_digits_fallback.induct)
  case (1 n count)
  have step: "10 \<le> m \<Longrightarrow> length (nat_digits m) = 1 + length (nat_digits (m div 10))" for m
    by (simp add: length_nat_digits_large)
  consider "n < 10" | "10 \<le> n" "n < 100" | "100 \<le> n" "n < 1000" | "1000 \<le> n" "n < 10000" | "10000 \<le> n"
    by linarith
  then show ?case
  proof cases
    case 5
    then have "length (nat_digits n) = 4 + length (nat_digits (n div 10000))"
      using step [of n] step [of "n div 10"] step [of "n div 100"] step [of "n div 1000"]
      by (simp add: div_mult2_eq [symmetric])
    with 5 "1.IH" "1.prems" show ?thesis by (simp add: count_digits_fallback.simps [of n count])
  qed (use "1.prems" step [of n] step [of "n div 10"] step [of "n div 100"] in
      \<open>simp_all add: count_digits_fallback.simps [of n count] length_nat_digits_small div_mult2_eq [symmetric]\<close>)
qed

lemma count_digits_length: "count_digits n = length (nat_digits n)"
  by (simp add: count_digits_def count_digits_fallback_length)

lemma pad2_text: "pad2 n dest = dest @ pad2 n []"
  by (simp add: pad2_def push_back_def append_int_def)

lemma pad3_text: "pad3 n dest = dest @ pad3 n []"
  by (simp add: pad3_def push_back_def append_int_def)

lemma pad_uint_text: "pad_uint n w dest = dest @ pad_uint n w []"
  by (simp add: pad_uint_def append_int_def)

lemma length_pad2: "0 \<le> n \<Longrightarrow> n < 100 \<Longrightarrow> length (pad2 n []) = 2"
  by (simp add: pad2_def push_back_def)

lemma length_pad3: "n < 1000 \<Longrightarrow> length (pad3 n []) = 3"
  by (simp add: pad3_def push_back_def)

lemma length_pad_uint: "n < 10 ^ w \<Longrightarrow> 0 < w \<Longrightarrow> length (pad_uint n w []) = w"
  using length_nat_digits_le [of n w]
  by (simp add: pad_uint_def append_int_def int_digits_def count_digits_length)

text \<open>What a padder makes of a text: blanks on the side, or the text cut at the width.\<close>

definition pad_text :: "padding_info \<Rightarrow> string \<Rightarrow> string" where
  "pad_text p s =
     (let r = pi_width p - length s in
      if length s \<le> pi_width p then
        (case pi_side p of
           Pad_left \<Rightarrow> replicate r CHR '' '' @ s
         | Pad_right \<Rightarrow> s @ replicate r CHR '' ''
         | Pad_center \<Rightarrow> replicate (r div 2) CHR '' '' @ s @ replicate (r - r div 2) CHR '' '')
      else if pi_truncate p then take (pi_width p) s else s)"

lemma length_pad_text:
  "length (pad_text p s) = (if length s \<le> pi_width p \<or> pi_truncate p then pi_width p else length s)"
  by (auto simp: pad_text_def Let_def split: pad_side.split)

lemma with_padder_exact:
  assumes "pi_width p \<le> 64" and "\<And>d. write d = d @ s" and "n = length s"
  shows "with_padder Scoped p n write dest = Inr (dest @ pad_text p s)"
proof (cases "length s \<le> pi_width p")
  case True
  then obtain k where w: "pi_width p = length s + k" using le_Suc_ex by blast
  have k: "k \<le> 64" using w assms(1) by simp
  have pad: "m \<le> 64 \<Longrightarrow> pad_it (int m) d = Inr (d @ replicate m CHR '' '')" for m d
    by (simp add: pad_it_def spaces_size_def append_string_view_def)
  have ends: "m \<le> 64 \<Longrightarrow> scoped_padder_end p (int m) d = Inr (d @ replicate m CHR '' '')" for m d
    by (simp add: scoped_padder_end_def pad)
  have half: "int k div 2 = int (k div 2)" "int (k div 2) + int k mod 2 = int (k - k div 2)"
    by (simp_all add: zdiv_int zmod_int [symmetric] of_nat_diff)
  have begins: "scoped_padder_begin n p dest =
      Inr (case pi_side p of Pad_left \<Rightarrow> (int 0, dest @ replicate k CHR '' '')
           | Pad_right \<Rightarrow> (int k, dest)
           | Pad_center \<Rightarrow> (int (k - k div 2), dest @ replicate (k div 2) CHR '' ''))"
    using k by (cases "pi_side p"; cases "k = 0") (simp_all add: scoped_padder_begin_def w assms(3) half pad)
  have rest: "k - k div 2 \<le> 64" using k by simp
  show ?thesis
    using k ends [of 0] ends [OF rest] by (cases "pi_side p")
      (simp_all add: with_padder_def begins ends assms(2) pad_text_def w)
next
  case False
  then show ?thesis
    using assms(2,3)
    by (auto simp: with_padder_def scoped_padder_begin_def scoped_padder_end_def pad_text_def Let_def nat_add_distrib)
qed

end
