(* ===== verification/Log_Flags.thy ===== *)
theory Log_Flags
  imports Log_Base
begin

section \<open>Logging: the flag formatters (spdlog)\<close>

text \<open>
  One definition for each formatter class of \<open>pattern_formatter-inl.h\<close>, in the order of that file:
  what \<open>format\<close> appends to the buffer, given the padder of the template, the padding, the message
  and the broken-down time. Reading an array of names or of levels outside its bounds, and a null
  C string, are undefined. Formatters with a state of their own (the UTC offset, the elapsed time,
  the full line with its cached date) take it and return it updated.

  The operating system is a parameter: \<open>os_env\<close> holds the process id, the broken-down times, the
  offset from UTC, the current time and the diagnostic context of the calling thread, a map
  listed in the order of its keys. The year of a broken-down time of a 64-bit nanosecond clock lies far from the bounds of an
  \<open>int\<close>, so its sums are exact.
\<close>

subsection \<open>The operating system and the diagnostic context\<close>

record os_env =
  os_pid :: nat
  os_localtime :: "int \<Rightarrow> tm"
  os_gmtime :: "int \<Rightarrow> tm"
  utc_minutes_offset :: "tm \<Rightarrow> int"
  os_now :: int
  mdc_context :: "(string \<times> string) list"

text \<open>The context is an ordered map; strings compare as \<open>std::string\<close> does, by unsigned characters.\<close>

fun str_less :: "string \<Rightarrow> string \<Rightarrow> bool" where
  "str_less [] t = (t \<noteq> [])"
| "str_less (a # s) [] = False"
| "str_less (a # s) (b # t) =
     ((of_char a :: nat) < of_char b \<or> (a = b \<and> str_less s t))"

fun mdc_put :: "string \<Rightarrow> string \<Rightarrow> (string \<times> string) list \<Rightarrow> (string \<times> string) list" where
  "mdc_put key value [] = [(key, value)]"
| "mdc_put key value ((k, v) # context) =
     (if key = k then (key, value) # context
      else if str_less key k then (key, value) # (k, v) # context
      else (k, v) # mdc_put key value context)"

definition mdc_get :: "string \<Rightarrow> (string \<times> string) list \<Rightarrow> string" where
  "mdc_get key context = (case map_of context key of Some v \<Rightarrow> v | None \<Rightarrow> [])"

definition mdc_remove :: "string \<Rightarrow> (string \<times> string) list \<Rightarrow> (string \<times> string) list" where
  "mdc_remove key context = filter (\<lambda>(k, v). k \<noteq> key) context"

definition mdc_clear :: "(string \<times> string) list \<Rightarrow> (string \<times> string) list" where
  "mdc_clear context = []"

subsection \<open>Name and level\<close>

definition name_formatter :: "Padder \<Rightarrow> padding_info \<Rightarrow> log_msg \<Rightarrow> memory_buf \<Rightarrow> memory_buf res" where
  "name_formatter P padinfo msg dest =
     with_padder P padinfo (length (logger_name msg)) (append_string_view (logger_name msg)) dest"

definition level_formatter :: "Padder \<Rightarrow> padding_info \<Rightarrow> log_msg \<Rightarrow> memory_buf \<Rightarrow> memory_buf res" where
  "level_formatter P padinfo msg dest =
     bind_r (level_to_string_view (msg_level msg)) (\<lambda>level_name.
       with_padder P padinfo (length level_name) (append_string_view level_name) dest)"

definition short_level_formatter :: "Padder \<Rightarrow> padding_info \<Rightarrow> log_msg \<Rightarrow> memory_buf \<Rightarrow> memory_buf res" where
  "short_level_formatter P padinfo msg dest =
     bind_r (to_short_c_str (msg_level msg)) (\<lambda>level_name.
       with_padder P padinfo (length level_name) (append_string_view level_name) dest)"

subsection \<open>Date and time\<close>

definition ampm :: "tm \<Rightarrow> string" where
  "ampm t = (if 12 \<le> tm_hour t then ''PM'' else ''AM'')"

definition to12h :: "tm \<Rightarrow> int" where
  "to12h t = (if 12 < tm_hour t then tm_hour t - 12 else tm_hour t)"

text \<open>\<open>a[static_cast<size_t>(i)]\<close>: a negative index becomes a huge one.\<close>

definition at_size :: "'a list \<Rightarrow> int \<Rightarrow> 'a res" where
  "at_size xs i = at_r xs (nat (i mod 2 ^ 64))"

definition days :: "string list" where
  "days = [''Sun'', ''Mon'', ''Tue'', ''Wed'', ''Thu'', ''Fri'', ''Sat'']"

definition a_formatter :: "Padder \<Rightarrow> padding_info \<Rightarrow> tm \<Rightarrow> memory_buf \<Rightarrow> memory_buf res" where
  "a_formatter P padinfo tm_time dest =
     bind_r (at_size days (tm_wday tm_time)) (\<lambda>field_value.
       with_padder P padinfo (length field_value) (append_string_view field_value) dest)"

definition full_days :: "string list" where
  "full_days = [''Sunday'', ''Monday'', ''Tuesday'', ''Wednesday'', ''Thursday'', ''Friday'', ''Saturday'']"

definition A_formatter :: "Padder \<Rightarrow> padding_info \<Rightarrow> tm \<Rightarrow> memory_buf \<Rightarrow> memory_buf res" where
  "A_formatter P padinfo tm_time dest =
     bind_r (at_size full_days (tm_wday tm_time)) (\<lambda>field_value.
       with_padder P padinfo (length field_value) (append_string_view field_value) dest)"

definition months :: "string list" where
  "months = [''Jan'', ''Feb'', ''Mar'', ''Apr'', ''May'', ''Jun'',
             ''Jul'', ''Aug'', ''Sep'', ''Oct'', ''Nov'', ''Dec'']"

definition b_formatter :: "Padder \<Rightarrow> padding_info \<Rightarrow> tm \<Rightarrow> memory_buf \<Rightarrow> memory_buf res" where
  "b_formatter P padinfo tm_time dest =
     bind_r (at_size months (tm_mon tm_time)) (\<lambda>field_value.
       with_padder P padinfo (length field_value) (append_string_view field_value) dest)"

definition full_months :: "string list" where
  "full_months = [''January'', ''February'', ''March'', ''April'', ''May'', ''June'', ''July'',
                  ''August'', ''September'', ''October'', ''November'', ''December'']"

definition B_formatter :: "Padder \<Rightarrow> padding_info \<Rightarrow> tm \<Rightarrow> memory_buf \<Rightarrow> memory_buf res" where
  "B_formatter P padinfo tm_time dest =
     bind_r (at_size full_months (tm_mon tm_time)) (\<lambda>field_value.
       with_padder P padinfo (length field_value) (append_string_view field_value) dest)"

definition c_formatter :: "Padder \<Rightarrow> padding_info \<Rightarrow> tm \<Rightarrow> memory_buf \<Rightarrow> memory_buf res" where
  "c_formatter P padinfo tm_time dest =
     bind_r (at_size days (tm_wday tm_time)) (\<lambda>day.
     bind_r (at_size months (tm_mon tm_time)) (\<lambda>month.
       with_padder P padinfo 24 (\<lambda>d.
         let d = append_string_view day d;
             d = push_back CHR '' '' d;
             d = append_string_view month d;
             d = push_back CHR '' '' d;
             d = append_int (tm_mday tm_time) d;
             d = push_back CHR '' '' d;
             d = pad2 (tm_hour tm_time) d;
             d = push_back CHR '':'' d;
             d = pad2 (tm_min tm_time) d;
             d = push_back CHR '':'' d;
             d = pad2 (tm_sec tm_time) d;
             d = push_back CHR '' '' d
         in append_int (tm_year tm_time + 1900) d) dest))"

definition C_formatter :: "Padder \<Rightarrow> padding_info \<Rightarrow> tm \<Rightarrow> memory_buf \<Rightarrow> memory_buf res" where
  "C_formatter P padinfo tm_time dest = with_padder P padinfo 2 (pad2 (tm_year tm_time smod 100)) dest"

definition D_formatter :: "Padder \<Rightarrow> padding_info \<Rightarrow> tm \<Rightarrow> memory_buf \<Rightarrow> memory_buf res" where
  "D_formatter P padinfo tm_time dest =
     with_padder P padinfo 8 (\<lambda>d.
       let d = pad2 (tm_mon tm_time + 1) d;
           d = push_back CHR ''/'' d;
           d = pad2 (tm_mday tm_time) d;
           d = push_back CHR ''/'' d
       in pad2 (tm_year tm_time smod 100) d) dest"

definition Y_formatter :: "Padder \<Rightarrow> padding_info \<Rightarrow> tm \<Rightarrow> memory_buf \<Rightarrow> memory_buf res" where
  "Y_formatter P padinfo tm_time dest = with_padder P padinfo 4 (append_int (tm_year tm_time + 1900)) dest"

definition m_formatter :: "Padder \<Rightarrow> padding_info \<Rightarrow> tm \<Rightarrow> memory_buf \<Rightarrow> memory_buf res" where
  "m_formatter P padinfo tm_time dest = with_padder P padinfo 2 (pad2 (tm_mon tm_time + 1)) dest"

definition d_formatter :: "Padder \<Rightarrow> padding_info \<Rightarrow> tm \<Rightarrow> memory_buf \<Rightarrow> memory_buf res" where
  "d_formatter P padinfo tm_time dest = with_padder P padinfo 2 (pad2 (tm_mday tm_time)) dest"

definition H_formatter :: "Padder \<Rightarrow> padding_info \<Rightarrow> tm \<Rightarrow> memory_buf \<Rightarrow> memory_buf res" where
  "H_formatter P padinfo tm_time dest = with_padder P padinfo 2 (pad2 (tm_hour tm_time)) dest"

definition I_formatter :: "Padder \<Rightarrow> padding_info \<Rightarrow> tm \<Rightarrow> memory_buf \<Rightarrow> memory_buf res" where
  "I_formatter P padinfo tm_time dest = with_padder P padinfo 2 (pad2 (to12h tm_time)) dest"

definition M_formatter :: "Padder \<Rightarrow> padding_info \<Rightarrow> tm \<Rightarrow> memory_buf \<Rightarrow> memory_buf res" where
  "M_formatter P padinfo tm_time dest = with_padder P padinfo 2 (pad2 (tm_min tm_time)) dest"

definition S_formatter :: "Padder \<Rightarrow> padding_info \<Rightarrow> tm \<Rightarrow> memory_buf \<Rightarrow> memory_buf res" where
  "S_formatter P padinfo tm_time dest = with_padder P padinfo 2 (pad2 (tm_sec tm_time)) dest"

text \<open>The casts to \<open>uint32_t\<close> and \<open>size_t\<close> wrap; a fraction before the epoch is negative.\<close>

definition e_formatter :: "Padder \<Rightarrow> padding_info \<Rightarrow> log_msg \<Rightarrow> memory_buf \<Rightarrow> memory_buf res" where
  "e_formatter P padinfo msg dest =
     (let millis = time_fraction ns_ms (time msg)
      in with_padder P padinfo 3 (pad3 (nat (millis mod 2 ^ 32))) dest)"

definition f_formatter :: "Padder \<Rightarrow> padding_info \<Rightarrow> log_msg \<Rightarrow> memory_buf \<Rightarrow> memory_buf res" where
  "f_formatter P padinfo msg dest =
     (let micros = time_fraction ns_us (time msg)
      in with_padder P padinfo 6 (pad6 (nat (micros mod 2 ^ 64))) dest)"

definition F_formatter :: "Padder \<Rightarrow> padding_info \<Rightarrow> log_msg \<Rightarrow> memory_buf \<Rightarrow> memory_buf res" where
  "F_formatter P padinfo msg dest =
     (let ns = time_fraction ns_ns (time msg)
      in with_padder P padinfo 9 (pad9 (nat (ns mod 2 ^ 64))) dest)"

definition E_formatter :: "Padder \<Rightarrow> padding_info \<Rightarrow> log_msg \<Rightarrow> memory_buf \<Rightarrow> memory_buf res" where
  "E_formatter P padinfo msg dest =
     with_padder P padinfo 10 (append_int (duration_cast ns_s (time msg))) dest"

definition p_formatter :: "Padder \<Rightarrow> padding_info \<Rightarrow> tm \<Rightarrow> memory_buf \<Rightarrow> memory_buf res" where
  "p_formatter P padinfo tm_time dest = with_padder P padinfo 2 (append_string_view (ampm tm_time)) dest"

definition r_formatter :: "Padder \<Rightarrow> padding_info \<Rightarrow> tm \<Rightarrow> memory_buf \<Rightarrow> memory_buf res" where
  "r_formatter P padinfo tm_time dest =
     with_padder P padinfo 11 (\<lambda>d.
       let d = pad2 (to12h tm_time) d;
           d = push_back CHR '':'' d;
           d = pad2 (tm_min tm_time) d;
           d = push_back CHR '':'' d;
           d = pad2 (tm_sec tm_time) d;
           d = push_back CHR '' '' d
       in append_string_view (ampm tm_time) d) dest"

definition R_formatter :: "Padder \<Rightarrow> padding_info \<Rightarrow> tm \<Rightarrow> memory_buf \<Rightarrow> memory_buf res" where
  "R_formatter P padinfo tm_time dest =
     with_padder P padinfo 5 (\<lambda>d.
       let d = pad2 (tm_hour tm_time) d;
           d = push_back CHR '':'' d
       in pad2 (tm_min tm_time) d) dest"

definition T_formatter :: "Padder \<Rightarrow> padding_info \<Rightarrow> tm \<Rightarrow> memory_buf \<Rightarrow> memory_buf res" where
  "T_formatter P padinfo tm_time dest =
     with_padder P padinfo 8 (\<lambda>d.
       let d = pad2 (tm_hour tm_time) d;
           d = push_back CHR '':'' d;
           d = pad2 (tm_min tm_time) d;
           d = push_back CHR '':'' d
       in pad2 (tm_sec tm_time) d) dest"

text \<open>The offset is asked again when ten seconds have passed since the last time it was.\<close>

record z_state =
  last_update :: int
  offset_minutes :: int

definition z_state_init :: z_state where
  "z_state_init = \<lparr>last_update = 0, offset_minutes = 0\<rparr>"

definition get_cached_offset :: "os_env \<Rightarrow> log_msg \<Rightarrow> tm \<Rightarrow> z_state \<Rightarrow> z_state res" where
  "get_cached_offset env msg tm_time z =
     bind_r (ssub (time msg) (last_update z)) (\<lambda>age.
       if 10 * ns_s \<le> age
       then Inr \<lparr>last_update = time msg, offset_minutes = utc_minutes_offset env tm_time\<rparr>
       else Inr z)"

definition z_formatter ::
  "os_env \<Rightarrow> Padder \<Rightarrow> padding_info \<Rightarrow> log_msg \<Rightarrow> tm \<Rightarrow> z_state \<Rightarrow> memory_buf \<Rightarrow> (z_state \<times> memory_buf) res" where
  "z_formatter env P padinfo msg tm_time z dest =
     bind_r (get_cached_offset env msg tm_time z) (\<lambda>z'.
       let total_minutes = offset_minutes z';
           is_negative = total_minutes < 0;
           minutes = (if is_negative then - total_minutes else total_minutes)
       in map_r (Pair z')
            (with_padder P padinfo 6 (\<lambda>d.
               let d = push_back (if is_negative then CHR ''-'' else CHR ''+'') d;
                   d = pad2 (minutes div 60) d;
                   d = push_back CHR '':'' d
               in pad2 (minutes mod 60) d) dest))"

subsection \<open>Ids, payload, literal text, colour\<close>

definition t_formatter :: "Padder \<Rightarrow> padding_info \<Rightarrow> log_msg \<Rightarrow> memory_buf \<Rightarrow> memory_buf res" where
  "t_formatter P padinfo msg dest =
     with_padder P padinfo (padder_count_digits P (thread_id msg)) (append_int (int (thread_id msg))) dest"

definition pid_formatter :: "os_env \<Rightarrow> Padder \<Rightarrow> padding_info \<Rightarrow> memory_buf \<Rightarrow> memory_buf res" where
  "pid_formatter env P padinfo dest =
     (let pid = os_pid env mod 2 ^ 32
      in with_padder P padinfo (padder_count_digits P pid) (append_int (int pid)) dest)"

definition v_formatter :: "Padder \<Rightarrow> padding_info \<Rightarrow> log_msg \<Rightarrow> memory_buf \<Rightarrow> memory_buf res" where
  "v_formatter P padinfo msg dest =
     with_padder P padinfo (length (payload msg)) (append_string_view (payload msg)) dest"

definition ch_formatter :: "char \<Rightarrow> memory_buf \<Rightarrow> memory_buf" where
  "ch_formatter ch dest = push_back ch dest"

definition aggregate_formatter :: "string \<Rightarrow> memory_buf \<Rightarrow> memory_buf" where
  "aggregate_formatter str dest = append_string_view str dest"

definition color_start_formatter :: "log_msg \<Rightarrow> memory_buf \<Rightarrow> log_msg" where
  "color_start_formatter msg dest = msg\<lparr>color_range_start := length dest\<rparr>"

definition color_stop_formatter :: "log_msg \<Rightarrow> memory_buf \<Rightarrow> log_msg" where
  "color_stop_formatter msg dest = msg\<lparr>color_range_end := length dest\<rparr>"

subsection \<open>Source location\<close>

definition source_location_formatter :: "Padder \<Rightarrow> padding_info \<Rightarrow> log_msg \<Rightarrow> memory_buf \<Rightarrow> memory_buf res" where
  "source_location_formatter P padinfo msg dest =
     (if source_empty (msg_source msg) then with_padder P padinfo 0 id dest
      else bind_r (c_str (filename (msg_source msg))) (\<lambda>file.
        let text_size = (if pi_enabled padinfo
                         then length file + padder_count_digits P (nat (line (msg_source msg))) + 1 else 0)
        in with_padder P padinfo text_size (\<lambda>d.
             let d = append_string_view file d;
                 d = push_back CHR '':'' d
             in append_int (line (msg_source msg)) d) dest))"

definition source_filename_formatter :: "Padder \<Rightarrow> padding_info \<Rightarrow> log_msg \<Rightarrow> memory_buf \<Rightarrow> memory_buf res" where
  "source_filename_formatter P padinfo msg dest =
     (if source_empty (msg_source msg) then with_padder P padinfo 0 id dest
      else bind_r (c_str (filename (msg_source msg))) (\<lambda>file.
        let text_size = (if pi_enabled padinfo then length file else 0)
        in with_padder P padinfo text_size (append_string_view file) dest))"

text \<open>\<open>strrchr\<close>: the position of the last occurrence of a character, if there is one.\<close>

fun strrchr :: "string \<Rightarrow> char \<Rightarrow> nat option" where
  "strrchr [] c = None"
| "strrchr (a # s) c =
     (case strrchr s c of Some i \<Rightarrow> Some (Suc i) | None \<Rightarrow> if a = c then Some 0 else None)"

text \<open>On this target \<open>folder_seps\<close> is \<open>"/"\<close>, of size 2 with its terminator: the first branch.\<close>

definition basename :: "string \<Rightarrow> string" where
  "basename file = (case strrchr file CHR ''/'' of Some rv \<Rightarrow> drop (rv + 1) file | None \<Rightarrow> file)"

definition short_filename_formatter :: "Padder \<Rightarrow> padding_info \<Rightarrow> log_msg \<Rightarrow> memory_buf \<Rightarrow> memory_buf res" where
  "short_filename_formatter P padinfo msg dest =
     (if source_empty (msg_source msg) then with_padder P padinfo 0 id dest
      else bind_r (c_str (filename (msg_source msg))) (\<lambda>path.
        let file = basename path;
            text_size = (if pi_enabled padinfo then length file else 0)
        in with_padder P padinfo text_size (append_string_view file) dest))"

definition source_linenum_formatter :: "Padder \<Rightarrow> padding_info \<Rightarrow> log_msg \<Rightarrow> memory_buf \<Rightarrow> memory_buf res" where
  "source_linenum_formatter P padinfo msg dest =
     (if source_empty (msg_source msg) then with_padder P padinfo 0 id dest
      else with_padder P padinfo (padder_count_digits P (nat (line (msg_source msg))))
             (append_int (line (msg_source msg))) dest)"

definition source_funcname_formatter :: "Padder \<Rightarrow> padding_info \<Rightarrow> log_msg \<Rightarrow> memory_buf \<Rightarrow> memory_buf res" where
  "source_funcname_formatter P padinfo msg dest =
     (if source_empty (msg_source msg) then with_padder P padinfo 0 id dest
      else bind_r (c_str (funcname (msg_source msg))) (\<lambda>func.
        let text_size = (if pi_enabled padinfo then length func else 0)
        in with_padder P padinfo text_size (append_string_view func) dest))"

subsection \<open>Elapsed time and diagnostic context\<close>

definition elapsed_formatter ::
  "int \<Rightarrow> Padder \<Rightarrow> padding_info \<Rightarrow> log_msg \<Rightarrow> int \<Rightarrow> memory_buf \<Rightarrow> (int \<times> memory_buf) res" where
  "elapsed_formatter unit P padinfo msg last_message_time dest =
     bind_r (ssub (time msg) last_message_time) (\<lambda>diff.
       let delta = max diff 0;
           delta_count = nat (duration_cast unit delta mod 2 ^ 64);
           n_digits = padder_count_digits P delta_count
       in map_r (Pair (time msg)) (with_padder P padinfo n_digits (append_int (int delta_count)) dest))"

fun format_mdc :: "Padder \<Rightarrow> padding_info \<Rightarrow> (string \<times> string) list \<Rightarrow> memory_buf \<Rightarrow> memory_buf res" where
  "format_mdc P padinfo [] dest = Inr dest"
| "format_mdc P padinfo ((key, value) # it) dest =
     (let content_size = length key + length value + 1;
          content_size = (if it \<noteq> [] then content_size + 1 else content_size)
      in bind_r
           (with_padder P padinfo content_size (\<lambda>d.
              let d = append_string_view key d;
                  d = append_string_view '':'' d;
                  d = append_string_view value d
              in if it \<noteq> [] then append_string_view '' '' d else d) dest)
           (format_mdc P padinfo it))"

definition mdc_formatter :: "os_env \<Rightarrow> Padder \<Rightarrow> padding_info \<Rightarrow> memory_buf \<Rightarrow> memory_buf res" where
  "mdc_formatter env P padinfo dest =
     (if mdc_context env = [] then with_padder P padinfo 0 id dest
      else format_mdc P padinfo (mdc_context env) dest)"

subsection \<open>The full line\<close>

record full_state =
  cache_timestamp :: int
  cached_datetime :: memory_buf

definition full_state_init :: full_state where
  "full_state_init = \<lparr>cache_timestamp = 0, cached_datetime = []\<rparr>"

definition full_datetime :: "tm \<Rightarrow> memory_buf" where
  "full_datetime tm_time =
     (let d = push_back CHR ''['' [];
          d = append_int (tm_year tm_time + 1900) d;
          d = push_back CHR ''-'' d;
          d = pad2 (tm_mon tm_time + 1) d;
          d = push_back CHR ''-'' d;
          d = pad2 (tm_mday tm_time) d;
          d = push_back CHR '' '' d;
          d = pad2 (tm_hour tm_time) d;
          d = push_back CHR '':'' d;
          d = pad2 (tm_min tm_time) d;
          d = push_back CHR '':'' d;
          d = pad2 (tm_sec tm_time) d
      in push_back CHR ''.'' d)"

definition full_cache :: "log_msg \<Rightarrow> tm \<Rightarrow> full_state \<Rightarrow> full_state" where
  "full_cache msg tm_time st =
     (let secs = duration_cast ns_s (time msg)
      in if cache_timestamp st \<noteq> secs \<or> length (cached_datetime st) = 0
         then \<lparr>cache_timestamp = secs, cached_datetime = full_datetime tm_time\<rparr> else st)"

definition full_source :: "log_msg \<Rightarrow> memory_buf \<Rightarrow> memory_buf res" where
  "full_source msg dest =
     (if \<not> source_empty (msg_source msg) then
        bind_r (c_str (filename (msg_source msg))) (\<lambda>path.
          let d = push_back CHR ''['' dest;
              d = append_string_view (basename path) d;
              d = push_back CHR '':'' d;
              d = append_int (line (msg_source msg)) d;
              d = push_back CHR '']'' d
          in Inr (push_back CHR '' '' d))
      else Inr dest)"

definition full_mdc :: "os_env \<Rightarrow> memory_buf \<Rightarrow> memory_buf res" where
  "full_mdc env dest =
     (if mdc_context env \<noteq> [] then
        bind_r (format_mdc Null_scoped padding_info_default (mdc_context env) (push_back CHR ''['' dest)) (\<lambda>d.
          Inr (push_back CHR '' '' (push_back CHR '']'' d)))
      else Inr dest)"

definition full_formatter ::
  "os_env \<Rightarrow> log_msg \<Rightarrow> tm \<Rightarrow> full_state \<Rightarrow> memory_buf \<Rightarrow> (full_state \<times> log_msg \<times> memory_buf) res" where
  "full_formatter env msg tm_time st dest =
     (let st' = full_cache msg tm_time st;
          d = dest @ cached_datetime st';
          millis = time_fraction ns_ms (time msg);
          d = pad3 (nat (millis mod 2 ^ 32)) d;
          d = push_back CHR '']'' d;
          d = push_back CHR '' '' d;
          d = (if 0 < length (logger_name msg) then
                 let d = push_back CHR ''['' d;
                     d = append_string_view (logger_name msg) d;
                     d = push_back CHR '']'' d
                 in push_back CHR '' '' d
               else d);
          d = push_back CHR ''['' d;
          msg' = msg\<lparr>color_range_start := length d\<rparr>
      in bind_r (level_to_string_view (msg_level msg)) (\<lambda>level_name.
           let d = append_string_view level_name d;
               msg'' = msg'\<lparr>color_range_end := length d\<rparr>;
               d = push_back CHR '']'' d;
               d = push_back CHR '' '' d
           in bind_r (full_source msg d) (\<lambda>d.
              bind_r (full_mdc env d) (\<lambda>d.
                Inr (st', msg'', append_string_view (payload msg) d)))))"

end
