(* ===== verification/Log_Pattern.thy ===== *)
theory Log_Pattern
  imports Log_Flags
begin

section \<open>Logging: the pattern formatter (spdlog)\<close>

text \<open>
  \<open>pattern_formatter\<close> of \<open>pattern_formatter.h\<close> and \<open>pattern_formatter-inl.h\<close>: a pattern is compiled
  into a list of flag formatters, and formatting a message runs them in order over one buffer.
  A flag formatter is a value of \<open>flag_formatter\<close>, with the state its class has; a custom formatter of the
  application is a value of type \<open>'c\<close>, whose \<open>clone\<close> and \<open>format\<close> are the fields of \<open>custom_ops\<close>.
\<close>

subsection \<open>Formatters\<close>

datatype 'c flag_formatter =
    Full_f (flag_padding: padding_info) full_state
  | Name_f (flag_padder: Padder) (flag_padding: padding_info)
  | Level_f (flag_padder: Padder) (flag_padding: padding_info)
  | Short_level_f (flag_padder: Padder) (flag_padding: padding_info)
  | T_id_f (flag_padder: Padder) (flag_padding: padding_info)
  | V_f (flag_padder: Padder) (flag_padding: padding_info)
  | A_f (flag_padder: Padder) (flag_padding: padding_info)
  | Full_day_f (flag_padder: Padder) (flag_padding: padding_info)
  | B_f (flag_padder: Padder) (flag_padding: padding_info)
  | Full_month_f (flag_padder: Padder) (flag_padding: padding_info)
  | C_f (flag_padder: Padder) (flag_padding: padding_info)
  | Year2_f (flag_padder: Padder) (flag_padding: padding_info)
  | Year_f (flag_padder: Padder) (flag_padding: padding_info)
  | Date_f (flag_padder: Padder) (flag_padding: padding_info)
  | Month_f (flag_padder: Padder) (flag_padding: padding_info)
  | Mday_f (flag_padder: Padder) (flag_padding: padding_info)
  | Hour_f (flag_padder: Padder) (flag_padding: padding_info)
  | Hour12_f (flag_padder: Padder) (flag_padding: padding_info)
  | Min_f (flag_padder: Padder) (flag_padding: padding_info)
  | Sec_f (flag_padder: Padder) (flag_padding: padding_info)
  | Millis_f (flag_padder: Padder) (flag_padding: padding_info)
  | Micros_f (flag_padder: Padder) (flag_padding: padding_info)
  | Nanos_f (flag_padder: Padder) (flag_padding: padding_info)
  | Epoch_f (flag_padder: Padder) (flag_padding: padding_info)
  | Ampm_f (flag_padder: Padder) (flag_padding: padding_info)
  | Clock12_f (flag_padder: Padder) (flag_padding: padding_info)
  | Clock_f (flag_padder: Padder) (flag_padding: padding_info)
  | Iso_time_f (flag_padder: Padder) (flag_padding: padding_info)
  | Z_f (flag_padder: Padder) (flag_padding: padding_info) z_state
  | Pid_f (flag_padder: Padder) (flag_padding: padding_info)
  | Color_start_f
  | Color_stop_f
  | Source_location_f (flag_padder: Padder) (flag_padding: padding_info)
  | Short_filename_f (flag_padder: Padder) (flag_padding: padding_info)
  | Source_filename_f (flag_padder: Padder) (flag_padding: padding_info)
  | Source_linenum_f (flag_padder: Padder) (flag_padding: padding_info)
  | Source_funcname_f (flag_padder: Padder) (flag_padding: padding_info)
  | Ch_f char
  | Elapsed_f int (flag_padder: Padder) (flag_padding: padding_info) int
  | Mdc_f (flag_padder: Padder) (flag_padding: padding_info)
  | Aggregate_f string
  | Custom_f (flag_padding: padding_info) 'c

record 'c custom_ops =
  custom_clone :: "'c \<Rightarrow> 'c"
  custom_format :: "'c \<Rightarrow> padding_info \<Rightarrow> log_msg \<Rightarrow> tm \<Rightarrow> memory_buf \<Rightarrow> ('c \<times> log_msg \<times> memory_buf) res"

text \<open>The virtual call \<open>f->format(msg, tm, dest)\<close>.\<close>

definition plain_f ::
  "'c flag_formatter \<Rightarrow> log_msg \<Rightarrow> memory_buf res \<Rightarrow> ('c flag_formatter \<times> log_msg \<times> memory_buf) res" where
  "plain_f f msg r = map_r (\<lambda>d. (f, msg, d)) r"

definition flag_format ::
  "'c custom_ops \<Rightarrow> os_env \<Rightarrow> tm \<Rightarrow> 'c flag_formatter \<Rightarrow> log_msg \<Rightarrow> memory_buf
     \<Rightarrow> ('c flag_formatter \<times> log_msg \<times> memory_buf) res" where
  "flag_format ops env tm_time f msg dest =
     (case f of
        Full_f p st \<Rightarrow> map_r (\<lambda>(st', msg', d). (Full_f p st', msg', d)) (full_formatter env msg tm_time st dest)
      | Name_f P p \<Rightarrow> plain_f f msg (name_formatter P p msg dest)
      | Level_f P p \<Rightarrow> plain_f f msg (level_formatter P p msg dest)
      | Short_level_f P p \<Rightarrow> plain_f f msg (short_level_formatter P p msg dest)
      | T_id_f P p \<Rightarrow> plain_f f msg (t_formatter P p msg dest)
      | V_f P p \<Rightarrow> plain_f f msg (v_formatter P p msg dest)
      | A_f P p \<Rightarrow> plain_f f msg (a_formatter P p tm_time dest)
      | Full_day_f P p \<Rightarrow> plain_f f msg (A_formatter P p tm_time dest)
      | B_f P p \<Rightarrow> plain_f f msg (b_formatter P p tm_time dest)
      | Full_month_f P p \<Rightarrow> plain_f f msg (B_formatter P p tm_time dest)
      | C_f P p \<Rightarrow> plain_f f msg (c_formatter P p tm_time dest)
      | Year2_f P p \<Rightarrow> plain_f f msg (C_formatter P p tm_time dest)
      | Year_f P p \<Rightarrow> plain_f f msg (Y_formatter P p tm_time dest)
      | Date_f P p \<Rightarrow> plain_f f msg (D_formatter P p tm_time dest)
      | Month_f P p \<Rightarrow> plain_f f msg (m_formatter P p tm_time dest)
      | Mday_f P p \<Rightarrow> plain_f f msg (d_formatter P p tm_time dest)
      | Hour_f P p \<Rightarrow> plain_f f msg (H_formatter P p tm_time dest)
      | Hour12_f P p \<Rightarrow> plain_f f msg (I_formatter P p tm_time dest)
      | Min_f P p \<Rightarrow> plain_f f msg (M_formatter P p tm_time dest)
      | Sec_f P p \<Rightarrow> plain_f f msg (S_formatter P p tm_time dest)
      | Millis_f P p \<Rightarrow> plain_f f msg (e_formatter P p msg dest)
      | Micros_f P p \<Rightarrow> plain_f f msg (f_formatter P p msg dest)
      | Nanos_f P p \<Rightarrow> plain_f f msg (F_formatter P p msg dest)
      | Epoch_f P p \<Rightarrow> plain_f f msg (E_formatter P p msg dest)
      | Ampm_f P p \<Rightarrow> plain_f f msg (p_formatter P p tm_time dest)
      | Clock12_f P p \<Rightarrow> plain_f f msg (r_formatter P p tm_time dest)
      | Clock_f P p \<Rightarrow> plain_f f msg (R_formatter P p tm_time dest)
      | Iso_time_f P p \<Rightarrow> plain_f f msg (T_formatter P p tm_time dest)
      | Z_f P p z \<Rightarrow> map_r (\<lambda>(z', d). (Z_f P p z', msg, d)) (z_formatter env P p msg tm_time z dest)
      | Pid_f P p \<Rightarrow> plain_f f msg (pid_formatter env P p dest)
      | Color_start_f \<Rightarrow> Inr (f, color_start_formatter msg dest, dest)
      | Color_stop_f \<Rightarrow> Inr (f, color_stop_formatter msg dest, dest)
      | Source_location_f P p \<Rightarrow> plain_f f msg (source_location_formatter P p msg dest)
      | Short_filename_f P p \<Rightarrow> plain_f f msg (short_filename_formatter P p msg dest)
      | Source_filename_f P p \<Rightarrow> plain_f f msg (source_filename_formatter P p msg dest)
      | Source_linenum_f P p \<Rightarrow> plain_f f msg (source_linenum_formatter P p msg dest)
      | Source_funcname_f P p \<Rightarrow> plain_f f msg (source_funcname_formatter P p msg dest)
      | Ch_f c \<Rightarrow> Inr (f, msg, ch_formatter c dest)
      | Elapsed_f unit P p t \<Rightarrow>
          map_r (\<lambda>(t', d). (Elapsed_f unit P p t', msg, d)) (elapsed_formatter unit P p msg t dest)
      | Mdc_f P p \<Rightarrow> plain_f f msg (mdc_formatter env P p dest)
      | Aggregate_f s \<Rightarrow> Inr (f, msg, aggregate_formatter s dest)
      | Custom_f p c \<Rightarrow> map_r (\<lambda>(c', msg', d). (Custom_f p c', msg', d)) (custom_format ops c p msg tm_time dest))"

subsection \<open>State\<close>

datatype pattern_time_type = Time_local | Time_utc

record 'c pattern_formatter =
  pattern :: string
  eol :: string
  time_type :: pattern_time_type
  need_localtime :: bool
  cached_tm :: tm
  last_log_secs :: int
  formatters :: "'c flag_formatter list"
  custom_handlers :: "char \<rightharpoonup> 'c"

definition zero_tm :: tm where
  "zero_tm = \<lparr>tm_sec = 0, tm_min = 0, tm_hour = 0, tm_mday = 0, tm_mon = 0, tm_year = 0, tm_wday = 0\<rparr>"

subsection \<open>Compiling a pattern\<close>

text \<open>
  The cases of \<open>handle_flag_\<close>: the formatter of a built-in flag, and whether it needs the broken-down
  time. The elapsed-time formatters start from the current time.
\<close>

definition builtin_flag_1 :: "Padder \<Rightarrow> char \<Rightarrow> padding_info \<Rightarrow> ('c flag_formatter \<times> bool) option" where
  "builtin_flag_1 P flag padding =
     (if flag = CHR ''+'' then Some (Full_f padding full_state_init, True)
      else if flag = CHR ''n'' then Some (Name_f P padding, False)
      else if flag = CHR ''l'' then Some (Level_f P padding, False)
      else if flag = CHR ''L'' then Some (Short_level_f P padding, False)
      else if flag = CHR ''t'' then Some (T_id_f P padding, False)
      else if flag = CHR ''v'' then Some (V_f P padding, False)
      else if flag = CHR ''a'' then Some (A_f P padding, True)
      else if flag = CHR ''A'' then Some (Full_day_f P padding, True)
      else if flag = CHR ''b'' \<or> flag = CHR ''h'' then Some (B_f P padding, True)
      else if flag = CHR ''B'' then Some (Full_month_f P padding, True)
      else if flag = CHR ''c'' then Some (C_f P padding, True)
      else if flag = CHR ''C'' then Some (Year2_f P padding, True)
      else if flag = CHR ''Y'' then Some (Year_f P padding, True)
      else if flag = CHR ''D'' \<or> flag = CHR ''x'' then Some (Date_f P padding, True)
      else if flag = CHR ''m'' then Some (Month_f P padding, True)
      else if flag = CHR ''d'' then Some (Mday_f P padding, True)
      else if flag = CHR ''H'' then Some (Hour_f P padding, True)
      else if flag = CHR ''I'' then Some (Hour12_f P padding, True)
      else if flag = CHR ''M'' then Some (Min_f P padding, True)
      else if flag = CHR ''S'' then Some (Sec_f P padding, True)
      else if flag = CHR ''e'' then Some (Millis_f P padding, False)
      else if flag = CHR ''f'' then Some (Micros_f P padding, False)
      else if flag = CHR ''F'' then Some (Nanos_f P padding, False)
      else None)"

definition builtin_flag_2 :: "os_env \<Rightarrow> Padder \<Rightarrow> char \<Rightarrow> padding_info \<Rightarrow> ('c flag_formatter \<times> bool) option" where
  "builtin_flag_2 env P flag padding =
     (if flag = CHR ''E'' then Some (Epoch_f P padding, False)
      else if flag = CHR ''p'' then Some (Ampm_f P padding, True)
      else if flag = CHR ''r'' then Some (Clock12_f P padding, True)
      else if flag = CHR ''R'' then Some (Clock_f P padding, True)
      else if flag = CHR ''T'' \<or> flag = CHR ''X'' then Some (Iso_time_f P padding, True)
      else if flag = CHR ''z'' then Some (Z_f P padding z_state_init, True)
      else if flag = CHR ''P'' then Some (Pid_f P padding, False)
      else if flag = CHR ''^'' then Some (Color_start_f, False)
      else if flag = CHR ''$'' then Some (Color_stop_f, False)
      else if flag = CHR ''@'' then Some (Source_location_f P padding, False)
      else if flag = CHR ''s'' then Some (Short_filename_f P padding, False)
      else if flag = CHR ''g'' then Some (Source_filename_f P padding, False)
      else if flag = CHR ''#'' then Some (Source_linenum_f P padding, False)
      else if flag = CHR ''!'' then Some (Source_funcname_f P padding, False)
      else if flag = CHR ''%'' then Some (Ch_f CHR ''%'', False)
      else if flag = CHR ''u'' then Some (Elapsed_f ns_ns P padding (os_now env), False)
      else if flag = CHR ''i'' then Some (Elapsed_f ns_us P padding (os_now env), False)
      else if flag = CHR ''o'' then Some (Elapsed_f ns_ms P padding (os_now env), False)
      else if flag = CHR ''O'' then Some (Elapsed_f ns_s P padding (os_now env), False)
      else if flag = CHR ''&'' then Some (Mdc_f P padding, False)
      else None)"

definition unknown_flag :: "Padder \<Rightarrow> char \<Rightarrow> padding_info \<Rightarrow> 'c flag_formatter list" where
  "unknown_flag P flag padding =
     (if \<not> pi_truncate padding then [Aggregate_f [CHR ''%'', flag]]
      else [Source_funcname_f P (padding\<lparr>pi_truncate := False\<rparr>), Aggregate_f [flag]])"

definition handle_flag ::
  "'c custom_ops \<Rightarrow> os_env \<Rightarrow> Padder \<Rightarrow> char \<Rightarrow> padding_info \<Rightarrow> 'c pattern_formatter \<Rightarrow> 'c pattern_formatter" where
  "handle_flag ops env P flag padding pf =
     (case custom_handlers pf flag of
        Some c \<Rightarrow> pf\<lparr>formatters := formatters pf @ [Custom_f padding (custom_clone ops c)]\<rparr>
      | None \<Rightarrow>
          (case builtin_flag_1 P flag padding of
             Some (f, need) \<Rightarrow> pf\<lparr>formatters := formatters pf @ [f], need_localtime := need \<or> need_localtime pf\<rparr>
           | None \<Rightarrow>
               (case builtin_flag_2 env P flag padding of
                  Some (f, need) \<Rightarrow> pf\<lparr>formatters := formatters pf @ [f], need_localtime := need \<or> need_localtime pf\<rparr>
                | None \<Rightarrow> pf\<lparr>formatters := formatters pf @ unknown_flag P flag padding\<rparr>)))"

text \<open>The width wraps as a \<open>size_t\<close> and is then cut at 64.\<close>

fun read_width :: "nat \<Rightarrow> string \<Rightarrow> nat \<times> string" where
  "read_width w [] = (w, [])"
| "read_width w (c # it) =
     (if is_digit c then read_width ((w * 10 + digit_val c) mod 2 ^ 64) it else (w, c # it))"

definition max_width :: nat where
  "max_width = 64"

definition pad_side_mark :: "string \<Rightarrow> pad_side \<times> string" where
  "pad_side_mark it =
     (if hd it = CHR ''-'' then (Pad_right, tl it)
      else if hd it = CHR ''='' then (Pad_center, tl it)
      else (Pad_left, it))"

definition handle_padspec :: "string \<Rightarrow> padding_info \<times> string" where
  "handle_padspec it =
     (if it = [] then (padding_info_default, it)
      else
        let (s, it1) = pad_side_mark it
        in if it1 = [] \<or> \<not> is_digit (hd it1) then (padding_info_default, it1)
           else
             let (w, it2) = read_width (digit_val (hd it1)) (tl it1);
                 (trunc, it3) = (if it2 \<noteq> [] \<and> hd it2 = CHR ''!'' then (True, tl it2) else (False, it2))
             in (padding_info_new (min w max_width) s trunc, it3))"

lemma length_read_width: "length (snd (read_width w it)) \<le> length it"
  by (induction w it rule: read_width.induct) auto

lemma length_handle_padspec: "length (snd (handle_padspec it)) \<le> length it"
proof -
  have mark: "length (snd (pad_side_mark it)) \<le> length it"
    by (simp add: pad_side_mark_def)
  have width: "length (snd (read_width w (tl it1))) \<le> length it1" for w it1
    using length_read_width [of w "tl it1"] by (simp add: le_diff_conv)
  show ?thesis
    using mark width [of _ "snd (pad_side_mark it)"]
    by (auto simp: handle_padspec_def Let_def split: prod.splits)
      (metis diff_le_self dual_order.trans snd_conv length_tl)+
qed

definition flush_chars :: "string option \<Rightarrow> 'c pattern_formatter \<Rightarrow> 'c pattern_formatter" where
  "flush_chars user_chars pf =
     (case user_chars of Some s \<Rightarrow> pf\<lparr>formatters := formatters pf @ [Aggregate_f s]\<rparr> | None \<Rightarrow> pf)"

definition add_ch :: "char \<Rightarrow> string option \<Rightarrow> string option" where
  "add_ch c user_chars = (case user_chars of Some s \<Rightarrow> Some (s @ [c]) | None \<Rightarrow> Some [c])"

function compile_loop ::
  "'c custom_ops \<Rightarrow> os_env \<Rightarrow> string \<Rightarrow> string option \<Rightarrow> 'c pattern_formatter \<Rightarrow> 'c pattern_formatter" where
  "compile_loop ops env [] user_chars pf = flush_chars user_chars pf"
| "compile_loop ops env (c # it) user_chars pf =
     (if c = CHR ''%'' then
        (let pf' = flush_chars user_chars pf;
             padding = fst (handle_padspec it)
         in case snd (handle_padspec it) of
              [] \<Rightarrow> pf'
            | flag # it' \<Rightarrow>
                compile_loop ops env it' None
                  (if pi_enabled padding then handle_flag ops env Scoped flag padding pf'
                   else handle_flag ops env Null_scoped flag padding pf'))
      else compile_loop ops env it (add_ch c user_chars) pf)"
  by pat_completeness auto
termination
proof (relation "measure (\<lambda>(ops, env, it, user_chars, pf). length it)", goal_cases)
  case (2 ops env c it user_chars pf x xa flag it')
  then show ?case using length_handle_padspec [of it] by simp
qed auto

definition compile_pattern :: "'c custom_ops \<Rightarrow> os_env \<Rightarrow> string \<Rightarrow> 'c pattern_formatter \<Rightarrow> 'c pattern_formatter" where
  "compile_pattern ops env pat pf = compile_loop ops env pat None (pf\<lparr>formatters := []\<rparr>)"

subsection \<open>Construction and formatting\<close>

definition pattern_formatter_new ::
  "'c custom_ops \<Rightarrow> os_env \<Rightarrow> string \<Rightarrow> pattern_time_type \<Rightarrow> string \<Rightarrow> (char \<rightharpoonup> 'c) \<Rightarrow> 'c pattern_formatter" where
  "pattern_formatter_new ops env pat tt end_of_line custom_user_flags =
     compile_pattern ops env pat
       \<lparr>pattern = pat, eol = end_of_line, time_type = tt, need_localtime = False, cached_tm = zero_tm,
        last_log_secs = 0, formatters = [], custom_handlers = custom_user_flags\<rparr>"

definition pattern_formatter_default :: "pattern_time_type \<Rightarrow> string \<Rightarrow> 'c pattern_formatter" where
  "pattern_formatter_default tt end_of_line =
     \<lparr>pattern = ''%+'', eol = end_of_line, time_type = tt, need_localtime = True, cached_tm = zero_tm,
      last_log_secs = 0, formatters = [Full_f padding_info_default full_state_init], custom_handlers = Map.empty\<rparr>"

definition add_flag :: "char \<Rightarrow> 'c \<Rightarrow> 'c pattern_formatter \<Rightarrow> 'c pattern_formatter" where
  "add_flag flag c pf = pf\<lparr>custom_handlers := (custom_handlers pf)(flag \<mapsto> c)\<rparr>"

definition set_need_localtime :: "bool \<Rightarrow> 'c pattern_formatter \<Rightarrow> 'c pattern_formatter" where
  "set_need_localtime need pf = pf\<lparr>need_localtime := need\<rparr>"

definition set_pattern :: "'c custom_ops \<Rightarrow> os_env \<Rightarrow> string \<Rightarrow> 'c pattern_formatter \<Rightarrow> 'c pattern_formatter" where
  "set_pattern ops env pat pf = compile_pattern ops env pat (pf\<lparr>pattern := pat, need_localtime := False\<rparr>)"

definition pf_clone :: "'c custom_ops \<Rightarrow> os_env \<Rightarrow> 'c pattern_formatter \<Rightarrow> 'c pattern_formatter" where
  "pf_clone ops env pf =
     (let cloned_custom_formatters = (\<lambda>c. map_option (custom_clone ops) (custom_handlers pf c));
          cloned = pattern_formatter_new ops env (pattern pf) (time_type pf) (eol pf) cloned_custom_formatters
      in set_need_localtime (need_localtime pf) cloned)"

text \<open>\<open>log_clock::to_time_t\<close> gives whole seconds.\<close>

definition get_time :: "os_env \<Rightarrow> log_msg \<Rightarrow> 'c pattern_formatter \<Rightarrow> tm" where
  "get_time env msg pf =
     (if time_type pf = Time_local then os_localtime env (duration_cast ns_s (time msg))
      else os_gmtime env (duration_cast ns_s (time msg)))"

definition refresh_tm :: "os_env \<Rightarrow> log_msg \<Rightarrow> 'c pattern_formatter \<Rightarrow> 'c pattern_formatter" where
  "refresh_tm env msg pf =
     (if need_localtime pf then
        let secs = duration_cast ns_s (time msg)
        in if secs \<noteq> last_log_secs pf then pf\<lparr>cached_tm := get_time env msg pf, last_log_secs := secs\<rparr> else pf
      else pf)"

fun run_formatters ::
  "'c custom_ops \<Rightarrow> os_env \<Rightarrow> tm \<Rightarrow> 'c flag_formatter list \<Rightarrow> log_msg \<Rightarrow> memory_buf
     \<Rightarrow> ('c flag_formatter list \<times> log_msg \<times> memory_buf) res" where
  "run_formatters ops env t [] msg dest = Inr ([], msg, dest)"
| "run_formatters ops env t (f # fs) msg dest =
     bind_r (flag_format ops env t f msg dest) (\<lambda>(f', msg', d).
       map_r (\<lambda>(fs', r). (f' # fs', r)) (run_formatters ops env t fs msg' d))"

definition pf_format ::
  "'c custom_ops \<Rightarrow> os_env \<Rightarrow> log_msg \<Rightarrow> 'c pattern_formatter \<Rightarrow> memory_buf
     \<Rightarrow> ('c pattern_formatter \<times> log_msg \<times> memory_buf) res" where
  "pf_format ops env msg pf dest =
     (let pf' = refresh_tm env msg pf
      in map_r (\<lambda>(fs, msg', d). (pf'\<lparr>formatters := fs\<rparr>, msg', append_string_view (eol pf') d))
           (run_formatters ops env (cached_tm pf') (formatters pf') msg dest))"

end
