(* ===== verification/Log_Safety.thy ===== *)
theory Log_Safety
  imports Log_Pattern
begin

section \<open>Logging: every pattern formats every message\<close>

text \<open>
  The padder takes its blanks from a constant of 64 characters, the name formatters read fixed
  arrays, and the elapsed time is a difference of two time points: this theory shows that none of
  them leaves its bounds, for every pattern, over any sequence of messages.
\<close>

definition padding_ok :: "padding_info \<Rightarrow> bool" where
  "padding_ok p \<longleftrightarrow> pi_width p \<le> max_width"

definition time_ok :: "int \<Rightarrow> bool" where
  "time_ok t \<longleftrightarrow> 0 \<le> t \<and> t < 2 ^ 63"

definition tm_ok :: "tm \<Rightarrow> bool" where
  "tm_ok t \<longleftrightarrow> 0 \<le> tm_wday t \<and> tm_wday t < 7 \<and> 0 \<le> tm_mon t \<and> tm_mon t < 12"

definition msg_ok :: "log_msg \<Rightarrow> bool" where
  "msg_ok m \<longleftrightarrow> msg_level m \<noteq> Lv_n_levels \<and> time_ok (time m) \<and>
     (\<not> source_empty (msg_source m) \<longrightarrow> filename (msg_source m) \<noteq> None \<and> funcname (msg_source m) \<noteq> None)"

definition env_ok :: "os_env \<Rightarrow> bool" where
  "env_ok env \<longleftrightarrow> time_ok (os_now env) \<and> (\<forall>s. tm_ok (os_localtime env s) \<and> tm_ok (os_gmtime env s))"

primrec flag_ok :: "'c flag_formatter \<Rightarrow> bool" where
  "flag_ok (Full_f p st) = True"
| "flag_ok (Name_f P p) = padding_ok p"
| "flag_ok (Level_f P p) = padding_ok p"
| "flag_ok (Short_level_f P p) = padding_ok p"
| "flag_ok (T_id_f P p) = padding_ok p"
| "flag_ok (V_f P p) = padding_ok p"
| "flag_ok (A_f P p) = padding_ok p"
| "flag_ok (Full_day_f P p) = padding_ok p"
| "flag_ok (B_f P p) = padding_ok p"
| "flag_ok (Full_month_f P p) = padding_ok p"
| "flag_ok (C_f P p) = padding_ok p"
| "flag_ok (Year2_f P p) = padding_ok p"
| "flag_ok (Year_f P p) = padding_ok p"
| "flag_ok (Date_f P p) = padding_ok p"
| "flag_ok (Month_f P p) = padding_ok p"
| "flag_ok (Mday_f P p) = padding_ok p"
| "flag_ok (Hour_f P p) = padding_ok p"
| "flag_ok (Hour12_f P p) = padding_ok p"
| "flag_ok (Min_f P p) = padding_ok p"
| "flag_ok (Sec_f P p) = padding_ok p"
| "flag_ok (Millis_f P p) = padding_ok p"
| "flag_ok (Micros_f P p) = padding_ok p"
| "flag_ok (Nanos_f P p) = padding_ok p"
| "flag_ok (Epoch_f P p) = padding_ok p"
| "flag_ok (Ampm_f P p) = padding_ok p"
| "flag_ok (Clock12_f P p) = padding_ok p"
| "flag_ok (Clock_f P p) = padding_ok p"
| "flag_ok (Iso_time_f P p) = padding_ok p"
| "flag_ok (Z_f P p z) = (padding_ok p \<and> time_ok (last_update z))"
| "flag_ok (Pid_f P p) = padding_ok p"
| "flag_ok Color_start_f = True"
| "flag_ok Color_stop_f = True"
| "flag_ok (Source_location_f P p) = padding_ok p"
| "flag_ok (Short_filename_f P p) = padding_ok p"
| "flag_ok (Source_filename_f P p) = padding_ok p"
| "flag_ok (Source_linenum_f P p) = padding_ok p"
| "flag_ok (Source_funcname_f P p) = padding_ok p"
| "flag_ok (Ch_f c) = True"
| "flag_ok (Elapsed_f u P p t) = (padding_ok p \<and> time_ok t)"
| "flag_ok (Mdc_f P p) = padding_ok p"
| "flag_ok (Aggregate_f s) = True"
| "flag_ok (Custom_f p c) = False"

definition pf_ok :: "'c pattern_formatter \<Rightarrow> bool" where
  "pf_ok pf \<longleftrightarrow> list_all flag_ok (formatters pf) \<and> tm_ok (cached_tm pf)"

text \<open>A sink's sequence of lines: the same formatter over one message after another.\<close>

fun format_all :: "'c custom_ops \<Rightarrow> os_env \<Rightarrow> log_msg list \<Rightarrow> 'c pattern_formatter \<Rightarrow> string list res" where
  "format_all ops env [] pf = Inr []"
| "format_all ops env (m # ms) pf =
     bind_r (pf_format ops env m pf []) (\<lambda>(pf', m', l). map_r ((#) l) (format_all ops env ms pf'))"

subsection \<open>Padders and arrays\<close>

lemma pad_it_defined: "0 \<le> c \<Longrightarrow> c \<le> 64 \<Longrightarrow> pad_it c d = Inr (d @ replicate (nat c) CHR '' '')"
  by (simp add: pad_it_def spaces_size_def append_string_view_def)

lemma scoped_padder_begin_defined:
  assumes "padding_ok p" shows "\<exists>r d. scoped_padder_begin n p dest = Inr (r, d) \<and> r \<le> 64"
proof -
  define r where "r = int (pi_width p) - int n"
  have r: "r \<le> 64" using assms by (simp add: r_def padding_ok_def max_width_def)
  then have h: "0 < r \<Longrightarrow> 0 \<le> r div 2 \<and> r div 2 \<le> 64" "0 < r \<Longrightarrow> r div 2 + r mod 2 \<le> 64" by presburger+
  show ?thesis
    using r h by (cases "pi_side p") (simp_all add: scoped_padder_begin_def Let_def r_def [symmetric] pad_it_defined)
qed

lemma scoped_padder_end_defined: "r \<le> 64 \<Longrightarrow> \<exists>d'. scoped_padder_end p r d = Inr d'"
  by (simp add: scoped_padder_end_def pad_it_defined)

lemma with_padder_defined:
  assumes "padding_ok p" shows "\<exists>d. with_padder P p n w dest = Inr d"
proof (cases P)
  case Scoped
  then show ?thesis
    using scoped_padder_begin_defined [OF assms, of n dest] scoped_padder_end_defined
    by (auto simp: with_padder_def)
qed (simp add: with_padder_def)

lemma at_size_defined: "0 \<le> i \<Longrightarrow> i < int (length xs) \<Longrightarrow> length xs < 2 ^ 64 \<Longrightarrow> \<exists>x. at_size xs i = Inr x"
  by (simp add: at_size_def at_r_def nat_less_iff)

lemma day_names_defined:
  "tm_ok t \<Longrightarrow> \<exists>x. at_size days (tm_wday t) = Inr x"
  "tm_ok t \<Longrightarrow> \<exists>x. at_size full_days (tm_wday t) = Inr x"
  "tm_ok t \<Longrightarrow> \<exists>x. at_size months (tm_mon t) = Inr x"
  "tm_ok t \<Longrightarrow> \<exists>x. at_size full_months (tm_mon t) = Inr x"
  by (rule at_size_defined; simp add: tm_ok_def days_def full_days_def months_def full_months_def)+

lemma level_names_defined:
  "l \<noteq> Lv_n_levels \<Longrightarrow> \<exists>x. level_to_string_view l = Inr x"
  "l \<noteq> Lv_n_levels \<Longrightarrow> \<exists>x. to_short_c_str l = Inr x"
  by (cases l; simp add: level_to_string_view_def to_short_c_str_def at_r_def level_string_views_def
      short_level_names_def)+

lemma time_diff_defined: "time_ok a \<Longrightarrow> time_ok b \<Longrightarrow> ssub a b = Inr (a - b)"
  by (simp add: time_ok_def ssub_def chk_def in_s64_def)

lemma format_mdc_defined: "padding_ok p \<Longrightarrow> \<exists>d. format_mdc P p ctx dest = Inr d"
proof (induction ctx arbitrary: dest)
  case (Cons kv it)
  obtain k v where "kv = (k, v)" by (cases kv)
  with Cons with_padder_defined [OF Cons.prems] show ?case
    by (simp add: Let_def bind_r_Inr_iff) metis
qed simp

lemma padding_default_ok [simp]: "padding_ok padding_info_default"
  by (simp add: padding_ok_def padding_info_default_def)

subsection \<open>Formatters\<close>

lemmas formatter_defs =
  name_formatter_def level_formatter_def short_level_formatter_def a_formatter_def A_formatter_def
  b_formatter_def B_formatter_def c_formatter_def C_formatter_def D_formatter_def Y_formatter_def
  m_formatter_def d_formatter_def H_formatter_def I_formatter_def M_formatter_def S_formatter_def
  e_formatter_def f_formatter_def F_formatter_def E_formatter_def p_formatter_def r_formatter_def
  R_formatter_def T_formatter_def t_formatter_def pid_formatter_def v_formatter_def

lemmas source_formatter_defs =
  source_location_formatter_def source_filename_formatter_def short_filename_formatter_def
  source_linenum_formatter_def source_funcname_formatter_def

lemma source_formatters_defined:
  assumes "padding_ok p" and "msg_ok m"
  shows "\<exists>d. source_location_formatter P p m dest = Inr d"
    and "\<exists>d. source_filename_formatter P p m dest = Inr d"
    and "\<exists>d. short_filename_formatter P p m dest = Inr d"
    and "\<exists>d. source_linenum_formatter P p m dest = Inr d"
    and "\<exists>d. source_funcname_formatter P p m dest = Inr d"
  using assms with_padder_defined [OF assms(1)]
  by (auto simp: source_formatter_defs msg_ok_def c_str_def Let_def)

lemma msg_ok_color [simp]: "msg_ok (m\<lparr>color_range_start := a\<rparr>) = msg_ok m" "msg_ok (m\<lparr>color_range_end := a\<rparr>) = msg_ok m"
  by (simp_all add: msg_ok_def)

lemma full_formatter_defined:
  assumes "msg_ok m"
  shows "\<exists>st' m' d. full_formatter env m t st dest = Inr (st', m', d) \<and> msg_ok m'"
proof -
  obtain l where l: "level_to_string_view (msg_level m) = Inr l"
    using assms level_names_defined(1) by (auto simp: msg_ok_def)
  have "\<exists>d'. full_source m d = Inr d'" for d
    using assms by (auto simp: full_source_def msg_ok_def c_str_def Let_def)
  then obtain g where g: "\<And>d. full_source m d = Inr (g d)" by metis
  have "\<exists>d'. full_mdc env d = Inr d'" for d
    using format_mdc_defined [OF padding_default_ok, of Null_scoped "mdc_context env"]
    by (auto simp: full_mdc_def bind_r_Inr_iff)
  then obtain h where h: "\<And>d. full_mdc env d = Inr (h d)" by metis
  show ?thesis
    using assms by (simp add: full_formatter_def Let_def l g h)
qed

lemma z_formatter_defined:
  assumes "padding_ok p" "msg_ok m" "time_ok (last_update z)"
  shows "\<exists>z' d. z_formatter env P p m t z dest = Inr (z', d) \<and> time_ok (last_update z')"
  using assms with_padder_defined [OF assms(1)]
  by (auto simp: z_formatter_def get_cached_offset_def time_diff_defined msg_ok_def Let_def
      bind_r_Inr_iff map_r_Inr_iff)

lemma elapsed_formatter_defined:
  assumes "padding_ok p" "msg_ok m" "time_ok t"
  shows "\<exists>d. elapsed_formatter u P p m t dest = Inr (time m, d)"
  using assms with_padder_defined [OF assms(1)]
  by (simp add: elapsed_formatter_def time_diff_defined msg_ok_def Let_def map_r_Inr_iff)

lemma formatters_defined:
  assumes "padding_ok p" and "msg_ok m" and "tm_ok t"
  shows "\<exists>d. name_formatter P p m dest = Inr d" "\<exists>d. level_formatter P p m dest = Inr d"
    "\<exists>d. short_level_formatter P p m dest = Inr d" "\<exists>d. t_formatter P p m dest = Inr d"
    "\<exists>d. v_formatter P p m dest = Inr d" "\<exists>d. a_formatter P p t dest = Inr d"
    "\<exists>d. A_formatter P p t dest = Inr d" "\<exists>d. b_formatter P p t dest = Inr d"
    "\<exists>d. B_formatter P p t dest = Inr d" "\<exists>d. c_formatter P p t dest = Inr d"
    "\<exists>d. C_formatter P p t dest = Inr d" "\<exists>d. Y_formatter P p t dest = Inr d"
    "\<exists>d. D_formatter P p t dest = Inr d" "\<exists>d. m_formatter P p t dest = Inr d"
    "\<exists>d. d_formatter P p t dest = Inr d" "\<exists>d. H_formatter P p t dest = Inr d"
    "\<exists>d. I_formatter P p t dest = Inr d" "\<exists>d. M_formatter P p t dest = Inr d"
    "\<exists>d. S_formatter P p t dest = Inr d" "\<exists>d. e_formatter P p m dest = Inr d"
    "\<exists>d. f_formatter P p m dest = Inr d" "\<exists>d. F_formatter P p m dest = Inr d"
    "\<exists>d. E_formatter P p m dest = Inr d" "\<exists>d. p_formatter P p t dest = Inr d"
    "\<exists>d. r_formatter P p t dest = Inr d" "\<exists>d. R_formatter P p t dest = Inr d"
    "\<exists>d. T_formatter P p t dest = Inr d" "\<exists>d. pid_formatter env P p dest = Inr d"
    "\<exists>d. mdc_formatter env P p dest = Inr d"
proof -
  show "\<exists>d. mdc_formatter env P p dest = Inr d"
    using with_padder_defined [OF assms(1)] format_mdc_defined [OF assms(1)] by (simp add: mdc_formatter_def)
qed (use with_padder_defined [OF assms(1)] day_names_defined [OF assms(3)] level_names_defined [of "msg_level m"] assms(2)
  in \<open>auto simp: formatter_defs Let_def msg_ok_def\<close>)

definition step_ok :: "('c flag_formatter \<times> log_msg \<times> memory_buf) res \<Rightarrow> bool" where
  "step_ok r \<longleftrightarrow> (\<exists>f m d. r = Inr (f, m, d) \<and> flag_ok f \<and> msg_ok m)"

lemma plain_f_defined: "\<exists>d. r = Inr d \<Longrightarrow> flag_ok f \<Longrightarrow> msg_ok m \<Longrightarrow> step_ok (plain_f f m r)"
  by (auto simp: plain_f_def step_ok_def)

lemma step_ok_fixed [simp]: "step_ok (Inr (f, m, d)) \<longleftrightarrow> flag_ok f \<and> msg_ok m"
  by (simp add: step_ok_def)

lemma flag_format_defined:
  assumes "flag_ok f" "msg_ok m" "tm_ok t"
  shows "step_ok (flag_format ops env t f m dest)"
proof (cases f)
  case (Full_f p st)
  then show ?thesis
    using full_formatter_defined [OF assms(2), of env t st dest] by (auto simp: flag_format_def step_ok_def)
next
  case (Z_f P p z)
  then show ?thesis
    using assms z_formatter_defined [OF _ assms(2), of p z env P t dest] by (auto simp: flag_format_def step_ok_def)
next
  case (Elapsed_f u P p l)
  then show ?thesis
    using assms elapsed_formatter_defined [OF _ assms(2), of p l u P dest]
    by (auto simp: flag_format_def step_ok_def msg_ok_def)
qed (use assms in \<open>auto simp: flag_format_def color_start_formatter_def color_stop_formatter_def
      intro!: plain_f_defined formatters_defined source_formatters_defined\<close>)

lemma run_formatters_defined:
  assumes "list_all flag_ok fs" "msg_ok m" "tm_ok t"
  shows "\<exists>fs' m' d. run_formatters ops env t fs m dest = Inr (fs', m', d) \<and> list_all flag_ok fs'"
  using assms
proof (induction fs arbitrary: m dest)
  case (Cons f fs)
  obtain f' m' d where 1: "flag_format ops env t f m dest = Inr (f', m', d)" "flag_ok f'" "msg_ok m'"
    using flag_format_defined [of f m t ops env dest] Cons.prems by (auto simp: step_ok_def)
  with Cons.IH [of m' d] Cons.prems show ?case by auto
qed simp

lemma refresh_tm_ok: "pf_ok pf \<Longrightarrow> env_ok env \<Longrightarrow> pf_ok (refresh_tm env m pf)"
  by (simp add: refresh_tm_def Let_def pf_ok_def env_ok_def get_time_def)

lemma pf_format_defined:
  assumes "pf_ok pf" "msg_ok m" "env_ok env"
  shows "\<exists>pf' m' d. pf_format ops env m pf dest = Inr (pf', m', d) \<and> pf_ok pf'"
proof -
  have ok: "pf_ok (refresh_tm env m pf)" using assms by (simp add: refresh_tm_ok)
  then show ?thesis
    using run_formatters_defined [of "formatters (refresh_tm env m pf)" m "cached_tm (refresh_tm env m pf)" ops env dest]
      assms(2) by (auto simp: pf_format_def Let_def pf_ok_def)
qed

subsection \<open>Compiled patterns\<close>

lemma handle_padspec_ok: "padding_ok (fst (handle_padspec it))"
  by (auto simp: handle_padspec_def Let_def padding_ok_def padding_info_default_def padding_info_new_def
      split: prod.splits)

lemma builtin_flags_ok:
  "padding_ok p \<Longrightarrow> pred_option (\<lambda>(f :: 'c flag_formatter, need). flag_ok f) (builtin_flag_1 P c p)"
  "padding_ok p \<Longrightarrow> env_ok env \<Longrightarrow> pred_option (\<lambda>(f :: 'c flag_formatter, need). flag_ok f) (builtin_flag_2 env P c p)"
  by (simp_all add: builtin_flag_1_def builtin_flag_2_def env_ok_def z_state_init_def time_ok_def)

lemma builtin_flags_okD:
  fixes f :: "'c flag_formatter"
  shows "builtin_flag_1 P c p = Some (f, need) \<Longrightarrow> padding_ok p \<Longrightarrow> flag_ok f"
    and "builtin_flag_2 env P c p = Some (f, need) \<Longrightarrow> padding_ok p \<Longrightarrow> env_ok env \<Longrightarrow> flag_ok f"
  using builtin_flags_ok(1) [where 'c = 'c, of p P c] builtin_flags_ok(2) [where 'c = 'c, of p env P c]
  by (metis (no_types, lifting) case_prodD option.pred_inject(2))+

lemma unknown_flag_ok: "padding_ok p \<Longrightarrow> list_all flag_ok (unknown_flag P c p)"
  by (simp add: unknown_flag_def padding_ok_def)

lemma handle_flag_ok:
  assumes "pf_ok pf" "custom_handlers pf = Map.empty" "padding_ok p" "env_ok env"
  shows "pf_ok (handle_flag ops env P c p pf)" and "custom_handlers (handle_flag ops env P c p pf) = Map.empty"
  using assms
  by (auto simp: handle_flag_def pf_ok_def unknown_flag_ok dest: builtin_flags_okD split: option.splits)

lemma flush_chars_ok:
  "pf_ok pf \<Longrightarrow> pf_ok (flush_chars uc pf)" "custom_handlers (flush_chars uc pf) = custom_handlers pf"
  by (auto simp: flush_chars_def pf_ok_def split: option.splits)

lemma compile_loop_ok:
  "pf_ok pf \<Longrightarrow> custom_handlers pf = Map.empty \<Longrightarrow> env_ok env \<Longrightarrow> pf_ok (compile_loop ops env it uc pf)"
proof (induction ops env it uc pf rule: compile_loop.induct)
  case (2 ops env c it uc pf)
  then show ?case
    by (auto simp: Let_def flush_chars_ok handle_flag_ok handle_padspec_ok split: list.split)
qed (simp add: flush_chars_ok)

lemma pattern_formatter_new_ok: "env_ok env \<Longrightarrow> pf_ok (pattern_formatter_new ops env pat tt el Map.empty)"
  unfolding pattern_formatter_new_def compile_pattern_def
  by (rule compile_loop_ok) (simp_all add: pf_ok_def zero_tm_def tm_ok_def)

lemma format_all_defined:
  "pf_ok pf \<Longrightarrow> env_ok env \<Longrightarrow> list_all msg_ok ms \<Longrightarrow> \<exists>ls. format_all ops env ms pf = Inr ls \<and> length ls = length ms"
proof (induction ms arbitrary: pf)
  case (Cons m ms)
  then obtain pf' m' l where "pf_format ops env m pf [] = Inr (pf', m', l)" "pf_ok pf'"
    using pf_format_defined [of pf m env ops "[]"] by auto
  with Cons.IH [of pf'] Cons.prems show ?case by auto
qed simp

subsection \<open>Property\<close>

text \<open>
  C24. Every pattern formats every sequence of messages: whatever the pattern string (any widths,
  unknown flags, a trailing percent sign), a formatter compiled from it without custom flags prints one line for each
  message and never pads beyond its constant of blanks, indexes the arrays of names out of bounds,
  overflows an elapsed time or reads a null string, as long as the broken-down times are in range, the levels
  are levels of messages and every message with a source line names its file and function.
\<close>

theorem every_pattern_formats:
  assumes "env_ok env" and "list_all msg_ok ms"
  shows "\<exists>ls. format_all ops env ms (pattern_formatter_new ops env pat tt el Map.empty) = Inr ls
           \<and> length ls = length ms"
  using format_all_defined pattern_formatter_new_ok assms by blast

definition test_env :: os_env where
  "test_env =
     \<lparr>os_pid = 77, os_localtime = (\<lambda>s. zero_tm\<lparr>tm_sec := s mod 60, tm_mday := 1, tm_year := 125\<rparr>),
      os_gmtime = (\<lambda>s. zero_tm\<lparr>tm_sec := s mod 60, tm_mday := 1, tm_year := 125\<rparr>),
      utc_minutes_offset = (\<lambda>t. 60), os_now = 0, mdc_context = []\<rparr>"

definition no_custom :: "unit custom_ops" where
  "no_custom = \<lparr>custom_clone = id, custom_format = (\<lambda>c p m t d. Inr (c, m, d))\<rparr>"

definition test_msg :: log_msg where
  "test_msg = log_msg_at 1 5000000000 \<lparr>filename = Some ''src/core/portfolio.cpp'', line = 12, funcname = Some ''f''\<rparr>
     ''bt'' Lv_info ''hello''"

theorem every_pattern_formats_witness:
  "\<exists>ls. format_all no_custom test_env [test_msg, test_msg]
     (pattern_formatter_new no_custom test_env ''%-12!n|%=70v|%k%'' Time_utc [CHR 0x0A] Map.empty) = Inr ls
     \<and> length ls = length [test_msg, test_msg]"
proof (rule every_pattern_formats)
  show "env_ok test_env" by (simp add: env_ok_def test_env_def time_ok_def tm_ok_def zero_tm_def)
  show "list_all msg_ok [test_msg, test_msg]"
    by (simp add: test_msg_def log_msg_at_def msg_ok_def time_ok_def source_empty_def)
qed

end
