(* ===== verification/Log_Lines.thy ===== *)
theory Log_Lines
  imports Log_Safety
begin

section \<open>Logging: what the lines say\<close>

text \<open>
  Two equivalences of the pattern formatter. The formatter for \<open>%+\<close>, with its cached date, prints the
  lines of the pattern its comment gives, part for part; the cache of the broken-down time and the rule that
  decides which patterns need that time are invisible in the lines.
\<close>

subsection \<open>Frame of compilation\<close>

lemma flush_chars_frame [simp]:
  "pattern (flush_chars uc pf) = pattern pf" "eol (flush_chars uc pf) = eol pf"
  "time_type (flush_chars uc pf) = time_type pf" "cached_tm (flush_chars uc pf) = cached_tm pf"
  "last_log_secs (flush_chars uc pf) = last_log_secs pf" "custom_handlers (flush_chars uc pf) = custom_handlers pf"
  "need_localtime (flush_chars uc pf) = need_localtime pf"
  by (simp_all add: flush_chars_def split: option.split)

lemma handle_flag_frame [simp]:
  "pattern (handle_flag ops env P c p pf) = pattern pf" "eol (handle_flag ops env P c p pf) = eol pf"
  "time_type (handle_flag ops env P c p pf) = time_type pf"
  "cached_tm (handle_flag ops env P c p pf) = cached_tm pf"
  "last_log_secs (handle_flag ops env P c p pf) = last_log_secs pf"
  "custom_handlers (handle_flag ops env P c p pf) = custom_handlers pf"
  by (simp_all add: handle_flag_def split: option.split)

lemma compile_loop_frame [simp]:
  "pattern (compile_loop ops env it uc pf) = pattern pf"
  "eol (compile_loop ops env it uc pf) = eol pf"
  "time_type (compile_loop ops env it uc pf) = time_type pf"
  "cached_tm (compile_loop ops env it uc pf) = cached_tm pf"
  "last_log_secs (compile_loop ops env it uc pf) = last_log_secs pf"
  "custom_handlers (compile_loop ops env it uc pf) = custom_handlers pf"
  by (induction ops env it uc pf rule: compile_loop.induct) (simp_all add: Let_def split: list.split)

lemma pattern_formatter_new_frame [simp]:
  "pattern (pattern_formatter_new ops env pat tt el h) = pat"
  "eol (pattern_formatter_new ops env pat tt el h) = el"
  "time_type (pattern_formatter_new ops env pat tt el h) = tt"
  "cached_tm (pattern_formatter_new ops env pat tt el h) = zero_tm"
  "last_log_secs (pattern_formatter_new ops env pat tt el h) = 0"
  "custom_handlers (pattern_formatter_new ops env pat tt el h) = h"
  by (simp_all add: pattern_formatter_new_def compile_pattern_def)

subsection \<open>The full formatter\<close>

text \<open>
  The pattern of the comment in \<open>full_formatter\<close>, without the parts a message does not have: the name of the logger, the source line,
  the diagnostic context.
\<close>

definition full_pattern :: "bool \<Rightarrow> bool \<Rightarrow> bool \<Rightarrow> string" where
  "full_pattern named located mdc =
     ''[%Y-%m-%d %H:%M:%S.%e] '' @ (if named then ''[%n] '' else []) @ ''[%^%l%$] '' @
     (if located then ''[%s:%#] '' else []) @ (if mdc then ''[%&] '' else []) @ ''%v''"

definition full_flags :: "bool \<Rightarrow> bool \<Rightarrow> bool \<Rightarrow> 'c flag_formatter list" where
  "full_flags named located mdc =
     (let P = Null_scoped; p = padding_info_default
      in [Aggregate_f ''['', Year_f P p, Aggregate_f ''-'', Month_f P p, Aggregate_f ''-'', Mday_f P p,
          Aggregate_f '' '', Hour_f P p, Aggregate_f '':'', Min_f P p, Aggregate_f '':'', Sec_f P p,
          Aggregate_f ''.'', Millis_f P p, Aggregate_f ''] [''] @
         (if named then [Name_f P p, Aggregate_f ''] [''] else []) @
         [Color_start_f, Level_f P p, Color_stop_f] @
         (if located then [Aggregate_f ''] ['', Short_filename_f P p, Aggregate_f '':'', Source_linenum_f P p] else []) @
         (if mdc then [Aggregate_f ''] ['', Mdc_f P p] else []) @ [Aggregate_f ''] '', V_f P p])"

text \<open>One step of compilation at a literal character and at a flag without padding.\<close>

definition builtin_flag :: "os_env \<Rightarrow> Padder \<Rightarrow> char \<Rightarrow> padding_info \<Rightarrow> ('c flag_formatter \<times> bool) option" where
  "builtin_flag env P c p = (case builtin_flag_1 P c p of Some r \<Rightarrow> Some r | None \<Rightarrow> builtin_flag_2 env P c p)"

lemma handle_flag_builtin:
  "custom_handlers pf = Map.empty \<Longrightarrow> builtin_flag env P c p = Some (f, need) \<Longrightarrow>
     handle_flag ops env P c p pf = pf\<lparr>formatters := formatters pf @ [f], need_localtime := need \<or> need_localtime pf\<rparr>"
  by (auto simp: handle_flag_def builtin_flag_def split: option.splits)

lemma handle_padspec_plain:
  "\<not> is_digit c \<Longrightarrow> c \<noteq> CHR ''-'' \<Longrightarrow> c \<noteq> CHR ''='' \<Longrightarrow> handle_padspec (c # it) = (padding_info_default, c # it)"
  by (simp add: handle_padspec_def pad_side_mark_def)

lemma compile_flag:
  assumes "custom_handlers pf = Map.empty" "\<not> is_digit c" "c \<noteq> CHR ''-''" "c \<noteq> CHR ''=''"
    "builtin_flag env Null_scoped c padding_info_default = Some r"
  shows "compile_loop ops env (CHR ''%'' # c # it) uc pf =
    compile_loop ops env it None
      ((flush_chars uc pf)\<lparr>formatters := formatters (flush_chars uc pf) @ [fst r], need_localtime := snd r \<or> need_localtime pf\<rparr>)"
  using assms by (cases r) (simp add: handle_padspec_plain handle_flag_builtin padding_info_default_def)

lemma compile_char:
  "c \<noteq> CHR ''%'' \<Longrightarrow> compile_loop ops env (c # it) uc pf = compile_loop ops env it (add_ch c uc) pf"
  by simp

lemma builtin_flag_values:
  "builtin_flag env P CHR ''Y'' p = Some (Year_f P p, True)"
  "builtin_flag env P CHR ''m'' p = Some (Month_f P p, True)"
  "builtin_flag env P CHR ''d'' p = Some (Mday_f P p, True)"
  "builtin_flag env P CHR ''H'' p = Some (Hour_f P p, True)"
  "builtin_flag env P CHR ''M'' p = Some (Min_f P p, True)"
  "builtin_flag env P CHR ''S'' p = Some (Sec_f P p, True)"
  "builtin_flag env P CHR ''e'' p = Some (Millis_f P p, False)"
  "builtin_flag env P CHR ''n'' p = Some (Name_f P p, False)"
  "builtin_flag env P CHR ''l'' p = Some (Level_f P p, False)"
  "builtin_flag env P CHR ''v'' p = Some (V_f P p, False)"
  "builtin_flag env P CHR ''s'' p = Some (Short_filename_f P p, False)"
  "builtin_flag env P CHR ''#'' p = Some (Source_linenum_f P p, False)"
  "builtin_flag env P CHR ''^'' p = Some (Color_start_f, False)"
  "builtin_flag env P CHR ''$'' p = Some (Color_stop_f, False)"
  "builtin_flag env P CHR ''&'' p = Some (Mdc_f P p, False)"
  by (simp_all add: builtin_flag_def builtin_flag_1_def builtin_flag_2_def)

lemma full_pattern_compiles:
  assumes "custom_handlers pf = Map.empty"
  shows "set_pattern ops env (full_pattern named located mdc) pf =
     pf\<lparr>pattern := full_pattern named located mdc, need_localtime := True, formatters := full_flags named located mdc\<rparr>"
  using assms
  by (cases named; cases located; cases mdc)
    (simp_all add: set_pattern_def compile_pattern_def full_pattern_def full_flags_def compile_flag compile_char
      is_digit_def add_ch_def flush_chars_def builtin_flag_values Let_def del: compile_loop.simps(2))

text \<open>The flags for the parts a message has.\<close>

definition full_pattern_of :: "os_env \<Rightarrow> log_msg \<Rightarrow> string" where
  "full_pattern_of env m = full_pattern (logger_name m \<noteq> []) (\<not> source_empty (msg_source m)) (mdc_context env \<noteq> [])"

definition full_flags_of :: "os_env \<Rightarrow> log_msg \<Rightarrow> 'c flag_formatter list" where
  "full_flags_of env m = full_flags (logger_name m \<noteq> []) (\<not> source_empty (msg_source m)) (mdc_context env \<noteq> [])"

lemma map_r_as_bind: "map_r f m = bind_r m (\<lambda>x. Inr (f x))"
  by (cases m) simp_all

lemma full_line:
  assumes "cached_datetime (full_cache m t st) = full_datetime t"
  shows "run_formatters ops env t (full_flags_of env m) m [] =
         map_r (\<lambda>(st', m', d). (full_flags_of env m, m', d)) (full_formatter env m t st [])"
proof -
  note defs = full_flags_of_def full_flags_def Let_def flag_format_def plain_f_def full_formatter_def formatter_defs
      source_formatter_defs with_padder_def aggregate_formatter_def full_datetime_def push_back_def
      append_string_view_def color_start_formatter_def color_stop_formatter_def full_source_def full_mdc_def
      mdc_formatter_def c_str_def
  show ?thesis
    using assms
    by (cases "level_to_string_view (msg_level m)"; cases "filename (msg_source m)"; cases "logger_name m = []";
        cases "source_empty (msg_source m)"; cases "mdc_context env = []") (simp_all add: defs map_r_as_bind bind_r_assoc)
qed

lemma full_formatter_state: "full_formatter env m t st dest = Inr (st', r) \<Longrightarrow> st' = full_cache m t st"
  by (auto simp: full_formatter_def Let_def bind_r_Inr_iff)

text \<open>
  The two formatters agree on everything but their list of flags, and the cached date is that of
  the cached broken-down time.
\<close>

definition full_sim :: "'c pattern_formatter \<Rightarrow> 'c pattern_formatter \<Rightarrow> bool" where
  "full_sim pf pf2 \<longleftrightarrow>
     (\<exists>p st. formatters pf = [Full_f p st] \<and> need_localtime pf \<and> eol pf2 = eol pf \<and> time_type pf2 = time_type pf \<and>
        cached_tm pf2 = cached_tm pf \<and> last_log_secs pf2 = last_log_secs pf \<and> custom_handlers pf2 = Map.empty \<and>
        (cached_datetime st = [] \<or>
         cache_timestamp st = last_log_secs pf \<and> cached_datetime st = full_datetime (cached_tm pf)))"

lemma refresh_tm_sync:
  "need_localtime pf \<Longrightarrow> last_log_secs (refresh_tm env m pf) = duration_cast ns_s (time m)"
  "formatters (refresh_tm env m pf) = formatters pf" "eol (refresh_tm env m pf) = eol pf"
  "time_type (refresh_tm env m pf) = time_type pf" "need_localtime (refresh_tm env m pf) = need_localtime pf"
  "custom_handlers (refresh_tm env m pf) = custom_handlers pf"
  by (simp_all add: refresh_tm_def Let_def)

lemma full_cache_timestamp: "cache_timestamp (full_cache m t st) = duration_cast ns_s (time m)"
  by (simp add: full_cache_def Let_def)

lemma full_sim_refresh:
  assumes "full_sim pf pf2" and "formatters pf = [Full_f p st]"
  shows "cached_datetime (full_cache m (cached_tm (refresh_tm env m pf)) st) = full_datetime (cached_tm (refresh_tm env m pf))"
  using assms by (auto simp: full_sim_def refresh_tm_def full_cache_def Let_def get_time_def)

lemma full_sim_step:
  assumes "full_sim pf pf2"
  shows "rel_sum (=) (\<lambda>(p1, m1, d1) (p2, m2, d2). full_sim p1 p2 \<and> m1 = m2 \<and> d1 = d2)
           (pf_format ops env m pf []) (pf_format ops env m (set_pattern ops env (full_pattern_of env m) pf2) [])"
proof -
  obtain p st where f: "formatters pf = [Full_f p st]" using assms by (auto simp: full_sim_def)
  define t where "t = cached_tm (refresh_tm env m pf)"
  define pf3 where "pf3 = pf2\<lparr>pattern := full_pattern_of env m, need_localtime := True, formatters := full_flags_of env m\<rparr>"
  have set: "set_pattern ops env (full_pattern_of env m) pf2 = pf3"
    using assms by (auto simp: full_sim_def pf3_def full_pattern_of_def full_flags_of_def full_pattern_compiles)
  have f3: "formatters pf3 = full_flags_of env m" by (simp add: pf3_def)
  have t2: "cached_tm (refresh_tm env m pf3) = t"
    using assms by (auto simp: t_def pf3_def full_sim_def refresh_tm_def Let_def get_time_def)
  note c = full_sim_refresh [OF assms f, of m env, folded t_def]
  note l = full_line [OF c, of ops env]
  have sim: "full_sim ((refresh_tm env m pf)\<lparr>formatters := [Full_f p (full_cache m t st)]\<rparr>)
     ((refresh_tm env m pf3)\<lparr>formatters := fs\<rparr>)" for fs
    using assms c t2
    by (auto simp: full_sim_def pf3_def refresh_tm_sync full_cache_timestamp t_def [symmetric])
  have e: "eol pf3 = eol pf" using assms by (auto simp: full_sim_def pf3_def)
  show ?thesis
  proof (cases "full_formatter env m t st []")
    case (Inl e)
    then show ?thesis
      using l by (simp add: set pf_format_def Let_def refresh_tm_sync f f3 t2 t_def [symmetric] flag_format_def)
  next
    case (Inr r)
    then obtain st' m' d where "full_formatter env m t st [] = Inr (st', m', d)" by (cases r) auto
    moreover have "st' = full_cache m t st" using calculation full_formatter_state by blast
    ultimately show ?thesis
      using l sim e by (simp add: set pf_format_def Let_def refresh_tm_sync f f3 t2 t_def [symmetric] flag_format_def)
  qed
qed

text \<open>A formatter that is given, before each message, the pattern with the parts the message has.\<close>

fun format_by_parts :: "'c custom_ops \<Rightarrow> os_env \<Rightarrow> log_msg list \<Rightarrow> 'c pattern_formatter \<Rightarrow> string list res" where
  "format_by_parts ops env [] pf = Inr []"
| "format_by_parts ops env (m # ms) pf =
     bind_r (pf_format ops env m (set_pattern ops env (full_pattern_of env m) pf) []) (\<lambda>(pf', m', l).
       map_r ((#) l) (format_by_parts ops env ms pf'))"

lemma full_sim_lines: "full_sim pf pf2 \<Longrightarrow> format_all ops env ms pf = format_by_parts ops env ms pf2"
proof (induction ms arbitrary: pf pf2)
  case (Cons m ms)
  from full_sim_step [OF Cons.prems, of ops env m] show ?case
    by (auto elim!: rel_sum.cases intro!: arg_cong [where f = "map_r _"] Cons.IH)
qed simp


subsection \<open>The cached broken-down time\<close>

text \<open>The formatters that look at the broken-down time; a custom one may.\<close>

primrec reads_tm :: "'c flag_formatter \<Rightarrow> bool" where
  "reads_tm (Full_f p st) = True"
| "reads_tm (Name_f P p) = False"
| "reads_tm (Level_f P p) = False"
| "reads_tm (Short_level_f P p) = False"
| "reads_tm (T_id_f P p) = False"
| "reads_tm (V_f P p) = False"
| "reads_tm (A_f P p) = True"
| "reads_tm (Full_day_f P p) = True"
| "reads_tm (B_f P p) = True"
| "reads_tm (Full_month_f P p) = True"
| "reads_tm (C_f P p) = True"
| "reads_tm (Year2_f P p) = True"
| "reads_tm (Year_f P p) = True"
| "reads_tm (Date_f P p) = True"
| "reads_tm (Month_f P p) = True"
| "reads_tm (Mday_f P p) = True"
| "reads_tm (Hour_f P p) = True"
| "reads_tm (Hour12_f P p) = True"
| "reads_tm (Min_f P p) = True"
| "reads_tm (Sec_f P p) = True"
| "reads_tm (Millis_f P p) = False"
| "reads_tm (Micros_f P p) = False"
| "reads_tm (Nanos_f P p) = False"
| "reads_tm (Epoch_f P p) = False"
| "reads_tm (Ampm_f P p) = True"
| "reads_tm (Clock12_f P p) = True"
| "reads_tm (Clock_f P p) = True"
| "reads_tm (Iso_time_f P p) = True"
| "reads_tm (Z_f P p z) = True"
| "reads_tm (Pid_f P p) = False"
| "reads_tm Color_start_f = False"
| "reads_tm Color_stop_f = False"
| "reads_tm (Source_location_f P p) = False"
| "reads_tm (Short_filename_f P p) = False"
| "reads_tm (Source_filename_f P p) = False"
| "reads_tm (Source_linenum_f P p) = False"
| "reads_tm (Source_funcname_f P p) = False"
| "reads_tm (Ch_f c) = False"
| "reads_tm (Elapsed_f u P p t) = False"
| "reads_tm (Mdc_f P p) = False"
| "reads_tm (Aggregate_f s) = False"
| "reads_tm (Custom_f p c) = True"

text \<open>Formatting with the broken-down time of each message computed anew.\<close>

definition pf_format_fresh ::
  "'c custom_ops \<Rightarrow> os_env \<Rightarrow> log_msg \<Rightarrow> 'c pattern_formatter \<Rightarrow> memory_buf
     \<Rightarrow> ('c pattern_formatter \<times> log_msg \<times> memory_buf) res" where
  "pf_format_fresh ops env msg pf dest =
     map_r (\<lambda>(fs, msg', d). (pf\<lparr>formatters := fs\<rparr>, msg', d @ eol pf))
       (run_formatters ops env (get_time env msg pf) (formatters pf) msg dest)"

fun format_all_fresh :: "'c custom_ops \<Rightarrow> os_env \<Rightarrow> log_msg list \<Rightarrow> 'c pattern_formatter \<Rightarrow> string list res" where
  "format_all_fresh ops env [] pf = Inr []"
| "format_all_fresh ops env (m # ms) pf =
     bind_r (pf_format_fresh ops env m pf []) (\<lambda>(pf', m', l). map_r ((#) l) (format_all_fresh ops env ms pf'))"

lemma flag_format_no_tm: "\<not> reads_tm f \<Longrightarrow> flag_format ops env t f m d = flag_format ops env t' f m d"
  by (cases f) (simp_all add: flag_format_def)

lemma flag_format_reads: "flag_format ops env t f m d = Inr (f', r) \<Longrightarrow> reads_tm f' = reads_tm f"
  by (cases f) (auto simp: flag_format_def plain_f_def map_r_Inr_iff)

lemma run_formatters_no_tm:
  "list_all (\<lambda>f. \<not> reads_tm f) fs \<Longrightarrow> run_formatters ops env t fs m d = run_formatters ops env t' fs m d"
proof (induction fs arbitrary: m d)
  case (Cons f fs)
  then show ?case using flag_format_no_tm [of f ops env t m d t'] by (auto intro!: bind_r_cong)
qed simp

lemma run_formatters_reads:
  "run_formatters ops env t fs m d = Inr (fs', r) \<Longrightarrow> list_all (\<lambda>f. \<not> reads_tm f) fs' = list_all (\<lambda>f. \<not> reads_tm f) fs"
proof (induction fs arbitrary: m d fs' r)
  case (Cons f fs)
  then show ?case by (auto simp: bind_r_Inr_iff map_r_Inr_iff dest!: flag_format_reads Cons.IH)
qed simp

lemma builtin_flags_read:
  fixes f :: "'c flag_formatter"
  shows "builtin_flag_1 P c p = Some (f, need) \<Longrightarrow> reads_tm f = need"
    and "builtin_flag_2 env P c p = Some (f, need) \<Longrightarrow> reads_tm f = need"
proof -
  have "pred_option (\<lambda>(f :: 'c flag_formatter, need). reads_tm f = need) (builtin_flag_1 P c p)"
    by (simp add: builtin_flag_1_def)
  then show "builtin_flag_1 P c p = Some (f, need) \<Longrightarrow> reads_tm f = need" by simp
  have "pred_option (\<lambda>(f :: 'c flag_formatter, need). reads_tm f = need) (builtin_flag_2 env P c p)"
    by (simp add: builtin_flag_2_def)
  then show "builtin_flag_2 env P c p = Some (f, need) \<Longrightarrow> reads_tm f = need" by simp
qed

definition tm_known :: "'c pattern_formatter \<Rightarrow> bool" where
  "tm_known pf \<longleftrightarrow> need_localtime pf \<or> list_all (\<lambda>f. \<not> reads_tm f) (formatters pf)"

lemma flush_chars_tm_known: "tm_known pf \<Longrightarrow> tm_known (flush_chars uc pf)"
  by (auto simp: tm_known_def flush_chars_def split: option.split)

lemma handle_flag_tm_known:
  "tm_known pf \<Longrightarrow> custom_handlers pf = Map.empty \<Longrightarrow> tm_known (handle_flag ops env P c p pf)"
  by (auto simp: tm_known_def handle_flag_def unknown_flag_def dest: builtin_flags_read split: option.split)

lemma compile_loop_tm_known:
  "tm_known pf \<Longrightarrow> custom_handlers pf = Map.empty \<Longrightarrow> tm_known (compile_loop ops env it uc pf)"
proof (induction ops env it uc pf rule: compile_loop.induct)
  case (2 ops env c it uc pf)
  then show ?case
    by (auto simp: Let_def flush_chars_tm_known handle_flag_tm_known split: list.split)
qed (simp add: flush_chars_tm_known)

text \<open>The cached time, once it has been set, is that of the second it was set for.\<close>

definition tm_sim :: "os_env \<Rightarrow> 'c pattern_formatter \<Rightarrow> 'c pattern_formatter \<Rightarrow> bool" where
  "tm_sim env pf pf2 \<longleftrightarrow>
     tm_known pf \<and> formatters pf2 = formatters pf \<and> eol pf2 = eol pf \<and> time_type pf2 = time_type pf \<and>
     (last_log_secs pf = 0 \<or>
      cached_tm pf = (if time_type pf = Time_local then os_localtime env (last_log_secs pf)
                      else os_gmtime env (last_log_secs pf)))"

lemma refresh_tm_current:
  assumes "tm_sim env pf pf2" "need_localtime pf" "duration_cast ns_s (time m) \<noteq> 0"
  shows "cached_tm (refresh_tm env m pf) = get_time env m pf2"
  using assms by (auto simp: tm_sim_def refresh_tm_def get_time_def Let_def)

lemma tm_sim_step:
  assumes "tm_sim env pf pf2" and "duration_cast ns_s (time m) \<noteq> 0"
  shows "rel_sum (=) (\<lambda>(p1, m1, d1) (p2, m2, d2). tm_sim env p1 p2 \<and> d1 = d2)
           (pf_format ops env m pf []) (pf_format_fresh ops env m pf2 [])"
proof -
  define t where "t = get_time env m pf2"
  let ?rf = "refresh_tm env m pf"
  have f2: "formatters pf2 = formatters pf" "eol pf2 = eol pf" using assms(1) by (simp_all add: tm_sim_def)
  have run: "run_formatters ops env (cached_tm ?rf) (formatters pf) m [] = run_formatters ops env t (formatters pf) m []"
  proof (cases "need_localtime pf")
    case False
    then show ?thesis
      using assms(1) by (intro run_formatters_no_tm) (simp add: tm_sim_def tm_known_def)
  qed (simp add: refresh_tm_current [OF assms(1) _ assms(2)] t_def)
  have sim: "tm_sim env (?rf\<lparr>formatters := fs\<rparr>) (pf2\<lparr>formatters := fs\<rparr>)"
    if "list_all (\<lambda>f. \<not> reads_tm f) fs = list_all (\<lambda>f. \<not> reads_tm f) (formatters pf)" for fs
    using that assms by (auto simp: tm_sim_def tm_known_def refresh_tm_def get_time_def Let_def)
  show ?thesis
  proof (cases "run_formatters ops env t (formatters pf) m []")
    case (Inl e)
    then show ?thesis
      by (simp add: pf_format_def pf_format_fresh_def Let_def refresh_tm_sync run f2 t_def)
  next
    case (Inr r)
    then obtain fs m' d where "run_formatters ops env t (formatters pf) m [] = Inr (fs, m', d)" by (cases r) auto
    then show ?thesis
      using sim [OF run_formatters_reads]
      by (simp add: pf_format_def pf_format_fresh_def Let_def refresh_tm_sync run f2 t_def append_string_view_def)
  qed
qed

lemma tm_sim_lines:
  "tm_sim env pf pf2 \<Longrightarrow> list_all (\<lambda>m. duration_cast ns_s (time m) \<noteq> 0) ms \<Longrightarrow>
     format_all ops env ms pf = format_all_fresh ops env ms pf2"
proof (induction ms arbitrary: pf pf2)
  case (Cons m ms)
  from tm_sim_step [OF Cons.prems(1), of m ops] Cons.prems(2)
  show ?case
    by (auto elim!: rel_sum.cases intro!: arg_cong [where f = "map_r _"] Cons.IH)
qed simp

text \<open>
  C25. The time cache is invisible: for every pattern without custom flags and every sequence of
  messages logged outside the first second after the epoch, the lines are those of a formatter that breaks
  down the time of each message anew. In particular the flags that switch the cache on are all
  the flags that read it.
\<close>

theorem time_cache_invisible:
  assumes "list_all (\<lambda>m. duration_cast ns_s (time m) \<noteq> 0) ms"
  shows "format_all ops env ms (pattern_formatter_new ops env pat tt el Map.empty) =
         format_all_fresh ops env ms (pattern_formatter_new ops env pat tt el Map.empty)"
proof (rule tm_sim_lines [OF _ assms])
  have "tm_known (pattern_formatter_new ops env pat tt el Map.empty)"
    unfolding pattern_formatter_new_def compile_pattern_def
    by (rule compile_loop_tm_known) (simp_all add: tm_known_def)
  then show "tm_sim env (pattern_formatter_new ops env pat tt el Map.empty)
      (pattern_formatter_new ops env pat tt el Map.empty)"
    by (simp add: tm_sim_def)
qed

theorem time_cache_invisible_witness:
  "format_all no_custom test_env [test_msg, test_msg\<lparr>time := 6000000000\<rparr>]
     (pattern_formatter_new no_custom test_env ''%H:%M:%S %v'' Time_utc [] Map.empty) =
   format_all_fresh no_custom test_env [test_msg, test_msg\<lparr>time := 6000000000\<rparr>]
     (pattern_formatter_new no_custom test_env ''%H:%M:%S %v'' Time_utc [] Map.empty)"
  by (rule time_cache_invisible) (simp add: test_msg_def log_msg_at_def duration_cast_def ns_s_def)

end
