(* ===== verification/Log_Padding.thy ===== *)
theory Log_Padding
  imports Log_Lines
begin

section \<open>Logging: padding specifications\<close>

text \<open>
  The padding of a flag, from its text in the pattern (\<open>handle_padspec_\<close>) to the text of the line
  (\<open>scoped_padder\<close> and the field sizes the formatters declare), and literal text in patterns.
\<close>

subsection \<open>Reading a padding specification\<close>

definition show_padspec :: "pad_side \<Rightarrow> nat \<Rightarrow> bool \<Rightarrow> string" where
  "show_padspec s w trunc =
     (case s of Pad_left \<Rightarrow> [] | Pad_right \<Rightarrow> ''-'' | Pad_center \<Rightarrow> ''='') @ nat_digits w @ (if trunc then ''!'' else [])"

lemma foldl_digits_ge: "w \<le> foldl (\<lambda>n c. 10 * n + digit_val c) w ds"
proof (induction ds arbitrary: w)
  case (Cons c ds)
  have "w \<le> 10 * w + digit_val c" by simp
  also have "\<dots> \<le> foldl (\<lambda>n c. 10 * n + digit_val c) (10 * w + digit_val c) ds" by (rule Cons.IH)
  finally show ?case by simp
qed simp

lemma read_width_digits:
  assumes "list_all is_digit ds" "rest = [] \<or> \<not> is_digit (hd rest)" "foldl (\<lambda>n c. 10 * n + digit_val c) w ds < 2 ^ 64"
  shows "read_width w (ds @ rest) = (foldl (\<lambda>n c. 10 * n + digit_val c) w ds, rest)"
  using assms
proof (induction ds arbitrary: w)
  case Nil
  then show ?case by (cases rest) auto
next
  case (Cons c ds)
  have "10 * w + digit_val c \<le> foldl (\<lambda>n c. 10 * n + digit_val c) (10 * w + digit_val c) ds"
    by (rule foldl_digits_ge)
  with Cons.prems have "(w * 10 + digit_val c) mod 2 ^ 64 = 10 * w + digit_val c" by simp
  with Cons show ?case by simp
qed

lemma handle_padspec_digits:
  assumes "w < 2 ^ 64" and rest: "rest = [] \<or> \<not> is_digit (hd rest)"
  shows "read_width (digit_val (hd (nat_digits w))) (tl (nat_digits w) @ rest) = (w, rest)"
proof -
  obtain c ds where d: "nat_digits w = c # ds" using nat_digits_ok [of w] by (cases "nat_digits w") auto
  have "foldl (\<lambda>n c. 10 * n + digit_val c) (digit_val c) ds = w"
    using nat_digits_ok [of w] d by (simp add: nat_of_digits_def)
  moreover have "list_all is_digit ds" using nat_digits_ok [of w] d by simp
  ultimately show ?thesis
    using read_width_digits [of ds rest "digit_val c"] assms d by simp
qed

lemma handle_padspec_show:
  assumes "w < 2 ^ 64" "\<not> is_digit c" "trunc \<or> c \<noteq> CHR ''!''"
  shows "handle_padspec (show_padspec s w trunc @ c # it) = (padding_info_new (min w 64) s trunc, c # it)"
proof -
  have nd: "nat_digits w \<noteq> []" "is_digit (hd (nat_digits w))"
    using nat_digits_ok [of w] by (auto simp: list_all_iff)
  then have ne: "hd (nat_digits w) \<noteq> CHR ''-''" "hd (nat_digits w) \<noteq> CHR ''=''"
    by (auto simp: is_digit_def)
  let ?rest = "(if trunc then ''!'' else []) @ c # it"
  have rest: "?rest = [] \<or> \<not> is_digit (hd ?rest)" using assms(2) by (simp add: is_digit_def)
  have mark: "pad_side_mark (show_padspec s w trunc @ c # it) = (s, nat_digits w @ ?rest)"
    using nd ne by (cases s) (simp_all add: show_padspec_def pad_side_mark_def)
  have ne2: "show_padspec s w trunc @ c # it \<noteq> []" by simp
  show ?thesis
    using nd ne2 handle_padspec_digits [OF assms(1) rest] assms(3) mark
    by (auto simp: handle_padspec_def max_width_def simp del: append_is_Nil_conv)
qed

subsection \<open>Declared field sizes\<close>

text \<open>Broken-down times in the ranges of the calendar, with years of four digits.\<close>

definition tm_range :: "tm \<Rightarrow> bool" where
  "tm_range t \<longleftrightarrow> 0 \<le> tm_sec t \<and> tm_sec t < 100 \<and> 0 \<le> tm_min t \<and> tm_min t < 100 \<and>
     0 \<le> tm_hour t \<and> tm_hour t < 24 \<and> 0 \<le> tm_mday t \<and> tm_mday t < 32 \<and> 0 \<le> tm_mon t \<and> tm_mon t < 12 \<and>
     0 \<le> tm_year t \<and> tm_year t < 8100"

lemma with_padder_scoped:
  assumes "padding_ok p" "\<And>d. wr d = d @ wr []" "n = length (wr [])"
  shows "with_padder Scoped p n wr dest = Inr (dest @ pad_text p (wr []))"
  using with_padder_exact [OF _ assms(2,3), of p dest] assms(1) by (simp add: padding_ok_def max_width_def)

text \<open>
  A formatter, given its padder and padding, pads exactly when the size it declares is the length
  of what it writes without a padder.
\<close>

definition pads_exactly :: "'c custom_ops \<Rightarrow> os_env \<Rightarrow> tm \<Rightarrow> log_msg \<Rightarrow> (Padder \<Rightarrow> padding_info \<Rightarrow> 'c flag_formatter) \<Rightarrow> bool" where
  "pads_exactly ops env t m K \<longleftrightarrow>
     (\<forall>p. pi_enabled p \<longrightarrow> padding_ok p \<longrightarrow>
        flag_format ops env t (K Scoped p) m [] =
        map_r (\<lambda>(f, m', s). (K Scoped p, m', pad_text p s)) (flag_format ops env t (K Null_scoped padding_info_default) m []))"

lemma length_int_digits: "0 \<le> i \<Longrightarrow> length (int_digits i) = count_digits (nat i)"
  by (simp add: int_digits_def count_digits_length)

lemma append_int_text: "append_int n d = d @ append_int n []"
  by (simp add: append_int_def)

lemma pads_source:
  "pads_exactly ops env t m Source_location_f" "pads_exactly ops env t m Source_filename_f"
  "pads_exactly ops env t m Short_filename_f" "pads_exactly ops env t m Source_linenum_f"
  "pads_exactly ops env t m Source_funcname_f"
  by (auto simp: pads_exactly_def flag_format_def plain_f_def source_formatter_defs c_str_def
      with_padder_scoped append_string_view_def push_back_def append_int_def length_int_digits source_empty_def
      padder_count_digits_def with_padder_def [of Null_scoped] Let_def split: option.split)

lemma pads_text:
  "pads_exactly ops env t m Name_f" "pads_exactly ops env t m Level_f" "pads_exactly ops env t m Short_level_f"
  "pads_exactly ops env t m V_f" "pads_exactly ops env t m A_f" "pads_exactly ops env t m Full_day_f"
  "pads_exactly ops env t m B_f" "pads_exactly ops env t m Full_month_f" "pads_exactly ops env t m T_id_f"
  "pads_exactly ops env t m Pid_f"
  by (auto simp: pads_exactly_def flag_format_def plain_f_def formatter_defs level_to_string_view_def to_short_c_str_def
      at_size_def at_r_def with_padder_scoped append_string_view_def append_int_def length_int_digits
      padder_count_digits_def with_padder_def [of Null_scoped] Let_def)

lemma pad2_chars: "0 \<le> n \<Longrightarrow> n < 100 \<Longrightarrow> pad2 n d = d @ [char_of (48 + nat n div 10), char_of (48 + nat n mod 10)]"
  by (simp add: pad2_def push_back_def)

lemma pad3_chars:
  "n < 1000 \<Longrightarrow> pad3 n d = d @ [char_of (n div 100 + 48), char_of (n mod 100 div 10 + 48), char_of (n mod 100 mod 10 + 48)]"
  by (simp add: pad3_def push_back_def)

lemma pad_uint_chars: "pad_uint n w d = d @ replicate (w - count_digits n) CHR ''0'' @ int_digits (int n)"
  by (simp add: pad_uint_def append_int_def)

lemma count_digits_le: "n < 10 ^ w \<Longrightarrow> 0 < w \<Longrightarrow> count_digits n \<le> w"
  by (simp add: count_digits_length length_nat_digits_le)

lemma sdiv_nonneg: "0 \<le> (a :: int) \<Longrightarrow> 0 < b \<Longrightarrow> a sdiv b = a div b"
  by (cases "a = 0") (simp_all add: signed_divide_int_def)

lemma time_fraction_bounds:
  assumes "0 \<le> tp"
  shows "0 \<le> time_fraction ns_ms tp" "time_fraction ns_ms tp < 1000"
    "0 \<le> time_fraction ns_us tp" "time_fraction ns_us tp < 1000000"
    "0 \<le> time_fraction ns_ns tp" "time_fraction ns_ns tp < 1000000000"
proof -
  define q where "q = tp div 1000000000"
  have q: "q * 1000000000 \<le> tp" "tp < q * 1000000000 + 1000000000" "0 \<le> q"
    using assms by (simp_all add: q_def)
  have s: "duration_cast ns_s tp * ns_s = q * 1000000000"
    using assms by (simp add: duration_cast_def ns_s_def sdiv_nonneg q_def)
  have ms: "time_fraction ns_ms tp = tp div 1000000 - q * 1000"
    using assms q(3) by (simp only: time_fraction_def Let_def s) (simp add: duration_cast_def ns_ms_def sdiv_nonneg)
  have us: "time_fraction ns_us tp = tp div 1000 - q * 1000000"
    using assms q(3) by (simp only: time_fraction_def Let_def s) (simp add: duration_cast_def ns_us_def sdiv_nonneg)
  have ns: "time_fraction ns_ns tp = tp - q * 1000000000"
    using assms q(3) by (simp only: time_fraction_def Let_def s) (simp add: duration_cast_def ns_ns_def sdiv_nonneg)
  show "0 \<le> time_fraction ns_ms tp" "time_fraction ns_ms tp < 1000"
    "0 \<le> time_fraction ns_us tp" "time_fraction ns_us tp < 1000000"
    "0 \<le> time_fraction ns_ns tp" "time_fraction ns_ns tp < 1000000000"
    using q by (simp_all add: ms us ns)
qed

lemma to12h_range: "tm_range t \<Longrightarrow> 0 \<le> to12h t \<and> to12h t < 100"
  by (simp add: to12h_def tm_range_def)

lemma year2_range: "tm_range t \<Longrightarrow> 0 \<le> tm_year t smod 100 \<and> tm_year t smod 100 < 100"
  by (cases "tm_year t = 0") (simp_all add: tm_range_def signed_modulo_int_def)

lemma year4_digits: "tm_range t \<Longrightarrow> length (int_digits (tm_year t + 1900)) = 4"
proof -
  assume "tm_range t"
  then obtain n where n: "nat (tm_year t + 1900) = n" "1900 \<le> n" "n < 10000"
    by (auto simp: tm_range_def nat_less_iff le_nat_iff)
  have "length (nat_digits n) = 4"
    using n(2,3) by (simp add: length_nat_digits_large length_nat_digits_small div_mult2_eq [symmetric])
  with n \<open>tm_range t\<close> show ?thesis by (simp add: int_digits_def tm_range_def)
qed

lemma pads_time:
  assumes "tm_range t"
  shows "pads_exactly ops env t m Year2_f" "pads_exactly ops env t m Year_f" "pads_exactly ops env t m Date_f"
    "pads_exactly ops env t m Month_f" "pads_exactly ops env t m Mday_f" "pads_exactly ops env t m Hour_f"
    "pads_exactly ops env t m Hour12_f" "pads_exactly ops env t m Min_f" "pads_exactly ops env t m Sec_f"
    "pads_exactly ops env t m Ampm_f" "pads_exactly ops env t m Clock12_f" "pads_exactly ops env t m Clock_f"
    "pads_exactly ops env t m Iso_time_f"
  using assms to12h_range [OF assms] year2_range [OF assms] year4_digits [OF assms]
  by (auto simp: pads_exactly_def flag_format_def plain_f_def formatter_defs tm_range_def
      with_padder_scoped append_string_view_def push_back_def append_int_def pad2_chars ampm_def
      with_padder_def [of Null_scoped] Let_def)

lemma pads_fraction:
  assumes "time_ok (time m)"
  shows "pads_exactly ops env t m Millis_f" "pads_exactly ops env t m Micros_f" "pads_exactly ops env t m Nanos_f"
proof -
  have t: "0 \<le> time m" using assms by (simp add: time_ok_def)
  note b = time_fraction_bounds [OF t]
  obtain a b c where n: "nat (time_fraction ns_ms (time m) mod 2 ^ 32) = a"
      "nat (time_fraction ns_us (time m) mod 2 ^ 64) = b" "nat (time_fraction ns_ns (time m) mod 2 ^ 64) = c" by blast
  have r: "a < 1000" "count_digits b \<le> 6" "count_digits c \<le> 9"
    using b by (simp_all add: n [symmetric] count_digits_le nat_less_iff)
  have "e_formatter P p m d = with_padder P p 3 (pad3 a) d" "f_formatter P p m d = with_padder P p 6 (pad6 b) d"
    "F_formatter P p m d = with_padder P p 9 (pad9 c) d" for P p d
    by (simp_all only: e_formatter_def f_formatter_def F_formatter_def Let_def n)
  with r show "pads_exactly ops env t m Millis_f" "pads_exactly ops env t m Micros_f" "pads_exactly ops env t m Nanos_f"
    by (simp_all add: pads_exactly_def flag_format_def plain_f_def with_padder_scoped pad3_chars pad6_def pad9_def
        pad_uint_chars length_int_digits with_padder_def [of Null_scoped])
qed

text \<open>The flags whose formatters declare the size of what they write.\<close>

definition sized_flags :: string where
  "sized_flags = ''nlLtvaAbhBPsg#@!CYDxmdHIMSefFprRTX''"

lemma sized_flag_values:
  "builtin_flag env P CHR ''n'' p = Some (Name_f P p, False)"
  "builtin_flag env P CHR ''l'' p = Some (Level_f P p, False)"
  "builtin_flag env P CHR ''L'' p = Some (Short_level_f P p, False)"
  "builtin_flag env P CHR ''t'' p = Some (T_id_f P p, False)"
  "builtin_flag env P CHR ''v'' p = Some (V_f P p, False)"
  "builtin_flag env P CHR ''a'' p = Some (A_f P p, True)"
  "builtin_flag env P CHR ''A'' p = Some (Full_day_f P p, True)"
  "builtin_flag env P CHR ''b'' p = Some (B_f P p, True)"
  "builtin_flag env P CHR ''h'' p = Some (B_f P p, True)"
  "builtin_flag env P CHR ''B'' p = Some (Full_month_f P p, True)"
  "builtin_flag env P CHR ''P'' p = Some (Pid_f P p, False)"
  "builtin_flag env P CHR ''s'' p = Some (Short_filename_f P p, False)"
  "builtin_flag env P CHR ''g'' p = Some (Source_filename_f P p, False)"
  "builtin_flag env P CHR ''#'' p = Some (Source_linenum_f P p, False)"
  "builtin_flag env P CHR ''@'' p = Some (Source_location_f P p, False)"
  "builtin_flag env P CHR ''!'' p = Some (Source_funcname_f P p, False)"
  "builtin_flag env P CHR ''C'' p = Some (Year2_f P p, True)"
  "builtin_flag env P CHR ''Y'' p = Some (Year_f P p, True)"
  "builtin_flag env P CHR ''D'' p = Some (Date_f P p, True)"
  "builtin_flag env P CHR ''x'' p = Some (Date_f P p, True)"
  "builtin_flag env P CHR ''m'' p = Some (Month_f P p, True)"
  "builtin_flag env P CHR ''d'' p = Some (Mday_f P p, True)"
  "builtin_flag env P CHR ''H'' p = Some (Hour_f P p, True)"
  "builtin_flag env P CHR ''I'' p = Some (Hour12_f P p, True)"
  "builtin_flag env P CHR ''M'' p = Some (Min_f P p, True)"
  "builtin_flag env P CHR ''S'' p = Some (Sec_f P p, True)"
  "builtin_flag env P CHR ''e'' p = Some (Millis_f P p, False)"
  "builtin_flag env P CHR ''f'' p = Some (Micros_f P p, False)"
  "builtin_flag env P CHR ''F'' p = Some (Nanos_f P p, False)"
  "builtin_flag env P CHR ''p'' p = Some (Ampm_f P p, True)"
  "builtin_flag env P CHR ''r'' p = Some (Clock12_f P p, True)"
  "builtin_flag env P CHR ''R'' p = Some (Clock_f P p, True)"
  "builtin_flag env P CHR ''T'' p = Some (Iso_time_f P p, True)"
  "builtin_flag env P CHR ''X'' p = Some (Iso_time_f P p, True)"
  by (simp_all add: builtin_flag_def builtin_flag_1_def builtin_flag_2_def)

definition sized :: "'c custom_ops \<Rightarrow> os_env \<Rightarrow> tm \<Rightarrow> log_msg \<Rightarrow> char \<Rightarrow> bool" where
  "sized ops env t m c \<longleftrightarrow>
     (\<exists>K need. (\<forall>P p. builtin_flag env P c p = Some (K P p, need)) \<and> pads_exactly ops env t m K)"

lemma sizedI:
  "(\<And>P p. builtin_flag env P c p = Some (K P p, need)) \<Longrightarrow> pads_exactly ops env t m K \<Longrightarrow> sized ops env t m c"
  by (auto simp: sized_def)

lemma sized_flags_sized:
  assumes "tm_range t" "time_ok (time m)"
  shows "list_all (sized ops env t m) sized_flags"
  unfolding sized_flags_def list.pred_inject
  by (intro conjI list.pred_inject(1);
      rule sizedI, rule sized_flag_values, rule pads_text pads_source pads_time [OF assms(1)] pads_fraction [OF assms(2)])

text \<open>The line of one message, printed by a new formatter.\<close>

definition line_of :: "'c custom_ops \<Rightarrow> os_env \<Rightarrow> string \<Rightarrow> pattern_time_type \<Rightarrow> log_msg \<Rightarrow> string res" where
  "line_of ops env pat tt m =
     map_r (\<lambda>(pf, m', l). l) (pf_format ops env m (pattern_formatter_new ops env pat tt [] Map.empty) [])"

definition env_range :: "os_env \<Rightarrow> bool" where
  "env_range env \<longleftrightarrow> (\<forall>s. tm_range (os_localtime env s) \<and> tm_range (os_gmtime env s))"

lemma refresh_tm_range:
  "env_range env \<Longrightarrow> tm_range (cached_tm pf) \<Longrightarrow> tm_range (cached_tm (refresh_tm env m pf))"
  by (simp add: refresh_tm_def env_range_def get_time_def Let_def)

lemma flag_formatter_new:
  assumes "builtin_flag env (if pi_enabled p then Scoped else Null_scoped) c p = Some (f, need)"
    and "handle_padspec (spec @ [c]) = (p, [c])"
  shows "pattern_formatter_new ops env (CHR ''%'' # spec @ [c]) tt el Map.empty =
     \<lparr>pattern = CHR ''%'' # spec @ [c], eol = el, time_type = tt, need_localtime = need, cached_tm = zero_tm,
      last_log_secs = 0, formatters = [f], custom_handlers = Map.empty\<rparr>"
  using assms
  by (cases "pi_enabled p") (simp_all add: pattern_formatter_new_def compile_pattern_def flush_chars_def handle_flag_builtin Let_def)

text \<open>
  C27. A padded flag prints the text of the plain flag, aligned in its width: for each of the 34 flags of \<open>sized_flags\<close> (names, levels, ids, source
  location, payload, calendar and clock fields; not \<open>%c\<close>, whose declared size is wrong on the first nine days of a month, nor \<open>%E\<close>, \<open>%z\<close>,
  \<open>%&\<close>, \<open>%+\<close> and the elapsed times), every side, every width that fits a \<open>size_t\<close> and with or without truncation (\<open>%!\<close> only with it,
  since the mark is its own name), \<open>%\<close> with the padding prints the line of the plain flag brought to exactly the width, 64 at most, by
  blanks on the given side (the odd one on the right when centred) or by cutting it when it is longer and to be truncated; the times
  and the environment are in range.
\<close>

theorem padded_flag_line:
  assumes "c \<in> set sized_flags" and "w < 2 ^ 64" and "trunc \<or> c \<noteq> CHR ''!''"
    and "env_range env" and "time_ok (time m)"
  shows "line_of ops env (CHR ''%'' # show_padspec s w trunc @ [c]) tt m =
         map_r (pad_text (padding_info_new (min w 64) s trunc)) (line_of ops env [CHR ''%'', c] tt m)"
proof -
  have nd: "\<not> is_digit c" "c \<noteq> CHR ''-''" "c \<noteq> CHR ''=''"
    using assms(1) by (auto simp: sized_flags_def is_digit_def)
  let ?p = "padding_info_new (min w 64) s trunc"
  have p: "pi_enabled ?p" "padding_ok ?p" by (simp_all add: padding_info_new_def padding_ok_def max_width_def)
  define t where "t need = cached_tm (refresh_tm env m
      \<lparr>pattern = [], eol = [], time_type = tt, need_localtime = need, cached_tm = zero_tm,
       last_log_secs = 0, formatters = [], custom_handlers = Map.empty\<rparr>)" for need
  have "tm_range (t need)" for need
    unfolding t_def using assms(4) by (rule refresh_tm_range) (simp add: tm_range_def zero_tm_def)
  then have sz: "sized ops env (t need) m c" for need
    using sized_flags_sized [OF _ assms(5)] assms(1) unfolding list_all_iff by blast
  obtain K0 need where "\<And>P p. builtin_flag env P c p = Some (K0 P p :: 'a flag_formatter, need)"
    using sz [of True] by (auto simp: sized_def)
  with sz [of need] obtain K where K: "\<And>P p. builtin_flag env P c p = Some (K P p, need)"
      and pads: "pads_exactly ops env (t need) m K"
    by (auto simp: sized_def)
  have line: "line_of ops env (CHR ''%'' # spec @ [c]) tt m =
      map_r (\<lambda>(f, m', d). d) (flag_format ops env (t need) (K (if pi_enabled q then Scoped else Null_scoped) q) m [])"
    if "handle_padspec (spec @ [c]) = (q, [c])" for spec q
    unfolding line_of_def flag_formatter_new [OF K that]
    by (cases "flag_format ops env (t need) (K (if pi_enabled q then Scoped else Null_scoped) q) m []")
      (auto simp: pf_format_def refresh_tm_def get_time_def t_def Let_def append_string_view_def)
  have "handle_padspec ([] @ [c]) = (padding_info_default, [c])"
    using handle_padspec_plain [OF nd] by simp
  note plain = line [OF this]
  have "handle_padspec (show_padspec s w trunc @ [c]) = (?p, [c])"
    using handle_padspec_show [OF assms(2) nd(1) assms(3)] .
  note padded = line [OF this]
  show ?thesis
    using pads p plain unfolding padded
    by (cases "flag_format ops env (t need) (K Null_scoped padding_info_default) m []")
      (auto simp: pads_exactly_def padding_info_default_def)
qed

theorem padded_flag_line_witness:
  "line_of no_custom test_env (CHR ''%'' # show_padspec Pad_center 9 True @ ''n'') Time_utc test_msg =
     map_r (pad_text (padding_info_new (min 9 64) Pad_center True)) (line_of no_custom test_env [CHR ''%'', CHR ''n''] Time_utc test_msg)"
proof (rule padded_flag_line)
  have "s mod 60 < 100" for s :: int by (rule less_trans [OF pos_mod_bound]) simp_all
  then show "env_range test_env" by (simp add: env_range_def test_env_def tm_range_def zero_tm_def)
  show "time_ok (time test_msg)" by (simp add: test_msg_def log_msg_at_def time_ok_def)
qed (simp_all add: sized_flags_def)

subsection \<open>Literal text\<close>

definition escape :: "string \<Rightarrow> string" where
  "escape s = concat (map (\<lambda>c. if c = CHR ''%'' then ''%%'' else [c]) s)"

fun literal :: "'c flag_formatter \<Rightarrow> string option" where
  "literal (Aggregate_f s) = Some s"
| "literal (Ch_f c) = Some [c]"
| "literal _ = None"

lemma run_literals:
  "list_all (\<lambda>f. literal f \<noteq> None) fs \<Longrightarrow>
     run_formatters ops env t fs m d = Inr (fs, m, d @ concat (map (\<lambda>f. the (literal f)) fs))"
proof (induction fs arbitrary: d)
  case (Cons f fs)
  from Cons.prems obtain s where s: "literal f = Some s" by auto
  then have "flag_format ops env t f m d = Inr (f, m, d @ s)"
    by (cases f rule: literal.cases)
      (simp_all add: flag_format_def aggregate_formatter_def append_string_view_def ch_formatter_def push_back_def)
  with Cons s show ?case by simp
qed simp

lemma percent_flag: "builtin_flag env P CHR ''%'' p = Some (Ch_f CHR ''%'', False)"
  by (simp add: builtin_flag_def builtin_flag_1_def builtin_flag_2_def)

lemma compile_escape:
  "custom_handlers pf = Map.empty \<Longrightarrow>
     \<exists>fs. compile_loop ops env (escape s) uc pf = pf\<lparr>formatters := formatters pf @ fs\<rparr> \<and>
          list_all (\<lambda>f. literal f \<noteq> None) fs \<and>
          concat (map (\<lambda>f. the (literal f)) fs) = (case uc of Some u \<Rightarrow> u | None \<Rightarrow> []) @ s"
proof (induction s arbitrary: uc pf)
  case Nil
  then show ?case
    by (cases uc) (auto simp: escape_def flush_chars_def intro: exI [of _ "[]"] exI [of _ "[Aggregate_f u]" for u])
next
  case (Cons c s)
  show ?case
  proof (cases "c = CHR ''%''")
    case True
    let ?pf = "(flush_chars uc pf)\<lparr>formatters := formatters (flush_chars uc pf) @ [Ch_f CHR ''%''], need_localtime := need_localtime pf\<rparr>"
    have step: "compile_loop ops env (escape (c # s)) uc pf = compile_loop ops env (escape s) None ?pf"
      using compile_flag [OF Cons.prems, of "CHR ''%''" env _ ops "escape s" uc] True
      by (simp add: escape_def percent_flag is_digit_def del: compile_loop.simps(2))
    obtain fs where fs: "compile_loop ops env (escape s) None ?pf = ?pf\<lparr>formatters := formatters ?pf @ fs\<rparr>"
        "list_all (\<lambda>f. literal f \<noteq> None) fs" "concat (map (\<lambda>f. the (literal f)) fs) = s"
      using Cons.IH [of ?pf None] Cons.prems by (simp del: compile_loop.simps) blast
    let ?fs = "(case uc of Some u \<Rightarrow> [Aggregate_f u] | None \<Rightarrow> []) @ Ch_f CHR ''%'' # fs"
    have "compile_loop ops env (escape (c # s)) uc pf = pf\<lparr>formatters := formatters pf @ ?fs\<rparr>"
      using step fs(1) by (cases uc) (simp_all add: flush_chars_def)
    then show ?thesis
      using fs(2,3) True by (intro exI [of _ ?fs]) (auto split: option.split)
  next
    case False
    then have "compile_loop ops env (escape (c # s)) uc pf = compile_loop ops env (escape s) (add_ch c uc) pf"
      by (simp add: escape_def)
    then show ?thesis
      using Cons.IH [OF Cons.prems, of "add_ch c uc"] by (auto simp: add_ch_def split: option.splits)
  qed
qed

text \<open>
  Literal text in a pattern is printed as it stands: the pattern made of any text, with its percent signs
  doubled, prints that text and nothing else for every message.
\<close>

theorem escaped_text_line: "line_of ops env (escape s) tt m = Inr s"
proof -
  obtain fs where fs: "pattern_formatter_new ops env (escape s) tt [] Map.empty =
      \<lparr>pattern = escape s, eol = [], time_type = tt, need_localtime = False, cached_tm = zero_tm,
       last_log_secs = 0, formatters = fs, custom_handlers = Map.empty\<rparr>"
      "list_all (\<lambda>f. literal f \<noteq> None) fs" "concat (map (\<lambda>f. the (literal f)) fs) = s"
    using compile_escape [of "\<lparr>pattern = escape s, eol = [], time_type = tt, need_localtime = False, cached_tm = zero_tm,
       last_log_secs = 0, formatters = [], custom_handlers = Map.empty\<rparr>" ops env s None]
    by (auto simp: pattern_formatter_new_def compile_pattern_def)
  show ?thesis
    unfolding line_of_def fs(1) using fs(2,3)
    by (simp add: pf_format_def refresh_tm_def run_literals append_string_view_def)
qed

end
