(* ===== verification/Log_Queue.thy ===== *)
theory Log_Queue
  imports Prelude "HOL-Library.Sublist"
begin

section \<open>Logging: the circular queue (spdlog)\<close>

text \<open>
  \<open>circular_q\<close> of \<open>details/circular_q.h\<close>: a vector with one slot more than the capacity, a head and a tail
  that run around it, and a counter of items overwritten because the queue was full. An index
  outside the vector and a remainder by zero are undefined; the counter is a \<open>size_t\<close> and wraps.
  The interface its clients rely on (the blocking queue, the backtracer, the ring buffer sink)
  is the locale \<open>overrun_queue\<close>: a list that keeps the last items pushed.
\<close>

subsection \<open>The code\<close>

record 'a circular_q =
  cq_max_items :: nat
  cq_head :: nat
  cq_tail :: nat
  cq_overrun_counter :: nat
  cq_v :: "'a list"

definition cq_disabled :: "'a circular_q" where
  "cq_disabled = \<lparr>cq_max_items = 0, cq_head = 0, cq_tail = 0, cq_overrun_counter = 0, cq_v = []\<rparr>"

text \<open>The vector holds default-constructed items \<open>dflt\<close>.\<close>

definition cq_new :: "'a \<Rightarrow> nat \<Rightarrow> 'a circular_q" where
  "cq_new dflt max_items =
     (let n = (max_items + 1) mod 2 ^ 64
      in \<lparr>cq_max_items = n, cq_head = 0, cq_tail = 0, cq_overrun_counter = 0, cq_v = replicate n dflt\<rparr>)"

text \<open>Moving takes the content and leaves the other queue disabled.\<close>

definition cq_copy_moveable :: "'a circular_q \<Rightarrow> 'a circular_q \<times> 'a circular_q" where
  "cq_copy_moveable other =
     (\<lparr>cq_max_items = cq_max_items other, cq_head = cq_head other, cq_tail = cq_tail other,
       cq_overrun_counter = cq_overrun_counter other, cq_v = cq_v other\<rparr>,
      \<lparr>cq_max_items = 0, cq_head = 0, cq_tail = 0, cq_overrun_counter = 0, cq_v = []\<rparr>)"

definition cq_advance :: "'a circular_q \<Rightarrow> 'a circular_q" where
  "cq_advance q =
     (if cq_tail q = cq_head q
      then q\<lparr>cq_head := (cq_head q + 1) mod cq_max_items q,
             cq_overrun_counter := (cq_overrun_counter q + 1) mod 2 ^ 64\<rparr>
      else q)"

definition cq_push_back :: "'a \<Rightarrow> 'a circular_q \<Rightarrow> 'a circular_q res" where
  "cq_push_back item q =
     (if 0 < cq_max_items q then
        if cq_tail q < length (cq_v q)
        then Inr (cq_advance (q\<lparr>cq_v := (cq_v q)[cq_tail q := item], cq_tail := (cq_tail q + 1) mod cq_max_items q\<rparr>))
        else Inl OutOfBounds
      else Inr q)"

definition cq_front :: "'a circular_q \<Rightarrow> 'a res" where
  "cq_front q = at_r (cq_v q) (cq_head q)"

definition cq_size :: "'a circular_q \<Rightarrow> nat" where
  "cq_size q =
     (if cq_head q \<le> cq_tail q then cq_tail q - cq_head q
      else cq_max_items q - (cq_head q - cq_tail q))"

text \<open>The assertion on the index is off in a release build.\<close>

definition cq_at :: "'a circular_q \<Rightarrow> nat \<Rightarrow> 'a res" where
  "cq_at q i =
     (if cq_max_items q = 0 then Inl DivByZero else at_r (cq_v q) ((cq_head q + i) mod cq_max_items q))"

definition cq_pop_front :: "'a circular_q \<Rightarrow> 'a circular_q res" where
  "cq_pop_front q =
     (if cq_max_items q = 0 then Inl DivByZero
      else Inr (q\<lparr>cq_head := (cq_head q + 1) mod cq_max_items q\<rparr>))"

definition cq_empty :: "'a circular_q \<Rightarrow> bool" where
  "cq_empty q \<longleftrightarrow> cq_tail q = cq_head q"

definition cq_full :: "'a circular_q \<Rightarrow> bool" where
  "cq_full q \<longleftrightarrow> (if 0 < cq_max_items q then (cq_tail q + 1) mod cq_max_items q = cq_head q else False)"

definition cq_reset_overrun_counter :: "'a circular_q \<Rightarrow> 'a circular_q" where
  "cq_reset_overrun_counter q = q\<lparr>cq_overrun_counter := 0\<rparr>"

subsection \<open>The contract\<close>

definition last_n :: "nat \<Rightarrow> 'a list \<Rightarrow> 'a list" where
  "last_n n xs = drop (length xs - n) xs"

lemma length_last_n: "length (last_n n xs) = min n (length xs)"
  by (simp add: last_n_def)

lemma last_n_all: "length xs \<le> n \<Longrightarrow> last_n n xs = xs"
  by (simp add: last_n_def)

lemma last_n_snoc: "last_n n (last_n n xs @ [x]) = last_n n (xs @ [x])"
  by (cases "length xs \<le> n") (auto simp: last_n_def Suc_diff_le)

lemma last_n_overrun: "length xs = n \<Longrightarrow> last_n n (xs @ [x]) = tl (xs @ [x])"
  by (cases xs) (auto simp: last_n_def)

locale overrun_queue =
  fixes push :: "'a \<Rightarrow> 'q \<Rightarrow> 'q res" and pop :: "'q \<Rightarrow> 'q res" and front :: "'q \<Rightarrow> 'a res"
    and item :: "'q \<Rightarrow> nat \<Rightarrow> 'a res" and qsize :: "'q \<Rightarrow> nat" and is_empty :: "'q \<Rightarrow> bool" and is_full :: "'q \<Rightarrow> bool"
    and overruns :: "'q \<Rightarrow> nat" and invar :: "'q \<Rightarrow> bool" and capacity :: "'q \<Rightarrow> nat" and items :: "'q \<Rightarrow> 'a list"
  assumes push_spec: "invar q \<Longrightarrow> \<exists>q'. push x q = Inr q' \<and> invar q' \<and> capacity q' = capacity q \<and>
      items q' = last_n (capacity q) (items q @ [x]) \<and>
      overruns q' = (if is_full q then (overruns q + 1) mod 2 ^ 64 else overruns q)"
    and pop_spec: "invar q \<Longrightarrow> items q \<noteq> [] \<Longrightarrow> \<exists>q'. pop q = Inr q' \<and> invar q' \<and> capacity q' = capacity q \<and>
      items q' = tl (items q) \<and> overruns q' = overruns q"
    and front_spec: "invar q \<Longrightarrow> items q \<noteq> [] \<Longrightarrow> front q = Inr (hd (items q))"
    and item_spec: "invar q \<Longrightarrow> i < length (items q) \<Longrightarrow> item q i = Inr (items q ! i)"
    and size_spec: "invar q \<Longrightarrow> qsize q = length (items q)"
    and empty_spec: "invar q \<Longrightarrow> is_empty q \<longleftrightarrow> items q = []"
    and full_spec: "invar q \<Longrightarrow> is_full q \<longleftrightarrow> length (items q) = capacity q"
    and length_items: "invar q \<Longrightarrow> length (items q) \<le> capacity q"
begin

lemma push_room:
  assumes "invar q" "\<not> is_full q"
  shows "\<exists>q'. push x q = Inr q' \<and> invar q' \<and> capacity q' = capacity q \<and> items q' = items q @ [x] \<and> overruns q' = overruns q"
  using push_spec [OF assms(1), of x] assms full_spec [OF assms(1)] length_items [OF assms(1)]
  by (auto simp: last_n_all)

text \<open>Any number of pushes keeps the last items.\<close>

lemma pushes:
  "invar q \<Longrightarrow> items q = last_n (capacity q) ys \<Longrightarrow>
     \<exists>q'. fold_r push xs q = Inr q' \<and> invar q' \<and> capacity q' = capacity q \<and> items q' = last_n (capacity q) (ys @ xs)"
proof (induction xs arbitrary: q ys)
  case (Cons x xs)
  obtain q' where q': "push x q = Inr q'" "invar q'" "capacity q' = capacity q" "items q' = last_n (capacity q) (ys @ [x])"
    using push_spec [OF Cons.prems(1), of x] Cons.prems(2) by (auto simp: last_n_snoc)
  then show ?case using Cons.IH [of q' "ys @ [x]"] by auto
qed simp

text \<open>The items by index, as a loop over a suffix of the indices reads them.\<close>

lemma item_suffix:
  assumes "invar q" "n \<le> length (items q)"
  shows "map (item q) [length (items q) - n..<length (items q)] = map Inr (last_n n (items q))"
  using assms by (intro nth_equalityI) (simp_all add: item_spec last_n_def)

end

subsection \<open>The implementation\<close>

definition cq_ok :: "'a circular_q \<Rightarrow> bool" where
  "cq_ok q \<longleftrightarrow> 0 < cq_max_items q \<and> length (cq_v q) = cq_max_items q \<and> cq_head q < cq_max_items q \<and> cq_tail q < cq_max_items q"

definition ring :: "'a list \<Rightarrow> nat \<Rightarrow> nat \<Rightarrow> 'a list" where
  "ring v h n = map (\<lambda>i. v ! ((h + i) mod length v)) [0..<n]"

definition cq_items :: "'a circular_q \<Rightarrow> 'a list" where
  "cq_items q = ring (cq_v q) (cq_head q) (cq_size q)"

definition cq_capacity :: "'a circular_q \<Rightarrow> nat" where
  "cq_capacity q = cq_max_items q - 1"

lemma length_ring [simp]: "length (ring v h n) = n"
  by (simp add: ring_def)

lemma ring_Suc: "ring v h (Suc n) = ring v h n @ [v ! ((h + n) mod length v)]"
  by (simp add: ring_def)

lemma ring_shift: "ring v ((h + 1) mod length v) n = tl (ring v h (Suc n))"
  by (rule nth_equalityI) (simp_all add: ring_def nth_tl mod_add_left_eq del: upt_Suc)

lemma ring_update:
  assumes "n < length v"
  shows "ring (v[(h + n) mod length v := x]) h n = ring v h n"
proof (rule nth_equalityI)
  fix i assume "i < length (ring (v[(h + n) mod length v := x]) h n)"
  then have i: "i < n" by simp
  have "(h + i) mod length v \<noteq> (h + n) mod length v"
  proof
    assume "(h + i) mod length v = (h + n) mod length v"
    then have "length v dvd (h + n) - (h + i)" using i by (metis add_le_cancel_left less_imp_le mod_eq_dvd_iff_nat)
    then show False using i assms by (auto dest: dvd_imp_le)
  qed
  then show "ring (v[(h + n) mod length v := x]) h n ! i = ring v h n ! i"
    using i by (simp add: ring_def)
qed simp

lemma cq_size_tail: "cq_ok q \<Longrightarrow> cq_size q < cq_max_items q \<and> cq_tail q = (cq_head q + cq_size q) mod cq_max_items q"
  by (auto simp: cq_ok_def cq_size_def)

text \<open>The size is the only number below the slots with which the tail is reached from the head.\<close>

lemma cq_size_unique:
  assumes "cq_ok q" "n < cq_max_items q" "cq_tail q = (cq_head q + n) mod cq_max_items q"
  shows "cq_size q = n"
proof -
  have "cq_head q + n < cq_max_items q \<or>
      cq_max_items q \<le> cq_head q + n \<and> (cq_head q + n) mod cq_max_items q = cq_head q + n - cq_max_items q"
    using assms(1,2) by (cases "cq_head q + n < cq_max_items q") (auto simp: cq_ok_def le_mod_geq intro!: mod_less)
  then show ?thesis
    using assms by (auto simp: cq_ok_def cq_size_def)
qed

lemma cq_items_cong:
  assumes "cq_ok q" "n < cq_max_items q" "cq_tail q = (cq_head q + n) mod cq_max_items q"
  shows "cq_items q = ring (cq_v q) (cq_head q) n"
  using cq_size_unique [OF assms] by (simp add: cq_items_def)

lemma cq_full_size: "cq_ok q \<Longrightarrow> cq_full q \<longleftrightarrow> Suc (cq_size q) = cq_max_items q"
proof -
  assume ok: "cq_ok q"
  have "cq_full q \<longleftrightarrow> (cq_head q + Suc (cq_size q)) mod cq_max_items q = cq_head q"
    using ok cq_size_tail [OF ok] by (simp add: cq_full_def cq_ok_def mod_Suc_eq)
  also have "\<dots> \<longleftrightarrow> Suc (cq_size q) = cq_max_items q"
  proof
    assume "(cq_head q + Suc (cq_size q)) mod cq_max_items q = cq_head q"
    then have "(cq_head q + Suc (cq_size q)) mod cq_max_items q = cq_head q mod cq_max_items q"
      using ok by (simp add: cq_ok_def)
    then have "cq_max_items q dvd Suc (cq_size q)" by (metis add_diff_cancel_left' le_add1 mod_eq_dvd_iff_nat)
    then show "Suc (cq_size q) = cq_max_items q" using cq_size_tail [OF ok] by (auto dest: dvd_imp_le)
  next
    assume "Suc (cq_size q) = cq_max_items q"
    then show "(cq_head q + Suc (cq_size q)) mod cq_max_items q = cq_head q"
      using ok by (simp add: cq_ok_def)
  qed
  finally show ?thesis .
qed

lemma cq_push_back_spec:
  assumes ok: "cq_ok q"
  shows "\<exists>q'. cq_push_back x q = Inr q' \<and> cq_ok q' \<and> cq_capacity q' = cq_capacity q \<and>
     cq_items q' = last_n (cq_capacity q) (cq_items q @ [x]) \<and>
     cq_overrun_counter q' = (if cq_full q then (cq_overrun_counter q + 1) mod 2 ^ 64 else cq_overrun_counter q)"
proof -
  let ?m = "cq_max_items q" and ?h = "cq_head q" and ?n = "cq_size q"
  define v where "v = (cq_v q)[cq_tail q := x]"
  note st = cq_size_tail [OF ok]
  have len: "length v = ?m" "0 < ?m" "length (cq_v q) = ?m" using ok by (simp_all add: v_def cq_ok_def)
  have r: "ring v ?h (Suc ?n) = cq_items q @ [x]"
    using ring_update [of ?n "cq_v q" ?h x] st len by (simp add: v_def ring_Suc cq_items_def)
  have tail: "(cq_tail q + 1) mod ?m = (?h + Suc ?n) mod ?m" using st by (simp add: mod_Suc_eq)
  show ?thesis
  proof (cases "cq_full q")
    case True
    then have n: "Suc ?n = ?m" using cq_full_size [OF ok] by simp
    let ?q = "q\<lparr>cq_v := v, cq_tail := ?h, cq_head := (?h + 1) mod ?m, cq_overrun_counter := (cq_overrun_counter q + 1) mod 2 ^ 64\<rparr>"
    have "cq_push_back x q = Inr ?q"
      using ok True len by (simp add: cq_push_back_def cq_advance_def cq_full_def cq_ok_def v_def)
    moreover have okq: "cq_ok ?q" using ok len by (simp add: cq_ok_def)
    moreover have "?h = ((?h + 1) mod ?m + ?n) mod ?m"
    proof -
      have "((?h + 1) mod ?m + ?n) mod ?m = (?h + Suc ?n) mod ?m" by (simp add: mod_add_left_eq)
      with n ok show ?thesis by (simp add: cq_ok_def del: add_Suc_right)
    qed
    then have "cq_items ?q = ring v ((?h + 1) mod ?m) ?n"
      using cq_items_cong [OF okq, of ?n] st by simp
    then have "cq_items ?q = tl (cq_items q @ [x])"
      using ring_shift [of v ?h ?n] r len by simp
    then have "cq_items ?q = last_n (cq_capacity q) (cq_items q @ [x])"
      using n by (simp add: last_n_overrun cq_capacity_def cq_items_def)
    ultimately show ?thesis using True by (simp add: cq_capacity_def)
  next
    case False
    then have n: "Suc ?n < ?m" using cq_full_size [OF ok] st by simp
    let ?q = "q\<lparr>cq_v := v, cq_tail := (cq_tail q + 1) mod ?m\<rparr>"
    have "cq_push_back x q = Inr ?q"
      using ok False len by (simp add: cq_push_back_def cq_advance_def cq_full_def cq_ok_def v_def)
    moreover have okq: "cq_ok ?q" using ok len by (simp add: cq_ok_def)
    moreover have "cq_items ?q = cq_items q @ [x]"
      using cq_items_cong [OF okq, of "Suc ?n"] n tail r by simp
    then have "cq_items ?q = last_n (cq_capacity q) (cq_items q @ [x])"
      using n by (simp add: last_n_all cq_capacity_def cq_items_def)
    ultimately show ?thesis using False by (simp add: cq_capacity_def)
  qed
qed

lemma cq_items_empty: "cq_ok q \<Longrightarrow> cq_items q = [] \<longleftrightarrow> cq_empty q"
proof -
  assume ok: "cq_ok q"
  have "cq_items q = [] \<longleftrightarrow> cq_size q = 0"
    unfolding cq_items_def by (metis length_0_conv length_ring)
  then show ?thesis using ok by (auto simp: cq_empty_def cq_size_def cq_ok_def)
qed

lemma cq_pop_front_spec:
  assumes ok: "cq_ok q" and ne: "cq_items q \<noteq> []"
  shows "\<exists>q'. cq_pop_front q = Inr q' \<and> cq_ok q' \<and> cq_capacity q' = cq_capacity q \<and>
     cq_items q' = tl (cq_items q) \<and> cq_overrun_counter q' = cq_overrun_counter q"
proof -
  let ?q = "q\<lparr>cq_head := (cq_head q + 1) mod cq_max_items q\<rparr>"
  obtain n where n: "cq_size q = Suc n" using ne by (cases "cq_size q") (simp_all add: cq_items_def ring_def)
  note st = cq_size_tail [OF ok]
  have okq: "cq_ok ?q" using ok by (simp add: cq_ok_def)
  have "cq_items ?q = ring (cq_v q) ((cq_head q + 1) mod cq_max_items q) n"
    using cq_items_cong [OF okq, of n] st n by (simp add: mod_Suc_eq mod_add_left_eq)
  then have "cq_items ?q = tl (cq_items q)"
    using ring_shift [of "cq_v q" "cq_head q" n] ok n by (simp add: cq_items_def cq_ok_def)
  then show ?thesis using ok okq by (simp add: cq_pop_front_def cq_ok_def cq_capacity_def)
qed

lemma cq_at_spec: "cq_ok q \<Longrightarrow> i < length (cq_items q) \<Longrightarrow> cq_at q i = Inr (cq_items q ! i)"
  by (simp add: cq_at_def cq_items_def ring_def at_r_def cq_ok_def)

lemma cq_front_spec: "cq_ok q \<Longrightarrow> cq_items q \<noteq> [] \<Longrightarrow> cq_front q = Inr (hd (cq_items q))"
  using cq_at_spec [of q 0] by (simp add: cq_front_def cq_at_def cq_ok_def hd_conv_nth)

interpretation cq: overrun_queue cq_push_back cq_pop_front cq_front cq_at cq_size cq_empty cq_full
  cq_overrun_counter cq_ok cq_capacity cq_items
proof unfold_locales
  fix q :: "'a circular_q" assume ok: "cq_ok q"
  show "cq_size q = length (cq_items q)" by (simp add: cq_items_def)
  show "cq_full q = (length (cq_items q) = cq_capacity q)"
    using ok cq_full_size [OF ok] cq_size_tail [OF ok] by (auto simp: cq_items_def cq_capacity_def)
  show "length (cq_items q) \<le> cq_capacity q"
    using cq_size_tail [OF ok] by (auto simp: cq_items_def cq_capacity_def)
qed (simp_all add: cq_push_back_spec cq_pop_front_spec cq_front_spec cq_at_spec cq_items_empty)

lemma cq_new_ok: "n < 2 ^ 64 - 1 \<Longrightarrow> cq_ok (cq_new d n) \<and> cq_capacity (cq_new d n) = n \<and> cq_items (cq_new d n) = [] \<and> cq_overrun_counter (cq_new d n) = 0"
  by (simp add: cq_new_def cq_ok_def cq_capacity_def cq_items_def cq_size_def ring_def Let_def)

end
