(* ===== verification/Log_Async.thy ===== *)
theory Log_Async
  imports Log_Queue Log_Base
begin

section \<open>Logging: the blocking queue (spdlog)\<close>

text \<open>
  \<open>log_msg_buffer\<close> of \<open>details/log_msg_buffer-inl.h\<close> and \<open>mpmc_blocking_queue\<close> of \<open>details/mpmc_blocking_q.h\<close>. Every access to
  the queue is a critical section under its mutex, so any number of producers and consumers is an interleaving of these sections and
  of the increments of the discard counter, an atomic outside the lock: the step relation \<open>mpmc_step\<close>. A call that waits on a condition variable has no step while it must wait; in the operations, \<open>None\<close> is
  waiting. An item moved out of the vector leaves a husk in its slot, which is not read before it is
  overwritten; the model keeps the item there.
\<close>

subsection \<open>Messages that own their text\<close>

text \<open>The views of name and payload are the two pieces of the buffer with their sizes.\<close>

record log_msg_buffer =
  lmb_msg :: log_msg
  lmb_buffer :: memory_buf

definition update_string_views :: "log_msg_buffer \<Rightarrow> log_msg_buffer" where
  "update_string_views b =
     (let m = lmb_msg b; n = length (logger_name m)
      in b\<lparr>lmb_msg := m\<lparr>logger_name := take n (lmb_buffer b),
                         payload := take (length (payload m)) (drop n (lmb_buffer b))\<rparr>\<rparr>)"

definition log_msg_buffer_of :: "log_msg \<Rightarrow> log_msg_buffer" where
  "log_msg_buffer_of orig_msg =
     update_string_views \<lparr>lmb_msg = orig_msg, lmb_buffer = ([] @ logger_name orig_msg) @ payload orig_msg\<rparr>"

definition log_msg_buffer_copy :: "log_msg_buffer \<Rightarrow> log_msg_buffer" where
  "log_msg_buffer_copy other =
     update_string_views \<lparr>lmb_msg = lmb_msg other,
       lmb_buffer = ([] @ logger_name (lmb_msg other)) @ payload (lmb_msg other)\<rparr>"

definition log_msg_buffer_move :: "log_msg_buffer \<Rightarrow> log_msg_buffer" where
  "log_msg_buffer_move other = update_string_views \<lparr>lmb_msg = lmb_msg other, lmb_buffer = lmb_buffer other\<rparr>"

definition log_msg_buffer_assign :: "log_msg_buffer \<Rightarrow> log_msg_buffer \<Rightarrow> log_msg_buffer" where
  "log_msg_buffer_assign this other =
     update_string_views (this\<lparr>lmb_msg := lmb_msg other, lmb_buffer := [] @ lmb_buffer other\<rparr>)"

definition log_msg_buffer_move_assign :: "log_msg_buffer \<Rightarrow> log_msg_buffer \<Rightarrow> log_msg_buffer" where
  "log_msg_buffer_move_assign this other =
     update_string_views (this\<lparr>lmb_msg := lmb_msg other, lmb_buffer := lmb_buffer other\<rparr>)"

lemma log_msg_buffer_keeps:
  "lmb_msg (log_msg_buffer_of m) = m"
  "lmb_msg (log_msg_buffer_copy (log_msg_buffer_of m)) = m"
  "lmb_msg (log_msg_buffer_move (log_msg_buffer_of m)) = m"
  "lmb_msg (log_msg_buffer_assign b (log_msg_buffer_of m)) = m"
  "lmb_msg (log_msg_buffer_move_assign b (log_msg_buffer_of m)) = m"
  by (simp_all add: log_msg_buffer_of_def log_msg_buffer_copy_def log_msg_buffer_move_def
      log_msg_buffer_assign_def log_msg_buffer_move_assign_def update_string_views_def Let_def)

subsection \<open>The blocking queue\<close>

record 'a mpmc_blocking_queue =
  mq_q :: "'a circular_q"
  mq_discard_counter :: nat

definition mpmc_new :: "'a \<Rightarrow> nat \<Rightarrow> 'a mpmc_blocking_queue" where
  "mpmc_new dflt max_items = \<lparr>mq_q = cq_new dflt max_items, mq_discard_counter = 0\<rparr>"

definition mq_push :: "'a \<Rightarrow> 'a mpmc_blocking_queue \<Rightarrow> 'a mpmc_blocking_queue res" where
  "mq_push x m = map_r (\<lambda>q. m\<lparr>mq_q := q\<rparr>) (cq_push_back x (mq_q m))"

definition enqueue :: "'a \<Rightarrow> 'a mpmc_blocking_queue \<Rightarrow> 'a mpmc_blocking_queue res option" where
  "enqueue x m = (if cq_full (mq_q m) then None else Some (mq_push x m))"

definition enqueue_nowait :: "'a \<Rightarrow> 'a mpmc_blocking_queue \<Rightarrow> 'a mpmc_blocking_queue res" where
  "enqueue_nowait x m = mq_push x m"

text \<open>
  \<open>enqueue_if_have_room\<close> holds the lock only while it looks for room and pushes; an item without room is counted after
  the lock is released. The two parts, and the call that runs through without another thread in between:
\<close>

definition push_if_room :: "'a \<Rightarrow> 'a mpmc_blocking_queue \<Rightarrow> (bool \<times> 'a mpmc_blocking_queue) res" where
  "push_if_room x m = (if \<not> cq_full (mq_q m) then map_r (Pair True) (mq_push x m) else Inr (False, m))"

definition count_discard :: "'a mpmc_blocking_queue \<Rightarrow> 'a mpmc_blocking_queue" where
  "count_discard m = m\<lparr>mq_discard_counter := (mq_discard_counter m + 1) mod 2 ^ 64\<rparr>"

definition enqueue_if_have_room :: "'a \<Rightarrow> 'a mpmc_blocking_queue \<Rightarrow> 'a mpmc_blocking_queue res" where
  "enqueue_if_have_room x m = map_r (\<lambda>(pushed, m'). if pushed then m' else count_discard m') (push_if_room x m)"

definition mq_pop :: "'a mpmc_blocking_queue \<Rightarrow> ('a \<times> 'a mpmc_blocking_queue) res" where
  "mq_pop m =
     bind_r (cq_front (mq_q m)) (\<lambda>x.
       map_r (\<lambda>q. (x, m\<lparr>mq_q := q\<rparr>)) (cq_pop_front (mq_q m)))"

definition dequeue :: "'a mpmc_blocking_queue \<Rightarrow> ('a \<times> 'a mpmc_blocking_queue) res option" where
  "dequeue m = (if cq_empty (mq_q m) then None else Some (mq_pop m))"

text \<open>After the timeout the wait returns the predicate, so the call fails only on an empty queue.\<close>

definition dequeue_for :: "'a mpmc_blocking_queue \<Rightarrow> ('a option \<times> 'a mpmc_blocking_queue) res" where
  "dequeue_for m =
     (if cq_empty (mq_q m) then Inr (None, m) else map_r (\<lambda>(x, m'). (Some x, m')) (mq_pop m))"

definition mq_overrun_counter :: "'a mpmc_blocking_queue \<Rightarrow> nat" where
  "mq_overrun_counter m = cq_overrun_counter (mq_q m)"

definition mq_size :: "'a mpmc_blocking_queue \<Rightarrow> nat" where
  "mq_size m = cq_size (mq_q m)"

definition mq_reset_overrun_counter :: "'a mpmc_blocking_queue \<Rightarrow> 'a mpmc_blocking_queue" where
  "mq_reset_overrun_counter m = m\<lparr>mq_q := cq_reset_overrun_counter (mq_q m)\<rparr>"

definition mq_reset_discard_counter :: "'a mpmc_blocking_queue \<Rightarrow> 'a mpmc_blocking_queue" where
  "mq_reset_discard_counter m = m\<lparr>mq_discard_counter := 0\<rparr>"

subsection \<open>Interleavings\<close>

datatype 'a queue_act = Enqueue 'a | Enqueue_nowait 'a | Enqueue_if_room 'a | Count_discard | Dequeue 'a | Dequeue_timeout

text \<open>
  The queue and the number of calls of \<open>enqueue_if_have_room\<close> that found no room and have not counted their item yet.
\<close>

type_synonym 'a queue_state = "'a mpmc_blocking_queue \<times> nat"

inductive mpmc_step :: "'a queue_state \<Rightarrow> 'a queue_act \<Rightarrow> 'a queue_state \<Rightarrow> bool" where
  enq: "enqueue x m = Some (Inr m') \<Longrightarrow> mpmc_step (m, c) (Enqueue x) (m', c)"
| nowait: "enqueue_nowait x m = Inr m' \<Longrightarrow> mpmc_step (m, c) (Enqueue_nowait x) (m', c)"
| if_room: "push_if_room x m = Inr (pushed, m') \<Longrightarrow>
    mpmc_step (m, c) (Enqueue_if_room x) (m', if pushed then c else Suc c)"
| discard: "mpmc_step (m, Suc c) Count_discard (count_discard m, c)"
| deq: "dequeue m = Some (Inr (x, m')) \<Longrightarrow> mpmc_step (m, c) (Dequeue x) (m', c)"
| deq_for: "dequeue_for m = Inr (Some x, m') \<Longrightarrow> mpmc_step (m, c) (Dequeue x) (m', c)"
| timeout: "dequeue_for m = Inr (None, m') \<Longrightarrow> mpmc_step (m, c) Dequeue_timeout (m', c)"

inductive mpmc_run :: "'a queue_state \<Rightarrow> 'a queue_act list \<Rightarrow> 'a queue_state \<Rightarrow> bool" where
  run_refl: "mpmc_run s [] s"
| run_step: "mpmc_run s acts s' \<Longrightarrow> mpmc_step s' a s'' \<Longrightarrow> mpmc_run s (acts @ [a]) s''"

fun offered :: "'a queue_act \<Rightarrow> 'a list" where
  "offered (Enqueue x) = [x]"
| "offered (Enqueue_nowait x) = [x]"
| "offered (Enqueue_if_room x) = [x]"
| "offered _ = []"

fun taken :: "'a queue_act \<Rightarrow> 'a list" where
  "taken (Dequeue x) = [x]"
| "taken _ = []"

fun waits_for_room :: "'a queue_act \<Rightarrow> bool" where
  "waits_for_room (Enqueue_nowait x) = False"
| "waits_for_room (Enqueue_if_room x) = False"
| "waits_for_room _ = True"

abbreviation all_offered :: "'a queue_act list \<Rightarrow> 'a list" where
  "all_offered acts \<equiv> concat (map offered acts)"

abbreviation all_taken :: "'a queue_act list \<Rightarrow> 'a list" where
  "all_taken acts \<equiv> concat (map taken acts)"

subsection \<open>What a step does\<close>

lemma mq_push_spec:
  assumes "cq_ok (mq_q m)" "mq_push x m = Inr m'"
  shows "cq_ok (mq_q m')" "cq_capacity (mq_q m') = cq_capacity (mq_q m)" "mq_discard_counter m' = mq_discard_counter m"
    "cq_items (mq_q m') = last_n (cq_capacity (mq_q m)) (cq_items (mq_q m) @ [x])"
    "mq_overrun_counter m' = (if cq_full (mq_q m) then (mq_overrun_counter m + 1) mod 2 ^ 64 else mq_overrun_counter m)"
  using assms cq.push_spec [OF assms(1), of x] by (auto simp: mq_push_def mq_overrun_counter_def)

lemma mq_pop_spec:
  assumes "cq_ok (mq_q m)" "\<not> cq_empty (mq_q m)"
  shows "\<exists>m'. mq_pop m = Inr (hd (cq_items (mq_q m)), m') \<and> cq_ok (mq_q m') \<and> cq_capacity (mq_q m') = cq_capacity (mq_q m) \<and>
    mq_discard_counter m' = mq_discard_counter m \<and> cq_items (mq_q m') = tl (cq_items (mq_q m)) \<and>
    mq_overrun_counter m' = mq_overrun_counter m"
  using assms cq.pop_spec [OF assms(1)] cq.front_spec [OF assms(1)] cq.empty_spec [OF assms(1)]
  by (auto simp: mq_pop_def mq_overrun_counter_def)

text \<open>The items behind each other: taken before, in the queue, or lost to an overrun or a discard.\<close>

fun queue_inv :: "nat \<Rightarrow> 'a queue_act list \<Rightarrow> 'a queue_state \<Rightarrow> bool" where
  "queue_inv n acts (m, c) \<longleftrightarrow>
     cq_ok (mq_q m) \<and> cq_capacity (mq_q m) = n \<and>
     subseq (all_taken acts @ cq_items (mq_q m)) (all_offered acts) \<and>
     (list_all waits_for_room acts \<longrightarrow> all_taken acts @ cq_items (mq_q m) = all_offered acts) \<and>
     length (all_offered acts) mod 2 ^ 64 =
       (length (all_taken acts) + mq_size m + mq_overrun_counter m + (mq_discard_counter m + c)) mod 2 ^ 64"

lemmas queue_inv_def = queue_inv.simps
declare queue_inv.simps [simp del]

lemma mod_sum_Suc:
  fixes M :: nat
  assumes "L mod M = (t + s + o' + d) mod M"
  shows "Suc L mod M = (t + Suc s + o' + d) mod M" "Suc L mod M = (t + s + Suc o' mod M + d) mod M"
    "Suc L mod M = (t + s + o' + Suc d) mod M"
proof -
  have suc: "Suc L mod M = Suc (t + s + o' + d) mod M" using assms by (metis mod_Suc_eq)
  show "Suc L mod M = (t + Suc s + o' + d) mod M" "Suc L mod M = (t + s + o' + Suc d) mod M" using suc by simp_all
  have "(t + s + Suc o' mod M + d) mod M = (t + s + d + Suc o' mod M) mod M" by (simp add: ac_simps)
  also have "\<dots> = (t + s + d + Suc o') mod M" by (rule mod_add_right_eq)
  finally show "Suc L mod M = (t + s + Suc o' mod M + d) mod M" using suc by (simp add: ac_simps)
qed

lemma mod_sum_move:
  fixes M :: nat
  shows "(t + (d + Suc c)) mod M = (t + (Suc d mod M + c)) mod M"
  using mod_add_right_eq [of "t + c" "Suc d" M] by (simp add: ac_simps)

lemma queue_inv_push:
  assumes inv: "queue_inv n acts (m, c)" and push: "mq_push x m = Inr m'"
    and a: "offered a = [x]" "taken a = []" "waits_for_room a \<longrightarrow> \<not> cq_full (mq_q m)"
  shows "queue_inv n (acts @ [a]) (m', c)"
proof -
  have ok: "cq_ok (mq_q m)" and n: "cq_capacity (mq_q m) = n" using inv by (simp_all add: queue_inv_def)
  note sp = mq_push_spec [OF ok push]
  let ?xs = "cq_items (mq_q m)"
  have len: "length ?xs \<le> n" using cq.length_items [OF ok] n by simp
  have full: "cq_full (mq_q m) \<longleftrightarrow> length ?xs = n" using cq.full_spec [OF ok] n by simp
  have sub: "subseq (all_taken acts @ ?xs @ [x]) (all_offered acts @ [x])"
    using inv by (simp add: queue_inv_def flip: append_assoc)
  have "subseq (all_taken acts @ cq_items (mq_q m')) (all_taken acts @ ?xs @ [x])"
    unfolding sp(4) last_n_def by (intro list_emb_append_mono subseq_order.refl sublist_imp_subseq sublist_drop)
  with sub have 1: "subseq (all_taken (acts @ [a]) @ cq_items (mq_q m')) (all_offered (acts @ [a]))"
    using a by (metis (no_types, lifting) append.right_neutral append_Nil2 concat.simps concat_append list.simps(8,9)
        map_append subseq_order.trans)
  have 2: "list_all waits_for_room (acts @ [a]) \<longrightarrow> all_taken (acts @ [a]) @ cq_items (mq_q m') = all_offered (acts @ [a])"
    using inv a sp(4) n full len by (auto simp: queue_inv_def last_n_all)
  have sz: "mq_size m = length ?xs" "mq_size m' = (if length ?xs = n then n else Suc (length ?xs))"
    using cq.size_spec [OF ok] cq.size_spec [OF sp(1)] sp(4) n len by (auto simp: mq_size_def length_last_n)
  have "length (all_offered acts) mod 2 ^ 64 =
      (length (all_taken acts) + mq_size m + mq_overrun_counter m + (mq_discard_counter m + c)) mod 2 ^ 64"
    using inv by (simp add: queue_inv_def)
  note mod = mod_sum_Suc(1,2) [OF this]
  have 3: "length (all_offered (acts @ [a])) mod 2 ^ 64 =
      (length (all_taken (acts @ [a])) + mq_size m' + mq_overrun_counter m' + (mq_discard_counter m' + c)) mod 2 ^ 64"
    using mod sz sp(3,5) a(1,2) full by (cases "length ?xs = n") simp_all
  show ?thesis using 1 2 3 sp(1,2) n by (simp add: queue_inv_def del: map_append)
qed

lemma queue_inv_pop:
  assumes inv: "queue_inv n acts (m, c)" and ne: "\<not> cq_empty (mq_q m)" and pop: "mq_pop m = Inr (x, m')"
  shows "queue_inv n (acts @ [Dequeue x]) (m', c)"
proof -
  have ok: "cq_ok (mq_q m)" and n: "cq_capacity (mq_q m) = n" using inv by (simp_all add: queue_inv_def)
  obtain ys where xs: "cq_items (mq_q m) = x # ys" "cq_items (mq_q m') = ys" "cq_ok (mq_q m')"
      "cq_capacity (mq_q m') = n" "mq_discard_counter m' = mq_discard_counter m" "mq_overrun_counter m' = mq_overrun_counter m"
    using mq_pop_spec [OF ok ne] pop n cq.empty_spec [OF ok] ne by (cases "cq_items (mq_q m)") auto
  have "mq_size m = Suc (mq_size m')"
    using cq.size_spec [OF ok] cq.size_spec [OF xs(3)] xs(1,2) by (simp add: mq_size_def)
  then show ?thesis using inv xs by (simp add: queue_inv_def)
qed

lemma queue_inv_no_room:
  assumes "queue_inv n acts (m, c)" shows "queue_inv n (acts @ [Enqueue_if_room x]) (m, Suc c)"
proof -
  have "length (all_offered acts) mod 2 ^ 64 =
      (length (all_taken acts) + mq_size m + mq_overrun_counter m + (mq_discard_counter m + c)) mod 2 ^ 64"
    using assms by (simp add: queue_inv_def)
  from mod_sum_Suc(3) [OF this] assms show ?thesis
    by (auto simp: queue_inv_def intro: subseq_order.trans [OF _ list_emb_append2])
qed

lemma queue_inv_count:
  assumes "queue_inv n acts (m, Suc c)" shows "queue_inv n (acts @ [Count_discard]) (count_discard m, c)"
proof -
  have same: "mq_size (count_discard m) = mq_size m" "mq_overrun_counter (count_discard m) = mq_overrun_counter m"
    "mq_q (count_discard m) = mq_q m" "mq_discard_counter (count_discard m) = Suc (mq_discard_counter m) mod 2 ^ 64"
    by (simp_all add: count_discard_def mq_size_def mq_overrun_counter_def)
  show ?thesis
    using assms mod_sum_move [of "length (all_taken acts) + mq_size m + mq_overrun_counter m" "mq_discard_counter m" c "2 ^ 64"]
    by (simp add: queue_inv_def same)
qed

lemma queue_inv_step:
  assumes inv: "queue_inv n acts s" and "mpmc_step s a s'" shows "queue_inv n (acts @ [a]) s'"
  using assms(2)
proof (cases rule: mpmc_step.cases)
  case (if_room x m pushed m' c)
  then show ?thesis using inv queue_inv_push [of n acts m c] queue_inv_no_room
    by (auto simp: push_if_room_def map_r_Inr_iff split: if_splits)
next
  case (timeout m m' c)
  then show ?thesis using inv by (auto simp: dequeue_for_def map_r_Inr_iff queue_inv_def split: if_splits)
qed (use inv in \<open>auto simp: enqueue_def enqueue_nowait_def dequeue_def dequeue_for_def map_r_Inr_iff
      intro!: queue_inv_push queue_inv_pop queue_inv_count split: if_splits\<close>)

lemma queue_inv_new: "n < 2 ^ 64 - 1 \<Longrightarrow> queue_inv n [] (mpmc_new d n, 0)"
  using cq_new_ok [of n d]
  by (simp add: queue_inv_def mpmc_new_def mq_size_def mq_overrun_counter_def cq.size_spec)

lemma queue_inv_run: "mpmc_run s acts s' \<Longrightarrow> queue_inv n [] s \<Longrightarrow> queue_inv n acts s'"
  by (induction rule: mpmc_run.induct) (auto intro: queue_inv_step)

text \<open>Progress: a queue that holds something can be read, one with room can be written.\<close>

lemma dequeue_enabled:
  assumes "cq_ok (mq_q m)" "cq_items (mq_q m) \<noteq> []"
  shows "\<exists>x m'. dequeue m = Some (Inr (x, m'))"
  using mq_pop_spec [OF assms(1)] cq.empty_spec [OF assms(1)] assms(2) by (auto simp: dequeue_def)

lemma enqueue_enabled:
  assumes "cq_ok (mq_q m)" "length (cq_items (mq_q m)) < cq_capacity (mq_q m)"
  shows "\<exists>m'. enqueue x m = Some (Inr m')"
  using cq.push_spec [OF assms(1), of x] cq.full_spec [OF assms(1)] assms(2) by (auto simp: enqueue_def mq_push_def)

text \<open>
  C29. In every interleaving of any number of producers and consumers of the blocking queue, what has been taken
  followed by what is queued is a subsequence of what was offered, in the order of the offers; at most the
  capacity is queued; every offered item is accounted for, modulo the width of the counters, as taken, queued, overrun or discarded,
  where \<open>c\<close> calls have found no room and are about to count their item; and when the producers wait for room, nothing is lost at all.
\<close>

theorem mpmc_accounts_for_all:
  assumes "mpmc_run (mpmc_new d n, 0) acts (m, c)" and "n < 2 ^ 64 - 1"
  shows "subseq (all_taken acts @ cq_items (mq_q m)) (all_offered acts)
    \<and> length (cq_items (mq_q m)) \<le> n
    \<and> length (all_offered acts) mod 2 ^ 64 =
        (length (all_taken acts) + mq_size m + mq_overrun_counter m + (mq_discard_counter m + c)) mod 2 ^ 64
    \<and> (list_all waits_for_room acts \<longrightarrow> all_taken acts @ cq_items (mq_q m) = all_offered acts)"
  using queue_inv_run [OF assms(1) queue_inv_new [OF assms(2)]] cq.length_items [of "mq_q m"]
  by (auto simp: queue_inv_def)

theorem mpmc_accounts_for_all_witness:
  "\<exists>m. mpmc_run (mpmc_new (0 :: nat) 1, 0) [Enqueue 7, Enqueue_nowait 8, Enqueue_if_room 9, Dequeue 8, Count_discard] (m, 0)
     \<and> mq_overrun_counter m = 1 \<and> mq_discard_counter m = 1 \<and> subseq ([8] @ cq_items (mq_q m)) [7, 8, 9]"
proof -
  let ?m0 = "mpmc_new (0 :: nat) 1"
  let ?q = "\<lambda>h t c v. \<lparr>cq_max_items = 2, cq_head = h, cq_tail = t, cq_overrun_counter = c, cq_v = v\<rparr>"
  let ?m1 = "\<lparr>mq_q = ?q 0 1 0 [7, 0], mq_discard_counter = 0\<rparr>"
  let ?m2 = "\<lparr>mq_q = ?q 1 0 1 [7, 8], mq_discard_counter = 0\<rparr>"
  let ?m3 = "\<lparr>mq_q = ?q 0 0 1 [7, 8], mq_discard_counter = 0\<rparr>"
  let ?m4 = "\<lparr>mq_q = ?q 0 0 1 [7, 8], mq_discard_counter = 1\<rparr>"
  have two: "replicate 2 (0 :: nat) = [0, 0]" by (simp add: numeral_2_eq_2)
  note defs = mpmc_new_def cq_new_def mq_push_def cq_push_back_def cq_advance_def cq_full_def
  have "mpmc_step (?m0, 0) (Enqueue 7) (?m1, 0)"
    by (rule enq) (simp add: enqueue_def defs Let_def two)
  moreover have "mpmc_step (?m1, 0) (Enqueue_nowait 8) (?m2, 0)"
    by (rule nowait) (simp add: enqueue_nowait_def defs)
  moreover have "mpmc_step (?m2, 0) (Enqueue_if_room 9) (?m2, 1)"
    using if_room [of 9 ?m2 False ?m2 0] by (simp add: push_if_room_def defs)
  moreover have "mpmc_step (?m2, 1) (Dequeue 8) (?m3, 1)"
    by (rule deq) (simp add: dequeue_def mq_pop_def cq_front_def cq_pop_front_def cq_empty_def at_r_def)
  moreover have "mpmc_step (?m3, 1) Count_discard (?m4, 0)"
    using discard [of ?m3 0] by (simp add: count_discard_def)
  ultimately have run: "mpmc_run (?m0, 0)
      ((((([] @ [Enqueue 7]) @ [Enqueue_nowait 8]) @ [Enqueue_if_room 9]) @ [Dequeue 8]) @ [Count_discard]) (?m4, 0)"
    by (rule run_step [OF run_step [OF run_step [OF run_step [OF run_step [OF run_refl]]]]])
  from mpmc_accounts_for_all [OF run] run show ?thesis
    by (intro exI [of _ ?m4]) (simp add: mq_overrun_counter_def)
qed

end
