(* ===== verification/Log_Pool.thy ===== *)
theory Log_Pool
  imports Log_Async "HOL-Library.Multiset"
begin

section \<open>Logging: the thread pool (spdlog)\<close>

text \<open>
  \<open>thread_pool\<close> of \<open>details/thread_pool.h\<close> and \<open>thread_pool-inl.h\<close>: posting, the workers, and the destructor. A worker takes a message
  under the lock of the queue and calls the back end of its logger after the lock is released, so the two are separate steps of
  \<open>pool_step\<close>, and another worker may overtake it in between. An exception that leaves the back end leaves the
  worker's thread, which ends the process. The back end is a parameter here; \<open>Log_Logger\<close> provides it. A back-end call is one step;
  calls of several workers may overlap in the program, and no theorem on several workers speaks of what the calls do.
\<close>

subsection \<open>Messages of the pool\<close>

datatype async_msg_type = Am_log | Am_flush | Am_terminate

datatype async_overflow_policy = Block | Overrun_oldest | Discard_new

text \<open>The logger that posted a message, by its number; \<open>None\<close> is the null pointer of a termination message.\<close>

record async_msg =
  am_msg :: log_msg_buffer
  am_type :: async_msg_type
  am_worker :: "nat option"

definition log_msg_default :: log_msg where
  "log_msg_default =
     \<lparr>logger_name = [], msg_level = Lv_off, time = 0, thread_id = 0, color_range_start = 0, color_range_end = 0,
      msg_source = source_loc_default, payload = []\<rparr>"

definition async_msg_of :: "nat option \<Rightarrow> async_msg_type \<Rightarrow> log_msg \<Rightarrow> async_msg" where
  "async_msg_of w the_type m = \<lparr>am_msg = log_msg_buffer_of m, am_type = the_type, am_worker = w\<rparr>"

definition async_msg_plain :: "nat option \<Rightarrow> async_msg_type \<Rightarrow> async_msg" where
  "async_msg_plain w the_type =
     \<lparr>am_msg = \<lparr>lmb_msg = log_msg_default, lmb_buffer = []\<rparr>, am_type = the_type, am_worker = w\<rparr>"

definition terminate_msg :: async_msg where
  "terminate_msg = async_msg_plain None Am_terminate"

definition async_msg_default :: async_msg where
  "async_msg_default = async_msg_plain None Am_log"

subsection \<open>The pool\<close>

text \<open>
  A thread waits in \<open>q_.dequeue\<close> or is about to, holds the message it has taken, or has returned from \<open>worker_loop_\<close>. The
  destructor has not begun (\<open>None\<close>) or has posted so many termination messages.
\<close>

datatype worker_state = Dequeuing | Holding async_msg | Finished

record thread_pool =
  tp_q :: "async_msg mpmc_blocking_queue"
  tp_threads :: "worker_state list"
  tp_dtor :: "nat option"

definition thread_pool_new :: "nat \<Rightarrow> nat \<Rightarrow> thread_pool option" where
  "thread_pool_new q_max_items threads_n =
     (if threads_n = 0 \<or> 1000 < threads_n then None
      else Some \<lparr>tp_q = mpmc_new async_msg_default q_max_items, tp_threads = replicate threads_n Dequeuing, tp_dtor = None\<rparr>)"

definition post_async_msg :: "async_msg \<Rightarrow> async_overflow_policy \<Rightarrow> thread_pool \<Rightarrow> thread_pool res option" where
  "post_async_msg new_msg overflow_policy tp =
     (if overflow_policy = Block then
        map_option (map_r (\<lambda>q. tp\<lparr>tp_q := q\<rparr>)) (enqueue new_msg (tp_q tp))
      else if overflow_policy = Overrun_oldest then
        Some (map_r (\<lambda>q. tp\<lparr>tp_q := q\<rparr>) (enqueue_nowait new_msg (tp_q tp)))
      else Some (map_r (\<lambda>q. tp\<lparr>tp_q := q\<rparr>) (enqueue_if_have_room new_msg (tp_q tp))))"

definition post_log :: "nat \<Rightarrow> log_msg \<Rightarrow> async_overflow_policy \<Rightarrow> thread_pool \<Rightarrow> thread_pool res option" where
  "post_log worker msg overflow_policy tp = post_async_msg (async_msg_of (Some worker) Am_log msg) overflow_policy tp"

definition post_flush :: "nat \<Rightarrow> async_overflow_policy \<Rightarrow> thread_pool \<Rightarrow> thread_pool res option" where
  "post_flush worker overflow_policy tp = post_async_msg (async_msg_plain (Some worker) Am_flush) overflow_policy tp"

definition tp_overrun_counter :: "thread_pool \<Rightarrow> nat" where
  "tp_overrun_counter tp = mq_overrun_counter (tp_q tp)"

definition tp_reset_overrun_counter :: "thread_pool \<Rightarrow> thread_pool" where
  "tp_reset_overrun_counter tp = tp\<lparr>tp_q := mq_reset_overrun_counter (tp_q tp)\<rparr>"

definition tp_reset_discard_counter :: "thread_pool \<Rightarrow> thread_pool" where
  "tp_reset_discard_counter tp = tp\<lparr>tp_q := mq_reset_discard_counter (tp_q tp)\<rparr>"

definition tp_queue_size :: "thread_pool \<Rightarrow> nat" where
  "tp_queue_size tp = mq_size (tp_q tp)"

text \<open>The first statements of a worker's round: worker \<open>i\<close> takes the next message.\<close>

definition dequeue_next_msg :: "nat \<Rightarrow> thread_pool \<Rightarrow> (async_msg \<times> thread_pool) res option" where
  "dequeue_next_msg i tp =
     map_option (map_r (\<lambda>(incoming, q). (incoming, tp\<lparr>tp_q := q, tp_threads := (tp_threads tp)[i := Holding incoming]\<rparr>)))
       (dequeue (tp_q tp))"

text \<open>
  The rest of the round: the call on the logger the message points to, which returns or throws, and whether the loop goes on;
  \<open>None\<close> is an exception.
\<close>

record 'w backend =
  be_sink_it :: "nat option \<Rightarrow> log_msg \<Rightarrow> 'w \<Rightarrow> bool \<times> 'w"
  be_flush :: "nat option \<Rightarrow> 'w \<Rightarrow> bool \<times> 'w"

definition process_msg :: "'w backend \<Rightarrow> async_msg \<Rightarrow> 'w \<Rightarrow> bool option \<times> 'w" where
  "process_msg be incoming w =
     (case am_type incoming of
        Am_log \<Rightarrow> (let (thrown, w') = be_sink_it be (am_worker incoming) (lmb_msg (am_msg incoming)) w
                   in (if thrown then None else Some True, w'))
      | Am_flush \<Rightarrow> (let (thrown, w') = be_flush be (am_worker incoming) w in (if thrown then None else Some True, w'))
      | Am_terminate \<Rightarrow> (Some False, w))"

datatype 'w pool_state = Running thread_pool 'w | Aborted 'w

definition worker_loop :: "'w backend \<Rightarrow> nat \<Rightarrow> async_msg \<Rightarrow> thread_pool \<Rightarrow> 'w \<Rightarrow> 'w pool_state" where
  "worker_loop be i incoming tp w =
     (case process_msg be incoming w of
        (None, w') \<Rightarrow> Aborted w'
      | (Some active, w') \<Rightarrow> Running (tp\<lparr>tp_threads := (tp_threads tp)[i := if active then Dequeuing else Finished]\<rparr>) w')"

text \<open>
  The destructor: one round of its first loop, which posts a termination message and waits for room, and the condition that all its
  joins wait for.
\<close>

definition dtor_post :: "nat \<Rightarrow> thread_pool \<Rightarrow> thread_pool res option" where
  "dtor_post i tp =
     (if i < length (tp_threads tp)
      then map_option (map_r (\<lambda>tp'. tp'\<lparr>tp_dtor := Some (i + 1)\<rparr>)) (post_async_msg terminate_msg Block tp)
      else None)"

definition dtor_joined :: "thread_pool \<Rightarrow> bool" where
  "dtor_joined tp \<longleftrightarrow> tp_dtor tp = Some (length (tp_threads tp)) \<and> list_all (\<lambda>t. t = Finished) (tp_threads tp)"

subsection \<open>Interleavings\<close>

datatype pool_act =
  Log nat log_msg async_overflow_policy | Flush nat async_overflow_policy | Destroy | Stop | Take nat async_msg | Handle nat async_msg

text \<open>
  A logger posts only while it holds a shared pointer to the pool, so never after the destructor has begun. A discarded message is
  counted in the same step here (see \<open>mpmc_step\<close>); nothing below reads that counter.
\<close>

inductive pool_step :: "'w backend \<Rightarrow> 'w pool_state \<Rightarrow> pool_act \<Rightarrow> 'w pool_state \<Rightarrow> bool" for be where
  log: "tp_dtor tp = None \<Longrightarrow> post_log j m p tp = Some (Inr tp') \<Longrightarrow> pool_step be (Running tp w) (Log j m p) (Running tp' w)"
| flush: "tp_dtor tp = None \<Longrightarrow> post_flush j p tp = Some (Inr tp') \<Longrightarrow> pool_step be (Running tp w) (Flush j p) (Running tp' w)"
| destroy: "tp_dtor tp = None \<Longrightarrow> pool_step be (Running tp w) Destroy (Running (tp\<lparr>tp_dtor := Some 0\<rparr>) w)"
| stop: "tp_dtor tp = Some i \<Longrightarrow> dtor_post i tp = Some (Inr tp') \<Longrightarrow> pool_step be (Running tp w) Stop (Running tp' w)"
| take_msg: "i < length (tp_threads tp) \<Longrightarrow> tp_threads tp ! i = Dequeuing \<Longrightarrow> dequeue_next_msg i tp = Some (Inr (x, tp')) \<Longrightarrow>
    pool_step be (Running tp w) (Take i x) (Running tp' w)"
| handle: "i < length (tp_threads tp) \<Longrightarrow> tp_threads tp ! i = Holding x \<Longrightarrow>
    pool_step be (Running tp w) (Handle i x) (worker_loop be i x tp w)"

inductive pool_run :: "'w backend \<Rightarrow> 'w pool_state \<Rightarrow> pool_act list \<Rightarrow> 'w pool_state \<Rightarrow> bool" for be where
  pool_refl: "pool_run be s [] s"
| pool_snoc: "pool_run be s acts s' \<Longrightarrow> pool_step be s' a s'' \<Longrightarrow> pool_run be s (acts @ [a]) s''"

text \<open>What the loggers post, what the workers take and what they hand to the back ends, in the order of the steps.\<close>

fun posted :: "pool_act \<Rightarrow> async_msg list" where
  "posted (Log j m p) = [async_msg_of (Some j) Am_log m]"
| "posted (Flush j p) = [async_msg_plain (Some j) Am_flush]"
| "posted _ = []"

fun dequeued :: "pool_act \<Rightarrow> (nat \<times> async_msg) list" where
  "dequeued (Take i x) = [(i, x)]"
| "dequeued _ = []"

fun handled :: "pool_act \<Rightarrow> (nat \<times> async_msg) list" where
  "handled (Handle i x) = [(i, x)]"
| "handled _ = []"

fun blocking :: "pool_act \<Rightarrow> bool" where
  "blocking (Log j m p) \<longleftrightarrow> p = Block"
| "blocking (Flush j p) \<longleftrightarrow> p = Block"
| "blocking _ \<longleftrightarrow> True"

definition worker_stop :: "async_msg \<Rightarrow> bool" where
  "worker_stop x \<longleftrightarrow> am_type x = Am_terminate"

abbreviation all_posted :: "pool_act list \<Rightarrow> async_msg list" where
  "all_posted acts \<equiv> concat (map posted acts)"

abbreviation all_dequeued :: "pool_act list \<Rightarrow> (nat \<times> async_msg) list" where
  "all_dequeued acts \<equiv> concat (map dequeued acts)"

abbreviation all_handled :: "pool_act list \<Rightarrow> (nat \<times> async_msg) list" where
  "all_handled acts \<equiv> concat (map handled acts)"

text \<open>The messages of one worker, and the messages without the terminations.\<close>

definition of_worker :: "nat \<Rightarrow> (nat \<times> async_msg) list \<Rightarrow> async_msg list" where
  "of_worker i xs = map snd (filter (\<lambda>p. fst p = i) xs)"

definition log_msgs :: "(nat \<times> async_msg) list \<Rightarrow> async_msg list" where
  "log_msgs xs = filter (\<lambda>x. \<not> worker_stop x) (map snd xs)"

subsection \<open>What reaches the queue and leaves it\<close>

definition dtor_posts :: "thread_pool \<Rightarrow> nat" where
  "dtor_posts tp = (case tp_dtor tp of None \<Rightarrow> 0 | Some c \<Rightarrow> c)"

abbreviation pool_items :: "thread_pool \<Rightarrow> async_msg list" where
  "pool_items tp \<equiv> cq_items (mq_q (tp_q tp))"

text \<open>In the order of the queue: the messages of the loggers that were not lost, then the terminations posted so far.\<close>

definition traffic_inv :: "nat \<Rightarrow> pool_act list \<Rightarrow> thread_pool \<Rightarrow> bool" where
  "traffic_inv n acts tp \<longleftrightarrow>
     cq_ok (mq_q (tp_q tp)) \<and> cq_capacity (mq_q (tp_q tp)) = n \<and> dtor_posts tp \<le> length (tp_threads tp) \<and>
     (\<exists>ms. map snd (all_dequeued acts) @ pool_items tp = ms @ replicate (dtor_posts tp) terminate_msg \<and>
        subseq ms (all_posted acts) \<and> (list_all blocking acts \<longrightarrow> ms = all_posted acts))"

lemma traffic_ok: "traffic_inv n acts tp \<Longrightarrow> cq_ok (mq_q (tp_q tp))"
  by (simp add: traffic_inv_def)

lemma post_async_msg_spec:
  assumes "post_async_msg x p tp = Some (Inr tp')" "cq_ok (mq_q (tp_q tp))"
  shows "cq_ok (mq_q (tp_q tp'))" "cq_capacity (mq_q (tp_q tp')) = cq_capacity (mq_q (tp_q tp))"
    "tp_threads tp' = tp_threads tp" "tp_dtor tp' = tp_dtor tp"
    "subseq (pool_items tp') (pool_items tp @ [x])" "p = Block \<Longrightarrow> pool_items tp' = pool_items tp @ [x]"
proof -
  have pushed: "subseq (cq_items (mq_q m')) (pool_items tp @ [x])" "\<not> cq_full (mq_q (tp_q tp)) \<Longrightarrow> cq_items (mq_q m') = pool_items tp @ [x]"
    "cq_ok (mq_q m')" "cq_capacity (mq_q m') = cq_capacity (mq_q (tp_q tp))"
    if "mq_push x (tp_q tp) = Inr m'" for m'
    using mq_push_spec [OF assms(2) that] cq.full_spec [OF assms(2)] cq.length_items [OF assms(2)]
    by (simp_all only: last_n_def sublist_imp_subseq sublist_drop) (simp add: last_n_all flip: last_n_def)
  have "\<exists>m'. tp' = tp\<lparr>tp_q := m'\<rparr> \<and> (mq_push x (tp_q tp) = Inr m' \<or> p = Discard_new \<and> m' = count_discard (tp_q tp)) \<and>
      (p = Block \<longrightarrow> \<not> cq_full (mq_q (tp_q tp)))"
    using assms(1)
    by (cases p) (auto simp: post_async_msg_def enqueue_def enqueue_nowait_def enqueue_if_have_room_def push_if_room_def
        map_r_Inr_iff split: if_splits)
  then obtain m' where m': "tp' = tp\<lparr>tp_q := m'\<rparr>" "mq_push x (tp_q tp) = Inr m' \<or> p = Discard_new \<and> m' = count_discard (tp_q tp)"
      "p = Block \<longrightarrow> \<not> cq_full (mq_q (tp_q tp))" by blast
  then show "cq_ok (mq_q (tp_q tp'))" "cq_capacity (mq_q (tp_q tp')) = cq_capacity (mq_q (tp_q tp))"
    "tp_threads tp' = tp_threads tp" "tp_dtor tp' = tp_dtor tp"
    "subseq (pool_items tp') (pool_items tp @ [x])" "p = Block \<Longrightarrow> pool_items tp' = pool_items tp @ [x]"
    using pushed assms(2) by (auto simp: count_discard_def)
qed

lemma traffic_post:
  assumes inv: "traffic_inv n acts tp" and "tp_dtor tp = None" and post: "post_async_msg x p tp = Some (Inr tp')"
    and a: "posted a = [x]" "dequeued a = []" "blocking a \<longrightarrow> p = Block"
  shows "traffic_inv n (acts @ [a]) tp'"
proof -
  have ok: "cq_ok (mq_q (tp_q tp))" using inv by (simp add: traffic_inv_def)
  note sp = post_async_msg_spec [OF post ok]
  have c: "dtor_posts tp = 0" "dtor_posts tp' = 0" using assms(2) sp(4) by (simp_all add: dtor_posts_def)
  let ?t = "map snd (all_dequeued acts)"
  have "subseq (?t @ pool_items tp') (?t @ pool_items tp @ [x])" by (intro list_emb_append_mono subseq_order.refl sp(5))
  moreover have "subseq ((?t @ pool_items tp) @ [x]) (all_posted acts @ [x])"
    using inv c by (intro list_emb_append_mono subseq_order.refl) (auto simp: traffic_inv_def)
  ultimately have "subseq (?t @ pool_items tp') (all_posted acts @ [x])" by (auto intro: subseq_order.trans)
  moreover have "?t @ pool_items tp' = all_posted acts @ [x]" if "list_all blocking (acts @ [a])"
    using inv that a(3) sp(6) c by (auto simp: traffic_inv_def)
  ultimately show ?thesis using inv sp a c by (auto simp: traffic_inv_def)
qed

lemma traffic_stop:
  assumes inv: "traffic_inv n acts tp" and "tp_dtor tp = Some i" and "dtor_post i tp = Some (Inr tp')"
  shows "traffic_inv n (acts @ [Stop]) tp'"
proof -
  obtain tp1 where post: "post_async_msg terminate_msg Block tp = Some (Inr tp1)" "i < length (tp_threads tp)"
      "tp' = tp1\<lparr>tp_dtor := Some (i + 1)\<rparr>"
    using assms(3) by (auto simp: dtor_post_def map_r_Inr_iff split: if_splits)
  have ok: "cq_ok (mq_q (tp_q tp))" using inv by (simp add: traffic_inv_def)
  note sp = post_async_msg_spec [OF post(1) ok]
  obtain ms where ms: "map snd (all_dequeued acts) @ pool_items tp = ms @ replicate i terminate_msg" "subseq ms (all_posted acts)"
      "list_all blocking acts \<longrightarrow> ms = all_posted acts"
    using inv assms(2) by (auto simp: traffic_inv_def dtor_posts_def)
  have "map snd (all_dequeued acts) @ pool_items tp' = ms @ replicate (Suc i) terminate_msg"
  proof -
    have "map snd (all_dequeued acts) @ pool_items tp' = (ms @ replicate i terminate_msg) @ [terminate_msg]"
      using sp(6) post(3) by (simp flip: ms(1))
    then show ?thesis by (simp add: replicate_append_same)
  qed
  then show ?thesis using inv sp post ms by (auto simp: traffic_inv_def dtor_posts_def)
qed

lemma dequeue_next_msg_spec:
  assumes "dequeue_next_msg i tp = Some (Inr (x, tp'))" "cq_ok (mq_q (tp_q tp))"
  shows "cq_ok (mq_q (tp_q tp'))" "cq_capacity (mq_q (tp_q tp')) = cq_capacity (mq_q (tp_q tp))"
    "tp_threads tp' = (tp_threads tp)[i := Holding x]" "tp_dtor tp' = tp_dtor tp" "pool_items tp = x # pool_items tp'"
proof -
  obtain m' where m': "mq_pop (tp_q tp) = Inr (x, m')" "tp' = tp\<lparr>tp_q := m', tp_threads := (tp_threads tp)[i := Holding x]\<rparr>"
      "\<not> cq_empty (mq_q (tp_q tp))"
    using assms(1) by (auto simp: dequeue_next_msg_def dequeue_def map_r_Inr_iff split: if_splits)
  then show "cq_ok (mq_q (tp_q tp'))" "cq_capacity (mq_q (tp_q tp')) = cq_capacity (mq_q (tp_q tp))"
    "tp_threads tp' = (tp_threads tp)[i := Holding x]" "tp_dtor tp' = tp_dtor tp" "pool_items tp = x # pool_items tp'"
    using mq_pop_spec [OF assms(2) m'(3)] cq.empty_spec [OF assms(2)] by auto
qed

lemma traffic_take:
  assumes "traffic_inv n acts tp" "dequeue_next_msg i tp = Some (Inr (x, tp'))"
  shows "traffic_inv n (acts @ [Take i x]) tp'"
  using assms dequeue_next_msg_spec [OF assms(2)] by (auto simp: traffic_inv_def dtor_posts_def)

lemma worker_loop_RunningE:
  assumes "worker_loop be i x tp w = Running tp' w'"
  shows "tp' = tp\<lparr>tp_threads := (tp_threads tp)[i := if worker_stop x then Finished else Dequeuing]\<rparr>" "w' = snd (process_msg be x w)"
  using assms
  by (auto simp: worker_loop_def process_msg_def worker_stop_def split: prod.splits option.splits async_msg_type.splits if_splits)

lemma traffic_step:
  assumes "traffic_inv n acts tp" "pool_step be (Running tp w) a (Running tp' w')"
  shows "traffic_inv n (acts @ [a]) tp'"
  using assms(2)
proof (cases rule: pool_step.cases)
  case (handle i x)
  from worker_loop_RunningE(1) [OF handle(2) [symmetric]] assms(1) handle(1) show ?thesis
    by (auto simp: traffic_inv_def dtor_posts_def)
qed (use assms(1) in \<open>auto simp: post_log_def post_flush_def intro: traffic_post traffic_stop traffic_take,
    auto simp: traffic_inv_def dtor_posts_def\<close>)

subsection \<open>What the workers make of it\<close>

fun held :: "worker_state \<Rightarrow> async_msg list" where
  "held (Holding x) = [x]"
| "held _ = []"

definition workers_inv :: "nat \<Rightarrow> pool_act list \<Rightarrow> thread_pool \<Rightarrow> bool" where
  "workers_inv k acts tp \<longleftrightarrow>
     length (tp_threads tp) = k \<and> (\<forall>p \<in> set (all_dequeued acts) \<union> set (all_handled acts). fst p < k) \<and>
     (\<forall>i < k. of_worker i (all_dequeued acts) = of_worker i (all_handled acts) @ held (tp_threads tp ! i)) \<and>
     mset (map snd (all_dequeued acts)) = mset (map snd (all_handled acts)) + mset (concat (map held (tp_threads tp))) \<and>
     length (filter worker_stop (map snd (all_handled acts))) = length (filter (\<lambda>t. t = Finished) (tp_threads tp))"

lemma mset_concat_update:
  "i < length xs \<Longrightarrow> mset (concat (map f (xs[i := v]))) + mset (f (xs ! i)) = mset (concat (map f xs)) + mset (f v)"
  by (induction xs arbitrary: i) (auto split: nat.split simp: ac_simps)

lemma length_filter_update:
  "i < length xs \<Longrightarrow> length (filter P (xs[i := v])) + (if P (xs ! i) then 1 else 0) = length (filter P xs) + (if P v then 1 else 0)"
proof (induction xs arbitrary: i)
  case (Cons a xs)
  then show ?case using Cons.IH [of "i - 1"] by (cases i) auto
qed simp

lemma of_worker_append [simp]: "of_worker i (xs @ ys) = of_worker i xs @ of_worker i ys"
  by (simp add: of_worker_def)

lemma of_worker_single [simp]: "of_worker i [] = []" "of_worker i [(j, x)] = (if j = i then [x] else [])"
  by (simp_all add: of_worker_def)

lemma workers_take:
  assumes inv: "workers_inv k acts tp" and i: "i < length (tp_threads tp)" "tp_threads tp ! i = Dequeuing"
    and tp': "tp_threads tp' = (tp_threads tp)[i := Holding x]"
  shows "workers_inv k (acts @ [Take i x]) tp'"
proof -
  have "mset (concat (map held (tp_threads tp'))) = mset (concat (map held (tp_threads tp))) + {#x#}"
    using mset_concat_update [OF i(1), of held "Holding x"] i(2) tp' by simp
  moreover have "length (filter (\<lambda>t. t = Finished) (tp_threads tp')) = length (filter (\<lambda>t. t = Finished) (tp_threads tp))"
    using length_filter_update [OF i(1), of "\<lambda>t. t = Finished" "Holding x"] i(2) tp' by simp
  ultimately show ?thesis using inv i tp' by (auto simp: workers_inv_def nth_list_update)
qed

lemma workers_handle:
  assumes inv: "workers_inv k acts tp" and i: "i < length (tp_threads tp)" "tp_threads tp ! i = Holding x"
    and tp': "tp_threads tp' = (tp_threads tp)[i := if worker_stop x then Finished else Dequeuing]"
  shows "workers_inv k (acts @ [Handle i x]) tp'"
proof -
  let ?v = "if worker_stop x then Finished else Dequeuing"
  have "mset (concat (map held (tp_threads tp'))) + {#x#} = mset (concat (map held (tp_threads tp)))"
    using mset_concat_update [OF i(1), of held ?v] i(2) tp' by simp
  moreover have "length (filter (\<lambda>t. t = Finished) (tp_threads tp')) =
      length (filter (\<lambda>t. t = Finished) (tp_threads tp)) + (if worker_stop x then 1 else 0)"
    using length_filter_update [OF i(1), of "\<lambda>t. t = Finished" ?v] i(2) tp' by simp
  ultimately show ?thesis using inv i tp' by (auto simp: workers_inv_def nth_list_update ac_simps)
qed

lemma workers_frame:
  "workers_inv k acts tp \<Longrightarrow> tp_threads tp' = tp_threads tp \<Longrightarrow> dequeued a = [] \<Longrightarrow> handled a = [] \<Longrightarrow> workers_inv k (acts @ [a]) tp'"
  by (simp add: workers_inv_def)

lemma workers_step:
  assumes "workers_inv k acts tp" "cq_ok (mq_q (tp_q tp))" "pool_step be (Running tp w) a (Running tp' w')"
  shows "workers_inv k (acts @ [a]) tp'"
  using assms(3)
proof (cases rule: pool_step.cases)
  case (take_msg i x)
  then show ?thesis using workers_take [OF assms(1)] dequeue_next_msg_spec(3) [OF _ assms(2)] by auto
next
  case (handle i x)
  then show ?thesis using workers_handle [OF assms(1)] worker_loop_RunningE(1) [OF handle(2) [symmetric]] by simp
next
  case (stop i)
  then show ?thesis using workers_frame [OF assms(1)] post_async_msg_spec(3) [OF _ assms(2)]
    by (auto simp: dtor_post_def map_r_Inr_iff split: if_splits)
qed (use workers_frame [OF assms(1)] post_async_msg_spec(3) [OF _ assms(2)] in \<open>auto simp: post_log_def post_flush_def\<close>)

definition pool_inv :: "nat \<Rightarrow> nat \<Rightarrow> pool_act list \<Rightarrow> thread_pool \<Rightarrow> bool" where
  "pool_inv n k acts tp \<longleftrightarrow> traffic_inv n acts tp \<and> workers_inv k acts tp"

lemma pool_step_from_Aborted: "\<not> pool_step be (Aborted w) a s"
  by (auto elim: pool_step.cases)

lemma pool_inv_run:
  assumes "pool_run be s acts s'" "s = Running tp w" "pool_inv n k [] tp"
  shows "s' = Running tp' w' \<Longrightarrow> pool_inv n k acts tp'"
  using assms
proof (induction arbitrary: tp' w' rule: pool_run.induct)
  case (pool_snoc s acts s' a s'')
  then obtain tp1 w1 where s': "s' = Running tp1 w1" by (cases s') (auto simp: pool_step_from_Aborted)
  then have "pool_inv n k acts tp1" using pool_snoc by blast
  moreover have "pool_step be (Running tp1 w1) a (Running tp' w')" using pool_snoc.hyps(2) pool_snoc.prems(1) s' by simp
  ultimately show ?case unfolding pool_inv_def by (auto intro: traffic_step workers_step traffic_ok)
qed simp

lemma pool_inv_new: "thread_pool_new n k = Some tp \<Longrightarrow> n < 2 ^ 64 - 1 \<Longrightarrow> pool_inv n k [] tp"
  using cq_new_ok [of n async_msg_default]
  by (auto simp: thread_pool_new_def pool_inv_def traffic_inv_def workers_inv_def dtor_posts_def mpmc_new_def split: if_splits)

text \<open>With one worker the back end sees the messages in the order in which it took them.\<close>

lemma single_worker_order:
  assumes "workers_inv 1 acts tp"
  shows "map snd (all_dequeued acts) = map snd (all_handled acts) @ held (tp_threads tp ! 0)"
proof -
  have "of_worker 0 xs = map snd xs" if "\<forall>p \<in> set xs. fst p < 1" for xs
    using that by (auto simp: of_worker_def filter_id_conv)
  moreover have "\<forall>p \<in> set (all_dequeued acts). fst p < 1" "\<forall>p \<in> set (all_handled acts). fst p < 1"
    "of_worker 0 (all_dequeued acts) = of_worker 0 (all_handled acts) @ held (tp_threads tp ! 0)"
    using assms unfolding workers_inv_def by (blast, blast, simp)
  ultimately show ?thesis by metis
qed

subsection \<open>The destructor\<close>

lemma worker_stop_terminate [simp]: "worker_stop terminate_msg"
  by (simp add: worker_stop_def terminate_msg_def async_msg_plain_def)

lemma posted_not_stop: "x \<in> set (all_posted acts) \<Longrightarrow> \<not> worker_stop x"
proof (induction acts)
  case (Cons a acts)
  then show ?case by (cases a) (auto simp: worker_stop_def async_msg_of_def async_msg_plain_def)
qed simp

lemma length_filter_mset:
  "mset xs = mset ys + mset zs \<Longrightarrow> length (filter P xs) = length (filter P ys) + length (filter P zs)"
  by (metis filter_append length_append mset_append mset_filter size_mset)

text \<open>Every termination posted is still queued, held by a worker, or has ended one.\<close>

lemma stops_balance:
  assumes "pool_inv n k acts tp"
  shows "dtor_posts tp = length (filter worker_stop (pool_items tp)) +
      length (filter worker_stop (concat (map held (tp_threads tp)))) + length (filter (\<lambda>t. t = Finished) (tp_threads tp))"
proof -
  obtain ms where ms: "map snd (all_dequeued acts) @ pool_items tp = ms @ replicate (dtor_posts tp) terminate_msg" "subseq ms (all_posted acts)"
    using assms by (auto simp: pool_inv_def traffic_inv_def)
  have "filter worker_stop ms = []"
    using posted_not_stop [of _ acts] list_emb_set [OF ms(2)] by (metis filter_False)
  then have "dtor_posts tp = length (filter worker_stop (map snd (all_dequeued acts))) + length (filter worker_stop (pool_items tp))"
    using arg_cong [OF ms(1), of "\<lambda>xs. length (filter worker_stop xs)"] by simp
  moreover have "length (filter worker_stop (map snd (all_dequeued acts))) =
      length (filter worker_stop (map snd (all_handled acts))) + length (filter worker_stop (concat (map held (tp_threads tp))))"
    using assms unfolding pool_inv_def workers_inv_def by (intro length_filter_mset) blast
  moreover have "length (filter worker_stop (map snd (all_handled acts))) = length (filter (\<lambda>t. t = Finished) (tp_threads tp))"
    using assms unfolding pool_inv_def workers_inv_def by blast
  ultimately show ?thesis by simp
qed

text \<open>What is left to do once the destructor has begun: posts, messages in the queue and messages in hand.\<close>

definition pool_work :: "thread_pool \<Rightarrow> nat" where
  "pool_work tp = 3 * (length (tp_threads tp) - dtor_posts tp) + 2 * length (pool_items tp) +
     length (filter (\<lambda>t. held t \<noteq> []) (tp_threads tp))"

lemma pool_work_stop:
  assumes "traffic_inv n acts tp" "tp_dtor tp = Some i" "dtor_post i tp = Some (Inr tp')"
  shows "pool_work tp' < pool_work tp"
proof -
  obtain tp1 where "post_async_msg terminate_msg Block tp = Some (Inr tp1)" "i < length (tp_threads tp)"
      "tp' = tp1\<lparr>tp_dtor := Some (i + 1)\<rparr>"
    using assms(3) by (auto simp: dtor_post_def map_r_Inr_iff split: if_splits)
  then show ?thesis
    using post_async_msg_spec(3,6) [OF _ traffic_ok [OF assms(1)]] assms(2) by (auto simp: pool_work_def dtor_posts_def)
qed

lemma pool_work_decreases:
  assumes inv: "pool_inv n k acts tp" and "tp_dtor tp \<noteq> None" and "pool_step be (Running tp w) a (Running tp' w')"
  shows "pool_work tp' < pool_work tp"
proof -
  have ok: "cq_ok (mq_q (tp_q tp))" using inv traffic_ok by (auto simp: pool_inv_def)
  show ?thesis
    using assms(3)
  proof (cases rule: pool_step.cases)
    case (take_msg i x)
    have "length (filter (\<lambda>t. held t \<noteq> []) ((tp_threads tp)[i := Holding x])) = Suc (length (filter (\<lambda>t. held t \<noteq> []) (tp_threads tp)))"
      using length_filter_update [of i "tp_threads tp" "\<lambda>t. held t \<noteq> []" "Holding x"] take_msg by simp
    then show ?thesis
      using dequeue_next_msg_spec [OF take_msg(5)] ok by (simp add: pool_work_def dtor_posts_def)
  next
    case (handle i x)
    let ?v = "if worker_stop x then Finished else Dequeuing"
    have "Suc (length (filter (\<lambda>t. held t \<noteq> []) ((tp_threads tp)[i := ?v]))) = length (filter (\<lambda>t. held t \<noteq> []) (tp_threads tp))"
      using length_filter_update [of i "tp_threads tp" "\<lambda>t. held t \<noteq> []" ?v] handle by simp
    then show ?thesis
      using worker_loop_RunningE(1) [OF handle(2) [symmetric]] by (simp add: pool_work_def dtor_posts_def)
  next
    case (stop i)
    then show ?thesis using pool_work_stop inv by (auto simp: pool_inv_def)
  qed (use assms(2) in auto)
qed

text \<open>A thread that has not left either holds a message, or can take one when there is one.\<close>

lemma worker_can_step:
  assumes "i < length (tp_threads tp)" "tp_threads tp ! i \<noteq> Finished" "cq_ok (mq_q (tp_q tp))"
    and "pool_items tp = [] \<Longrightarrow> tp_threads tp ! i \<noteq> Dequeuing"
  shows "\<exists>a s. pool_step be (Running tp w) a s"
proof (cases "tp_threads tp ! i")
  case Dequeuing
  then obtain x m' where "dequeue (tp_q tp) = Some (Inr (x, m'))" using assms(3,4) dequeue_enabled by blast
  then show ?thesis using take_msg [OF assms(1) Dequeuing] by (force simp: dequeue_next_msg_def)
next
  case (Holding x)
  from handle [OF assms(1) this] show ?thesis by (intro exI)
qed (use assms(2) in simp)

lemma finished_less:
  assumes "length (filter (\<lambda>t. t = Finished) ts) < length ts"
  shows "\<exists>i < length ts. ts ! i \<noteq> Finished"
proof (rule ccontr)
  assume "\<not> (\<exists>i < length ts. ts ! i \<noteq> Finished)"
  then have "filter (\<lambda>t. t = Finished) ts = ts" by (auto simp: filter_id_conv in_set_conv_nth)
  with assms show False by simp
qed

lemma dtor_progress:
  assumes inv: "pool_inv n k acts tp" and n: "0 < n" and c: "tp_dtor tp = Some c" and nj: "\<not> dtor_joined tp"
  shows "\<exists>a s. pool_step be (Running tp w) a s"
proof -
  have ok: "cq_ok (mq_q (tp_q tp))" and cap: "cq_capacity (mq_q (tp_q tp)) = n" and le: "c \<le> length (tp_threads tp)"
    using inv c by (simp_all add: pool_inv_def traffic_inv_def dtor_posts_def)
  note bal = stops_balance [OF inv, unfolded dtor_posts_def c option.case]
  let ?fin = "length (filter (\<lambda>t. t = Finished) (tp_threads tp))"
  show ?thesis
  proof (cases "c < length (tp_threads tp)")
    case True
    show ?thesis
    proof (cases "pool_items tp = []")
      case empty: True
      obtain m' where "enqueue terminate_msg (tp_q tp) = Some (Inr m')" using enqueue_enabled [OF ok] empty cap n by auto
      then have "dtor_post c tp = Some (Inr (tp\<lparr>tp_q := m', tp_dtor := Some (c + 1)\<rparr>))"
        using True by (simp add: dtor_post_def post_async_msg_def)
      from stop [OF c this] show ?thesis by (intro exI)
    next
      case False
      have "?fin < length (tp_threads tp)" using bal True by simp
      then obtain i where "i < length (tp_threads tp)" "tp_threads tp ! i \<noteq> Finished" using finished_less by blast
      then show ?thesis using False by (intro worker_can_step [OF _ _ ok]) simp_all
    qed
  next
    case False
    then have all: "c = length (tp_threads tp)" using le by simp
    obtain t where "t \<in> set (tp_threads tp)" "t \<noteq> Finished" using nj c all by (auto simp: dtor_joined_def list_all_iff)
    then have fin: "?fin < length (tp_threads tp)" by (rule length_filter_less)
    show ?thesis
    proof (cases "pool_items tp = []")
      case True
      then have "concat (map held (tp_threads tp)) \<noteq> []" using bal fin all by (metis add_0 filter.simps(1) list.size(3) less_irrefl)
      then obtain t where "t \<in> set (tp_threads tp)" "held t \<noteq> []" by auto
      then obtain i x where i: "i < length (tp_threads tp)" "tp_threads tp ! i = Holding x"
        by (metis held.elims in_set_conv_nth)
      show ?thesis by (rule worker_can_step [OF i(1) _ ok]) (simp_all add: i(2))
    next
      case False
      moreover obtain i where "i < length (tp_threads tp)" "tp_threads tp ! i \<noteq> Finished" using fin finished_less by blast
      ultimately show ?thesis by (intro worker_can_step [OF _ _ ok]) simp_all
    qed
  qed
qed

text \<open>The last message is a termination, so a queue without terminations is empty once the destructor has posted them all.\<close>

lemma joined_drained:
  assumes inv: "pool_inv n k acts tp" and j: "dtor_joined tp" and k: "0 < k"
  shows "pool_items tp = []" "mset (map snd (all_handled acts)) = mset (map snd (all_dequeued acts))"
    "subseq (log_msgs (all_dequeued acts)) (all_posted acts)"
    "list_all blocking acts \<longrightarrow> log_msgs (all_dequeued acts) = all_posted acts"
    "of_worker i (all_handled acts) = of_worker i (all_dequeued acts)"
proof -
  have len: "length (tp_threads tp) = k" using inv by (simp add: pool_inv_def workers_inv_def)
  have fin: "filter (\<lambda>t. t = Finished) (tp_threads tp) = tp_threads tp" and c: "dtor_posts tp = k"
    using j len by (simp_all add: dtor_joined_def dtor_posts_def filter_id_conv list_all_iff)
  have held: "concat (map held (tp_threads tp)) = []" "\<And>i. i < k \<Longrightarrow> held (tp_threads tp ! i) = []"
    using j len by (auto simp: dtor_joined_def list_all_iff) (metis held.simps(3) nth_mem)
  then show "mset (map snd (all_handled acts)) = mset (map snd (all_dequeued acts))"
    using inv by (simp add: pool_inv_def workers_inv_def)
  have none: "filter worker_stop (pool_items tp) = []" using stops_balance [OF inv] held(1) fin c len by simp
  obtain ms where ms: "map snd (all_dequeued acts) @ pool_items tp = ms @ replicate k terminate_msg" "subseq ms (all_posted acts)"
      "list_all blocking acts \<longrightarrow> ms = all_posted acts"
    using inv c by (auto simp: pool_inv_def traffic_inv_def)
  have "pool_items tp \<noteq> [] \<Longrightarrow> last (pool_items tp) = terminate_msg"
    using ms(1) k by (metis last_appendR last_replicate less_irrefl replicate_empty)
  then show items: "pool_items tp = []"
    using none last_in_set [of "pool_items tp"] worker_stop_terminate by (metis filter_empty_conv)
  have "filter (\<lambda>x. \<not> worker_stop x) ms = ms"
    using posted_not_stop [of _ acts] list_emb_set [OF ms(2)] by (metis filter_True)
  then have "log_msgs (all_dequeued acts) = ms" using ms(1) items by (simp add: log_msgs_def)
  then show "subseq (log_msgs (all_dequeued acts)) (all_posted acts)"
    "list_all blocking acts \<longrightarrow> log_msgs (all_dequeued acts) = all_posted acts" using ms(2,3) by simp_all
  have less: "\<forall>p \<in> set (all_dequeued acts). fst p < k" "\<forall>p \<in> set (all_handled acts). fst p < k"
    and own: "i < k \<Longrightarrow> of_worker i (all_dequeued acts) = of_worker i (all_handled acts) @ held (tp_threads tp ! i)"
    using inv unfolding pool_inv_def workers_inv_def by (blast, blast, simp)
  show "of_worker i (all_handled acts) = of_worker i (all_dequeued acts)"
  proof (cases "i < k")
    case False
    then have "filter (\<lambda>p. fst p = i) (all_dequeued acts) = []" "filter (\<lambda>p. fst p = i) (all_handled acts) = []"
      unfolding filter_empty_conv using less by blast+
    then show ?thesis by (simp add: of_worker_def)
  qed (use own held(2) in simp)
qed

text \<open>
  C30. The thread pool drains. Take any interleaving of loggers that post, of workers that take messages and of workers that hand
  them to the back end, whatever the back end does, short of throwing. Once the destructor has begun and as long as it has not joined
  all threads, some thread can take a step, and every step lowers the work left, so the joins return. Then what the
  workers took is a subsequence of what was posted, in the order of the posts, and all of it if every post waits for room; every message taken
  was handed to the back end exactly once, by each worker in the order in which it took its messages; and with one worker
  the back end was called in the order of the posts.
\<close>

theorem pool_drains:
  assumes "thread_pool_new n k = Some tp" and "0 < n" and "n < 2 ^ 64 - 1"
    and "pool_run be (Running tp w) acts (Running tp' w')" and "tp_dtor tp' \<noteq> None"
  shows "(\<not> dtor_joined tp' \<longrightarrow> (\<exists>a s. pool_step be (Running tp' w') a s))
    \<and> (\<forall>a tp'' w''. pool_step be (Running tp' w') a (Running tp'' w'') \<longrightarrow> pool_work tp'' < pool_work tp')
    \<and> (dtor_joined tp' \<longrightarrow>
         subseq (log_msgs (all_dequeued acts)) (all_posted acts)
       \<and> (list_all blocking acts \<longrightarrow> log_msgs (all_dequeued acts) = all_posted acts)
       \<and> mset (log_msgs (all_handled acts)) = mset (log_msgs (all_dequeued acts))
       \<and> (\<forall>i. of_worker i (all_handled acts) = of_worker i (all_dequeued acts))
       \<and> (k = 1 \<longrightarrow> log_msgs (all_handled acts) = log_msgs (all_dequeued acts)))"
proof -
  have k: "0 < k" using assms(1) by (auto simp: thread_pool_new_def split: if_splits)
  have inv: "pool_inv n k acts tp'" using pool_inv_run [OF assms(4)] pool_inv_new [OF assms(1,3)] by blast
  have ms: "mset (log_msgs (all_handled acts)) = mset (log_msgs (all_dequeued acts))" if "dtor_joined tp'"
    using joined_drained(2) [OF inv that k] by (simp only: log_msgs_def mset_filter)
  have one: "log_msgs (all_handled acts) = log_msgs (all_dequeued acts)" if "dtor_joined tp'" "k = 1"
    using single_worker_order [of acts tp'] inv that
    by (auto simp: pool_inv_def workers_inv_def log_msgs_def dtor_joined_def list_all_length)
  show ?thesis
    using dtor_progress [OF inv assms(2), where be = be and w = w'] pool_work_decreases [OF inv assms(5)] joined_drained(3-5) [OF inv _ k] ms one assms(5) by auto
qed

text \<open>A pool without room is accepted, but a caller that waits for room waits forever.\<close>

lemma zero_capacity_blocks: "thread_pool_new 0 k = Some tp \<Longrightarrow> post_async_msg x Block tp = None"
  by (auto simp: thread_pool_new_def post_async_msg_def enqueue_def mpmc_new_def cq_new_def cq_full_def split: if_splits)

subsection \<open>Concrete pools\<close>

text \<open>A pool with room for one message, as a state, and a back end that records the calls.\<close>

definition small_pool :: "nat \<Rightarrow> nat \<Rightarrow> async_msg list \<Rightarrow> worker_state list \<Rightarrow> nat option \<Rightarrow> thread_pool" where
  "small_pool h t v ws d =
     \<lparr>tp_q = \<lparr>mq_q = \<lparr>cq_max_items = 2, cq_head = h, cq_tail = t, cq_overrun_counter = 0, cq_v = v\<rparr>, mq_discard_counter = 0\<rparr>,
      tp_threads = ws, tp_dtor = d\<rparr>"

definition recorder :: "log_msg list backend" where
  "recorder = \<lparr>be_sink_it = (\<lambda>l m ms. (False, ms @ [m])), be_flush = (\<lambda>l ms. (False, ms))\<rparr>"

lemma small_pool_steps:
  "thread_pool_new 1 1 = Some (small_pool 0 0 [async_msg_default, async_msg_default] [Dequeuing] None)"
  "thread_pool_new 1 2 = Some (small_pool 0 0 [async_msg_default, async_msg_default] [Dequeuing, Dequeuing] None)"
  "pool_step be (Running (small_pool 0 0 [a, b] ws None) w) (Log j m Block)
     (Running (small_pool 0 1 [async_msg_of (Some j) Am_log m, b] ws None) w)"
  "pool_step be (Running (small_pool 1 1 [a, b] ws None) w) (Log j m Block)
     (Running (small_pool 1 0 [a, async_msg_of (Some j) Am_log m] ws None) w)"
  "pool_step be (Running (small_pool h t v ws None) w) Destroy (Running (small_pool h t v ws (Some 0)) w)"
  "i < length ws \<Longrightarrow> pool_step be (Running (small_pool 0 0 [a, b] ws (Some i)) w) Stop
     (Running (small_pool 0 1 [terminate_msg, b] ws (Some (Suc i))) w)"
  "i < length ws \<Longrightarrow> pool_step be (Running (small_pool 1 1 [a, b] ws (Some i)) w) Stop
     (Running (small_pool 1 0 [a, terminate_msg] ws (Some (Suc i))) w)"
  "i < length ws \<Longrightarrow> ws ! i = Dequeuing \<Longrightarrow> pool_step be (Running (small_pool 0 1 [a, b] ws d) w) (Take i a)
     (Running (small_pool 1 1 [a, b] (ws[i := Holding a]) d) w)"
  "i < length ws \<Longrightarrow> ws ! i = Dequeuing \<Longrightarrow> pool_step be (Running (small_pool 1 0 [a, b] ws d) w) (Take i b)
     (Running (small_pool 0 0 [a, b] (ws[i := Holding b]) d) w)"
proof -
  note push = small_pool_def post_log_def dtor_post_def post_async_msg_def enqueue_def mq_push_def cq_push_back_def cq_advance_def
    cq_full_def
  note pop = small_pool_def dequeue_next_msg_def dequeue_def mq_pop_def cq_front_def cq_pop_front_def cq_empty_def at_r_def
  have two: "replicate 2 y = [y, y]" for y :: async_msg by (simp add: numeral_2_eq_2)
  have two_workers: "replicate 2 Dequeuing = [Dequeuing, Dequeuing]" by (simp add: numeral_2_eq_2)
  show "thread_pool_new 1 1 = Some (small_pool 0 0 [async_msg_default, async_msg_default] [Dequeuing] None)"
    "thread_pool_new 1 2 = Some (small_pool 0 0 [async_msg_default, async_msg_default] [Dequeuing, Dequeuing] None)"
    by (simp_all add: thread_pool_new_def small_pool_def mpmc_new_def cq_new_def Let_def two two_workers)
  show "pool_step be (Running (small_pool 0 0 [a, b] ws None) w) (Log j m Block)
     (Running (small_pool 0 1 [async_msg_of (Some j) Am_log m, b] ws None) w)" by (rule log) (simp_all add: push)
  show "pool_step be (Running (small_pool 1 1 [a, b] ws None) w) (Log j m Block)
     (Running (small_pool 1 0 [a, async_msg_of (Some j) Am_log m] ws None) w)" by (rule log) (simp_all add: push)
  show "pool_step be (Running (small_pool h t v ws None) w) Destroy (Running (small_pool h t v ws (Some 0)) w)"
    using destroy [of "small_pool h t v ws None"] by (simp add: small_pool_def)
  show "pool_step be (Running (small_pool 0 0 [a, b] ws (Some i)) w) Stop
     (Running (small_pool 0 1 [terminate_msg, b] ws (Some (Suc i))) w)" if "i < length ws"
    by (rule stop [where i = i]) (use that in \<open>simp_all add: push\<close>)
  show "pool_step be (Running (small_pool 1 1 [a, b] ws (Some i)) w) Stop
     (Running (small_pool 1 0 [a, terminate_msg] ws (Some (Suc i))) w)" if "i < length ws"
    by (rule stop [where i = i]) (use that in \<open>simp_all add: push\<close>)
  show "pool_step be (Running (small_pool 0 1 [a, b] ws d) w) (Take i a)
     (Running (small_pool 1 1 [a, b] (ws[i := Holding a]) d) w)" if "i < length ws" "ws ! i = Dequeuing"
    by (rule take_msg) (use that in \<open>simp_all add: pop\<close>)
  show "pool_step be (Running (small_pool 1 0 [a, b] ws d) w) (Take i b)
     (Running (small_pool 0 0 [a, b] (ws[i := Holding b]) d) w)" if "i < length ws" "ws ! i = Dequeuing"
    by (rule take_msg) (use that in \<open>simp_all add: pop\<close>)
qed

lemma small_pool_handle:
  "i < length ws \<Longrightarrow> ws ! i = Holding x \<Longrightarrow> process_msg be x w = (Some go_on, w') \<Longrightarrow>
   pool_step be (Running (small_pool h t v ws d) w) (Handle i x)
     (Running (small_pool h t v (ws[i := if go_on then Dequeuing else Finished]) d) w')"
  using handle [of i "small_pool h t v ws d" x be w] by (simp add: small_pool_def worker_loop_def)

lemma process_terminate: "process_msg be terminate_msg w = (Some False, w)"
  by (simp add: process_msg_def terminate_msg_def async_msg_plain_def)

lemma pool_run_Cons: "pool_step be s a s' \<Longrightarrow> pool_run be s' acts s'' \<Longrightarrow> pool_run be s (a # acts) s''"
proof (rotate_tac, induction rule: pool_run.induct)
  case (pool_refl s')
  then show ?case using pool_snoc [OF pool_run.pool_refl, of be s a s'] by simp
next
  case (pool_snoc s1 acts s2 b s3)
  then show ?case using pool_run.pool_snoc [of be s "a # acts" s2 b s3] by simp
qed

text \<open>One worker logs a message and is stopped.\<close>

definition one_worker_acts :: "nat \<Rightarrow> log_msg \<Rightarrow> pool_act list" where
  "one_worker_acts j m =
     (let x = async_msg_of (Some j) Am_log m
      in [Log j m Block, Take 0 x, Handle 0 x, Destroy, Stop, Take 0 terminate_msg, Handle 0 terminate_msg])"

lemma one_worker_run:
  assumes "be_sink_it be (Some j) m w = (False, w')"
  shows "pool_run be (Running (small_pool 0 0 [async_msg_default, async_msg_default] [Dequeuing] None) w) (one_worker_acts j m)
    (Running (small_pool 0 0 [async_msg_of (Some j) Am_log m, terminate_msg] [Finished] (Some 1)) w')"
proof -
  let ?x = "async_msg_of (Some j) Am_log m"
  have p: "process_msg be ?x w = (Some True, w')"
    using assms by (simp add: process_msg_def async_msg_of_def log_msg_buffer_keeps)
  let ?s = "\<lambda>h t v ws d w. Running (small_pool h t v ws d) w"
  let ?d = async_msg_default
  have "pool_step be (?s 0 0 [?d, ?d] [Dequeuing] None w) (Log j m Block) (?s 0 1 [?x, ?d] [Dequeuing] None w)"
    by (rule small_pool_steps)
  moreover have "pool_step be (?s 0 1 [?x, ?d] [Dequeuing] None w) (Take 0 ?x) (?s 1 1 [?x, ?d] [Holding ?x] None w)"
    using small_pool_steps(8) [of 0 "[Dequeuing]"] by simp
  moreover have "pool_step be (?s 1 1 [?x, ?d] [Holding ?x] None w) (Handle 0 ?x) (?s 1 1 [?x, ?d] [Dequeuing] None w')"
    using small_pool_handle [of 0 "[Holding ?x]", OF _ _ p] by simp
  moreover have "pool_step be (?s 1 1 [?x, ?d] [Dequeuing] None w') Destroy (?s 1 1 [?x, ?d] [Dequeuing] (Some 0) w')"
    by (rule small_pool_steps)
  moreover have "pool_step be (?s 1 1 [?x, ?d] [Dequeuing] (Some 0) w') Stop (?s 1 0 [?x, terminate_msg] [Dequeuing] (Some 1) w')"
    using small_pool_steps(7) [of 0 "[Dequeuing]"] by simp
  moreover have "pool_step be (?s 1 0 [?x, terminate_msg] [Dequeuing] (Some 1) w') (Take 0 terminate_msg)
      (?s 0 0 [?x, terminate_msg] [Holding terminate_msg] (Some 1) w')"
    using small_pool_steps(9) [of 0 "[Dequeuing]"] by simp
  moreover have "pool_step be (?s 0 0 [?x, terminate_msg] [Holding terminate_msg] (Some 1) w') (Handle 0 terminate_msg)
      (?s 0 0 [?x, terminate_msg] [Finished] (Some 1) w')"
    using small_pool_handle [of 0 "[Holding terminate_msg]", OF _ _ process_terminate] by simp
  ultimately show ?thesis
    unfolding one_worker_acts_def Let_def by - ((rule pool_run_Cons, assumption)+, rule pool_refl)
qed

text \<open>Two workers: the second overtakes the first between taking a message and handing it to the back end.\<close>

definition overtaking_acts :: "log_msg \<Rightarrow> log_msg \<Rightarrow> pool_act list" where
  "overtaking_acts m m' =
     (let x = async_msg_of (Some 0) Am_log m; y = async_msg_of (Some 0) Am_log m'; t = terminate_msg
      in [Log 0 m Block, Take 0 x, Log 0 m' Block, Take 1 y, Handle 1 y, Handle 0 x,
          Destroy, Stop, Take 0 t, Handle 0 t, Stop, Take 1 t, Handle 1 t])"

lemma overtaking_run:
  "pool_run recorder (Running (small_pool 0 0 [async_msg_default, async_msg_default] [Dequeuing, Dequeuing] None) [])
     (overtaking_acts m m') (Running (small_pool 0 0 [terminate_msg, terminate_msg] [Finished, Finished] (Some 2)) [m', m])"
proof -
  let ?x = "async_msg_of (Some 0) Am_log m" and ?y = "async_msg_of (Some 0) Am_log m'" and ?t = terminate_msg
  have p: "process_msg recorder ?x w = (Some True, w @ [m])" "process_msg recorder ?y w = (Some True, w @ [m'])" for w
    by (simp_all add: process_msg_def async_msg_of_def log_msg_buffer_keeps recorder_def)
  let ?s = "\<lambda>h t v ws d w. Running (small_pool h t v ws d) w"
  let ?d = async_msg_default and ?D = Dequeuing and ?F = Finished
  have "pool_step recorder (?s 0 0 [?d, ?d] [?D, ?D] None []) (Log 0 m Block) (?s 0 1 [?x, ?d] [?D, ?D] None [])"
    by (rule small_pool_steps)
  moreover have "pool_step recorder (?s 0 1 [?x, ?d] [?D, ?D] None []) (Take 0 ?x) (?s 1 1 [?x, ?d] [Holding ?x, ?D] None [])"
    using small_pool_steps(8) [of 0 "[?D, ?D]"] by simp
  moreover have "pool_step recorder (?s 1 1 [?x, ?d] [Holding ?x, ?D] None []) (Log 0 m' Block) (?s 1 0 [?x, ?y] [Holding ?x, ?D] None [])"
    by (rule small_pool_steps)
  moreover have "pool_step recorder (?s 1 0 [?x, ?y] [Holding ?x, ?D] None []) (Take 1 ?y) (?s 0 0 [?x, ?y] [Holding ?x, Holding ?y] None [])"
    using small_pool_steps(9) [of 1 "[Holding ?x, ?D]"] by simp
  moreover have "pool_step recorder (?s 0 0 [?x, ?y] [Holding ?x, Holding ?y] None []) (Handle 1 ?y) (?s 0 0 [?x, ?y] [Holding ?x, ?D] None [m'])"
    using small_pool_handle [of 1 "[Holding ?x, Holding ?y]" ?y, OF _ _ p(2) [of "[]"]] by simp
  moreover have "pool_step recorder (?s 0 0 [?x, ?y] [Holding ?x, ?D] None [m']) (Handle 0 ?x) (?s 0 0 [?x, ?y] [?D, ?D] None [m', m])"
    using small_pool_handle [of 0 "[Holding ?x, ?D]" ?x, OF _ _ p(1) [of "[m']"]] by simp
  moreover have "pool_step recorder (?s 0 0 [?x, ?y] [?D, ?D] None [m', m]) Destroy (?s 0 0 [?x, ?y] [?D, ?D] (Some 0) [m', m])"
    by (rule small_pool_steps)
  moreover have "pool_step recorder (?s 0 0 [?x, ?y] [?D, ?D] (Some 0) [m', m]) Stop (?s 0 1 [?t, ?y] [?D, ?D] (Some 1) [m', m])"
    using small_pool_steps(6) [of 0 "[?D, ?D]"] by simp
  moreover have "pool_step recorder (?s 0 1 [?t, ?y] [?D, ?D] (Some 1) [m', m]) (Take 0 ?t) (?s 1 1 [?t, ?y] [Holding ?t, ?D] (Some 1) [m', m])"
    using small_pool_steps(8) [of 0 "[?D, ?D]"] by simp
  moreover have "pool_step recorder (?s 1 1 [?t, ?y] [Holding ?t, ?D] (Some 1) [m', m]) (Handle 0 ?t) (?s 1 1 [?t, ?y] [?F, ?D] (Some 1) [m', m])"
    using small_pool_handle [of 0 "[Holding ?t, ?D]", OF _ _ process_terminate] by simp
  moreover have "pool_step recorder (?s 1 1 [?t, ?y] [?F, ?D] (Some 1) [m', m]) Stop (?s 1 0 [?t, ?t] [?F, ?D] (Some 2) [m', m])"
    using small_pool_steps(7) [of 1 "[?F, ?D]"] by (simp add: numeral_2_eq_2)
  moreover have "pool_step recorder (?s 1 0 [?t, ?t] [?F, ?D] (Some 2) [m', m]) (Take 1 ?t) (?s 0 0 [?t, ?t] [?F, Holding ?t] (Some 2) [m', m])"
    using small_pool_steps(9) [of 1 "[?F, ?D]"] by simp
  moreover have "pool_step recorder (?s 0 0 [?t, ?t] [?F, Holding ?t] (Some 2) [m', m]) (Handle 1 ?t) (?s 0 0 [?t, ?t] [?F, ?F] (Some 2) [m', m])"
    using small_pool_handle [of 1 "[?F, Holding ?t]", OF _ _ process_terminate] by simp
  ultimately show ?thesis
    unfolding overtaking_acts_def Let_def by - ((rule pool_run_Cons, assumption)+, rule pool_refl)
qed

theorem pool_drains_witness:
  "let m = log_msg_default\<lparr>payload := ''a''\<rparr>; m' = log_msg_default\<lparr>payload := ''b''\<rparr>; acts = overtaking_acts m m'
   in log_msgs (all_handled acts) = [async_msg_of (Some 0) Am_log m', async_msg_of (Some 0) Am_log m] \<and>
      log_msgs (all_dequeued acts) = all_posted acts \<and> mset (log_msgs (all_handled acts)) = mset (log_msgs (all_dequeued acts)) \<and>
      of_worker 1 (all_handled acts) = of_worker 1 (all_dequeued acts)"
proof -
  let ?m = "log_msg_default\<lparr>payload := ''a''\<rparr>" and ?m' = "log_msg_default\<lparr>payload := ''b''\<rparr>"
  let ?stopped = "small_pool 0 0 [terminate_msg, terminate_msg] [Finished, Finished] (Some 2)"
  have joined: "dtor_joined ?stopped" "tp_dtor ?stopped \<noteq> None" by (simp_all add: dtor_joined_def small_pool_def)
  have block: "list_all blocking (overtaking_acts ?m ?m')" by (simp add: overtaking_acts_def Let_def)
  have "log_msgs (all_handled (overtaking_acts ?m ?m')) = [async_msg_of (Some 0) Am_log ?m', async_msg_of (Some 0) Am_log ?m]"
    by (simp add: overtaking_acts_def Let_def log_msgs_def) (simp add: worker_stop_def async_msg_of_def)
  then show ?thesis
    using pool_drains [OF small_pool_steps(2) _ _ overtaking_run [of ?m ?m'] joined(2)] joined(1) block by (simp add: Let_def)
qed

end
