(* ===== verification/Log_Logger.thy ===== *)
theory Log_Logger
  imports Log_Pool
begin

section \<open>Logging: loggers, backtrace and the ring buffer sink (spdlog)\<close>

text \<open>
  \<open>logger\<close> of \<open>logger.h\<close> and \<open>logger-inl.h\<close>, \<open>backtracer\<close> of \<open>details/backtracer-inl.h\<close>, the level filter of \<open>sinks/sink-inl.h\<close>
  and \<open>ringbuffer_sink\<close>. Loggers share their sinks, so sinks live in a store and a logger holds their numbers. A
  sink is an object of type \<open>'k\<close> with the virtual operations of \<open>sink_ops\<close>, each of which may throw; a
  logger catches a standard exception, reports it and goes on, and reports and rethrows any other. The
  default error handler writes at most one line a second to the standard error stream; an error handler of the application
  may throw itself, and then the exception leaves the logger.
\<close>

subsection \<open>The backtracer\<close>

record backtracer =
  bt_enabled :: bool
  bt_messages :: "log_msg_buffer circular_q"

definition backtracer_new :: backtracer where
  "backtracer_new = \<lparr>bt_enabled = False, bt_messages = cq_disabled\<rparr>"

definition log_msg_buffer_default :: log_msg_buffer where
  "log_msg_buffer_default = \<lparr>lmb_msg = log_msg_default, lmb_buffer = []\<rparr>"

text \<open>Moving a backtracer takes its messages; its flag stays with the old object.\<close>

definition bt_copy :: "backtracer \<Rightarrow> backtracer" where
  "bt_copy other = \<lparr>bt_enabled = bt_enabled other, bt_messages = bt_messages other\<rparr>"

definition bt_move :: "backtracer \<Rightarrow> backtracer \<times> backtracer" where
  "bt_move other =
     (let (q, rest) = cq_copy_moveable (bt_messages other)
      in (\<lparr>bt_enabled = bt_enabled other, bt_messages = q\<rparr>, other\<lparr>bt_messages := rest\<rparr>))"

definition bt_assign :: "backtracer \<Rightarrow> backtracer \<Rightarrow> backtracer" where
  "bt_assign this other =
     this\<lparr>bt_enabled := bt_enabled other, bt_messages := fst (cq_copy_moveable (bt_messages other))\<rparr>"

definition bt_enable :: "nat \<Rightarrow> backtracer \<Rightarrow> backtracer" where
  "bt_enable n t = t\<lparr>bt_enabled := True, bt_messages := cq_new log_msg_buffer_default n\<rparr>"

definition bt_disable :: "backtracer \<Rightarrow> backtracer" where
  "bt_disable t = t\<lparr>bt_enabled := False\<rparr>"

definition bt_push_back :: "log_msg \<Rightarrow> backtracer \<Rightarrow> backtracer res" where
  "bt_push_back msg t = map_r (\<lambda>q. t\<lparr>bt_messages := q\<rparr>) (cq_push_back (log_msg_buffer_of msg) (bt_messages t))"

definition bt_empty :: "backtracer \<Rightarrow> bool" where
  "bt_empty t \<longleftrightarrow> cq_empty (bt_messages t)"

text \<open>
  The loop that pops every message and applies a function to it. The function may throw, which ends the loop (the flag of its
  result); \<open>None\<close> is a loop that does not end.
\<close>

partial_function (option) foreach_pop_loop ::
  "(log_msg \<Rightarrow> 's \<Rightarrow> bool \<times> 's) \<Rightarrow> log_msg_buffer circular_q \<Rightarrow> 's \<Rightarrow> (bool \<times> log_msg_buffer circular_q \<times> 's) res option" where
  "foreach_pop_loop f q s =
     (if cq_empty q then Some (Inr (False, q, s))
      else case cq_front q of
             Inl e \<Rightarrow> Some (Inl e)
           | Inr front_msg \<Rightarrow>
               let (thrown, s') = f (lmb_msg front_msg) s
               in if thrown then Some (Inr (True, q, s'))
                  else case cq_pop_front q of
                         Inl e \<Rightarrow> Some (Inl e)
                       | Inr q' \<Rightarrow> foreach_pop_loop f q' s')"

subsection \<open>The ring buffer sink\<close>

text \<open>The numbers of items to copy out: all, or the last \<open>bound\<close>.\<close>

definition rb_indices :: "nat \<Rightarrow> log_msg_buffer circular_q \<Rightarrow> nat list" where
  "rb_indices bound q =
     (let items_available = cq_size q;
          n_items = (if 0 < bound then min bound items_available else items_available)
      in [items_available - n_items..<items_available])"

definition last_raw :: "nat \<Rightarrow> log_msg_buffer circular_q \<Rightarrow> log_msg_buffer list res" where
  "last_raw bound q =
     fold_r (\<lambda>i ret. map_r (\<lambda>x. ret @ [x]) (cq_at q i)) (rb_indices bound q) []"

definition rb_sink_it :: "log_msg \<Rightarrow> log_msg_buffer circular_q \<Rightarrow> log_msg_buffer circular_q res" where
  "rb_sink_it msg q = cq_push_back (log_msg_buffer_of msg) q"

subsection \<open>Sinks\<close>

datatype exn = Std_exception string | Unknown_exception

record ('k, 'f) sink_ops =
  sink_log :: "log_msg \<Rightarrow> 'k \<Rightarrow> exn option \<times> 'k"
  sink_flush :: "'k \<Rightarrow> exn option \<times> 'k"
  sink_set_formatter :: "'f \<Rightarrow> 'k \<Rightarrow> 'k"
  formatter_clone :: "'f \<Rightarrow> 'f"

record 'k sink =
  sink_level :: level_enum
  sink_impl :: 'k

definition sink_should_log :: "level_enum \<Rightarrow> 'k sink \<Rightarrow> bool" where
  "sink_should_log l s \<longleftrightarrow> level_code (sink_level s) \<le> level_code l"

definition sink_set_level :: "level_enum \<Rightarrow> 'k sink \<Rightarrow> 'k sink" where
  "sink_set_level l s = s\<lparr>sink_level := l\<rparr>"

subsection \<open>Loggers\<close>

text \<open>An error handler of the application is known by a number; what it is called with is recorded.\<close>

record logger =
  lg_name :: string
  lg_sinks :: "nat list"
  lg_level :: level_enum
  lg_flush_level :: level_enum
  lg_err_handler :: "nat option"
  lg_tracer :: backtracer

record 'k log_world =
  w_sinks :: "nat \<Rightarrow> 'k sink"
  w_last_report_time :: int
  w_err_counter :: nat
  w_stderr :: string
  w_handler_calls :: "(nat \<times> string) list"

text \<open>
  The clock, the thread, the date text of the default error handler, and which handlers of the application throw on which texts.
\<close>

record call_env =
  ce_now :: int
  ce_thread :: nat
  ce_date :: "int \<Rightarrow> string"
  ce_handler_throws :: "nat \<Rightarrow> string \<Rightarrow> bool"

definition logger_new :: "string \<Rightarrow> nat list \<Rightarrow> logger" where
  "logger_new name sinks =
     \<lparr>lg_name = name, lg_sinks = sinks, lg_level = Lv_info, lg_flush_level = Lv_off, lg_err_handler = None,
      lg_tracer = backtracer_new\<rparr>"

definition logger_copy :: "logger \<Rightarrow> logger" where
  "logger_copy other =
     \<lparr>lg_name = lg_name other, lg_sinks = lg_sinks other, lg_level = lg_level other,
      lg_flush_level = lg_flush_level other, lg_err_handler = lg_err_handler other, lg_tracer = bt_copy (lg_tracer other)\<rparr>"

definition logger_swap :: "logger \<Rightarrow> logger \<Rightarrow> logger \<times> logger" where
  "logger_swap this other =
     (this\<lparr>lg_name := lg_name other, lg_sinks := lg_sinks other, lg_level := lg_level other,
           lg_flush_level := lg_flush_level other, lg_err_handler := lg_err_handler other, lg_tracer := lg_tracer other\<rparr>,
      other\<lparr>lg_name := lg_name this, lg_sinks := lg_sinks this, lg_level := lg_level this,
            lg_flush_level := lg_flush_level this, lg_err_handler := lg_err_handler this, lg_tracer := lg_tracer this\<rparr>)"

definition lg_should_log :: "level_enum \<Rightarrow> logger \<Rightarrow> bool" where
  "lg_should_log l lg \<longleftrightarrow> level_code (lg_level lg) \<le> level_code l"

definition lg_set_level :: "level_enum \<Rightarrow> logger \<Rightarrow> logger" where
  "lg_set_level l lg = lg\<lparr>lg_level := l\<rparr>"

definition lg_flush_on :: "level_enum \<Rightarrow> logger \<Rightarrow> logger" where
  "lg_flush_on l lg = lg\<lparr>lg_flush_level := l\<rparr>"

definition lg_enable_backtrace :: "nat \<Rightarrow> logger \<Rightarrow> logger" where
  "lg_enable_backtrace n lg = lg\<lparr>lg_tracer := bt_enable n (lg_tracer lg)\<rparr>"

definition lg_disable_backtrace :: "logger \<Rightarrow> logger" where
  "lg_disable_backtrace lg = lg\<lparr>lg_tracer := bt_disable (lg_tracer lg)\<rparr>"

definition lg_set_error_handler :: "nat option \<Rightarrow> logger \<Rightarrow> logger" where
  "lg_set_error_handler h lg = lg\<lparr>lg_err_handler := h\<rparr>"

definition lg_clone :: "string \<Rightarrow> logger \<Rightarrow> logger" where
  "lg_clone name lg = (logger_copy lg)\<lparr>lg_name := name\<rparr>"

text \<open>Every sink but the last gets a clone of the formatter.\<close>

fun set_formatter_loop :: "('k, 'f) sink_ops \<Rightarrow> 'f \<Rightarrow> nat list \<Rightarrow> (nat \<Rightarrow> 'k sink) \<Rightarrow> nat \<Rightarrow> 'k sink" where
  "set_formatter_loop ops f [] sinks = sinks"
| "set_formatter_loop ops f [i] sinks =
     sinks(i := (sinks i)\<lparr>sink_impl := sink_set_formatter ops f (sink_impl (sinks i))\<rparr>)"
| "set_formatter_loop ops f (i # j # is) sinks =
     set_formatter_loop ops f (j # is)
       (sinks(i := (sinks i)\<lparr>sink_impl := sink_set_formatter ops (formatter_clone ops f) (sink_impl (sinks i))\<rparr>))"

definition lg_set_formatter :: "('k, 'f) sink_ops \<Rightarrow> 'f \<Rightarrow> logger \<Rightarrow> 'k log_world \<Rightarrow> 'k log_world" where
  "lg_set_formatter ops f lg w = w\<lparr>w_sinks := set_formatter_loop ops f (lg_sinks lg) (w_sinks w)\<rparr>"

subsection \<open>Errors\<close>

definition pad4 :: "nat \<Rightarrow> string" where
  "pad4 n = replicate (4 - length (nat_digits n)) CHR ''0'' @ nat_digits n"

text \<open>Whether the handler throws, and the world after it.\<close>

definition err_handler :: "call_env \<Rightarrow> logger \<Rightarrow> string \<Rightarrow> 'k log_world \<Rightarrow> bool \<times> 'k log_world" where
  "err_handler env lg msg w =
     (case lg_err_handler lg of
        Some h \<Rightarrow> (ce_handler_throws env h msg, w\<lparr>w_handler_calls := w_handler_calls w @ [(h, msg)]\<rparr>)
      | None \<Rightarrow>
          let now = ce_now env;
              w' = w\<lparr>w_err_counter := (w_err_counter w + 1) mod 2 ^ 64\<rparr>
          in if now - w_last_report_time w < ns_s then (False, w')
             else (False, w'\<lparr>w_last_report_time := now,
                     w_stderr := w_stderr w @ ''[*** LOG ERROR #'' @ pad4 (w_err_counter w') @ '' ***] ['' @
                       ce_date env now @ ''] ['' @ lg_name lg @ ''] '' @ msg @ [CHR 0x0A]\<rparr>))"

text \<open>The message of a caught exception names the source line when the location has a file.\<close>

definition located :: "source_loc \<Rightarrow> string \<Rightarrow> string" where
  "located loc what =
     (case filename loc of
        Some f \<Rightarrow> what @ '' ['' @ f @ ''('' @ int_digits (line loc) @ '')]''
      | None \<Rightarrow> what)"

text \<open>The flag of the result: an exception leaves the catch blocks, the rethrown one or the handler's own.\<close>

definition logger_catch :: "call_env \<Rightarrow> logger \<Rightarrow> source_loc \<Rightarrow> exn option \<times> 'k log_world \<Rightarrow> bool \<times> 'k log_world" where
  "logger_catch env lg loc r =
     (case r of
        (None, w) \<Rightarrow> (False, w)
      | (Some (Std_exception what), w) \<Rightarrow> err_handler env lg (located loc what) w
      | (Some Unknown_exception, w) \<Rightarrow>
          let (thrown, w') = err_handler env lg ''Rethrowing unknown exception in logger'' w in (True, w'))"

subsection \<open>Logging\<close>

definition call_sink ::
  "('k \<Rightarrow> exn option \<times> 'k) \<Rightarrow> nat \<Rightarrow> 'k log_world \<Rightarrow> exn option \<times> 'k log_world" where
  "call_sink f i w =
     (let (e, k) = f (sink_impl (w_sinks w i))
      in (e, w\<lparr>w_sinks := (w_sinks w)(i := (w_sinks w i)\<lparr>sink_impl := k\<rparr>)\<rparr>))"

fun flush_loop :: "('k, 'f) sink_ops \<Rightarrow> call_env \<Rightarrow> logger \<Rightarrow> nat list \<Rightarrow> 'k log_world \<Rightarrow> bool \<times> 'k log_world" where
  "flush_loop ops env lg [] w = (False, w)"
| "flush_loop ops env lg (i # is) w =
     (let (thrown, w') = logger_catch env lg source_loc_default (call_sink (sink_flush ops) i w)
      in if thrown then (True, w') else flush_loop ops env lg is w')"

definition lg_flush :: "('k, 'f) sink_ops \<Rightarrow> call_env \<Rightarrow> logger \<Rightarrow> 'k log_world \<Rightarrow> bool \<times> 'k log_world" where
  "lg_flush ops env lg w = flush_loop ops env lg (lg_sinks lg) w"

fun sink_loop :: "('k, 'f) sink_ops \<Rightarrow> call_env \<Rightarrow> logger \<Rightarrow> log_msg \<Rightarrow> nat list \<Rightarrow> 'k log_world \<Rightarrow> bool \<times> 'k log_world" where
  "sink_loop ops env lg msg [] w = (False, w)"
| "sink_loop ops env lg msg (i # is) w =
     (if sink_should_log (msg_level msg) (w_sinks w i) then
        let (thrown, w') = logger_catch env lg (msg_source msg) (call_sink (sink_log ops msg) i w)
        in if thrown then (True, w') else sink_loop ops env lg msg is w'
      else sink_loop ops env lg msg is w)"

definition should_flush :: "log_msg \<Rightarrow> logger \<Rightarrow> bool" where
  "should_flush msg lg \<longleftrightarrow> level_code (lg_flush_level lg) \<le> level_code (msg_level msg) \<and> msg_level msg \<noteq> Lv_off"

definition lg_sink_it :: "('k, 'f) sink_ops \<Rightarrow> call_env \<Rightarrow> logger \<Rightarrow> log_msg \<Rightarrow> 'k log_world \<Rightarrow> bool \<times> 'k log_world" where
  "lg_sink_it ops env lg msg w =
     (let (thrown, w') = sink_loop ops env lg msg (lg_sinks lg) w
      in if thrown then (True, w')
         else if should_flush msg lg then lg_flush ops env lg w' else (False, w'))"

definition log_it ::
  "('k, 'f) sink_ops \<Rightarrow> call_env \<Rightarrow> log_msg \<Rightarrow> bool \<Rightarrow> bool \<Rightarrow> logger \<Rightarrow> 'k log_world \<Rightarrow> (bool \<times> logger \<times> 'k log_world) res" where
  "log_it ops env msg log_enabled traceback_enabled lg w =
     (let (thrown, w') = (if log_enabled then lg_sink_it ops env lg msg w else (False, w))
      in if thrown then Inr (True, lg, w')
         else if traceback_enabled
              then map_r (\<lambda>t. (False, lg\<lparr>lg_tracer := t\<rparr>, w')) (bt_push_back msg (lg_tracer lg))
              else Inr (False, lg, w'))"

definition lg_log ::
  "('k, 'f) sink_ops \<Rightarrow> call_env \<Rightarrow> source_loc \<Rightarrow> level_enum \<Rightarrow> string \<Rightarrow> logger \<Rightarrow> 'k log_world \<Rightarrow> (bool \<times> logger \<times> 'k log_world) res" where
  "lg_log ops env loc lvl msg lg w =
     (let log_enabled = lg_should_log lvl lg;
          traceback_enabled = bt_enabled (lg_tracer lg)
      in if \<not> log_enabled \<and> \<not> traceback_enabled then Inr (False, lg, w)
         else log_it ops env (log_msg_loc (ce_thread env) (ce_now env) loc (lg_name lg) lvl msg) log_enabled traceback_enabled lg w)"

definition backtrace_start :: string where
  "backtrace_start = ''****************** Backtrace Start ******************''"

definition backtrace_end :: string where
  "backtrace_end = ''****************** Backtrace End ********************''"

definition dump_backtrace ::
  "('k, 'f) sink_ops \<Rightarrow> call_env \<Rightarrow> logger \<Rightarrow> 'k log_world \<Rightarrow> (bool \<times> logger \<times> 'k log_world) res option" where
  "dump_backtrace ops env lg w =
     (if bt_enabled (lg_tracer lg) \<and> \<not> bt_empty (lg_tracer lg) then
        let banner = (\<lambda>s. log_msg_plain (ce_thread env) (ce_now env) (lg_name lg) Lv_info s);
            (thrown, w') = lg_sink_it ops env lg (banner backtrace_start) w
        in if thrown then Some (Inr (True, lg, w'))
           else map_option (map_r (\<lambda>(thrown, q, w'').
                  let lg' = lg\<lparr>lg_tracer := (lg_tracer lg)\<lparr>bt_messages := q\<rparr>\<rparr>
                  in if thrown then (True, lg', w'')
                     else let (thrown, w3) = lg_sink_it ops env lg (banner backtrace_end) w''
                          in (thrown, lg', w3)))
                (foreach_pop_loop (\<lambda>m w. lg_sink_it ops env lg m w) (bt_messages (lg_tracer lg)) w')
      else Some (Inr (False, lg, w)))"

subsection \<open>One failing sink does not keep a message from the others\<close>

definition benign :: "('k, 'f) sink_ops \<Rightarrow> bool" where
  "benign ops \<longleftrightarrow> (\<forall>m k. fst (sink_log ops m k) \<noteq> Some Unknown_exception) \<and> (\<forall>k. fst (sink_flush ops k) \<noteq> Some Unknown_exception)"

definition handler_calm :: "call_env \<Rightarrow> nat option \<Rightarrow> bool" where
  "handler_calm env handler \<longleftrightarrow> (case handler of None \<Rightarrow> True | Some h \<Rightarrow> \<forall>what. \<not> ce_handler_throws env h what)"

text \<open>Whether an outcome of a sink leaves the logger as an exception.\<close>

definition escapes :: "call_env \<Rightarrow> logger \<Rightarrow> source_loc \<Rightarrow> exn option \<Rightarrow> bool" where
  "escapes env lg loc e =
     (case e of
        None \<Rightarrow> False
      | Some (Std_exception what) \<Rightarrow>
          (case lg_err_handler lg of None \<Rightarrow> False | Some h \<Rightarrow> ce_handler_throws env h (located loc what))
      | Some Unknown_exception \<Rightarrow> True)"

lemma err_handler_spec [simp]:
  "fst (err_handler env lg msg w) = (case lg_err_handler lg of None \<Rightarrow> False | Some h \<Rightarrow> ce_handler_throws env h msg)"
  "w_sinks (snd (err_handler env lg msg w)) = w_sinks w"
  by (simp_all add: err_handler_def Let_def split: option.split)

lemma logger_catch_spec:
  "fst (logger_catch env lg loc r) = escapes env lg loc (fst r)"
  "w_sinks (snd (logger_catch env lg loc r)) = w_sinks (snd r)"
  by (auto simp: logger_catch_def escapes_def case_prod_beta split: prod.split option.split exn.split)

lemma handler_calm_no_escape: "e \<noteq> Some Unknown_exception \<Longrightarrow> handler_calm env (lg_err_handler lg) \<Longrightarrow> \<not> escapes env lg loc e"
  by (auto simp: escapes_def handler_calm_def split: option.splits exn.splits)

lemma call_sink_sinks:
  "fst (call_sink f i w) = fst (f (sink_impl (w_sinks w i)))"
  "w_sinks (snd (call_sink f i w)) = (w_sinks w)(i := (w_sinks w i)\<lparr>sink_impl := snd (f (sink_impl (w_sinks w i)))\<rparr>)"
  by (simp_all add: call_sink_def split: prod.split)

text \<open>What a message and a flush make of one sink, and whether they throw out of the logger.\<close>

definition deliver :: "('k, 'f) sink_ops \<Rightarrow> log_msg \<Rightarrow> 'k sink \<Rightarrow> 'k sink" where
  "deliver ops msg s =
     (if sink_should_log (msg_level msg) s then s\<lparr>sink_impl := snd (sink_log ops msg (sink_impl s))\<rparr> else s)"

definition flushed :: "('k, 'f) sink_ops \<Rightarrow> 'k sink \<Rightarrow> 'k sink" where
  "flushed ops s = s\<lparr>sink_impl := snd (sink_flush ops (sink_impl s))\<rparr>"

definition log_escapes :: "('k, 'f) sink_ops \<Rightarrow> call_env \<Rightarrow> logger \<Rightarrow> log_msg \<Rightarrow> 'k sink \<Rightarrow> bool" where
  "log_escapes ops env lg msg s \<longleftrightarrow>
     sink_should_log (msg_level msg) s \<and> escapes env lg (msg_source msg) (fst (sink_log ops msg (sink_impl s)))"

definition flush_escapes :: "('k, 'f) sink_ops \<Rightarrow> call_env \<Rightarrow> logger \<Rightarrow> 'k sink \<Rightarrow> bool" where
  "flush_escapes ops env lg s \<longleftrightarrow> escapes env lg source_loc_default (fst (sink_flush ops (sink_impl s)))"

text \<open>The sinks that are called: up to the first one that throws out of the logger.\<close>

fun called :: "('k sink \<Rightarrow> bool) \<Rightarrow> (nat \<Rightarrow> 'k sink) \<Rightarrow> nat list \<Rightarrow> nat list" where
  "called bad sinks [] = []"
| "called bad sinks (i # is) = i # (if bad (sinks i) then [] else called bad sinks is)"

lemma called_subset: "set (called bad sinks is) \<subseteq> set is"
  by (induction "is") auto

lemma called_all: "(\<forall>i \<in> set is. \<not> bad (sinks i)) \<Longrightarrow> called bad sinks is = is"
  by (induction "is") auto

lemma called_cong: "(\<And>i. i \<in> set is \<Longrightarrow> sinks i = sinks' i) \<Longrightarrow> called bad sinks is = called bad sinks' is"
  by (induction "is") auto

lemma flush_loop_spec:
  assumes "distinct is"
  shows "fst (flush_loop ops env lg is w) = (\<exists>i \<in> set is. flush_escapes ops env lg (w_sinks w i)) \<and>
         w_sinks (snd (flush_loop ops env lg is w)) =
           (\<lambda>i. if i \<in> set (called (flush_escapes ops env lg) (w_sinks w) is) then flushed ops (w_sinks w i) else w_sinks w i)"
  using assms
proof (induction "is" arbitrary: w)
  case (Cons i "is")
  let ?r = "logger_catch env lg source_loc_default (call_sink (sink_flush ops) i w)"
  have 1: "fst ?r = flush_escapes ops env lg (w_sinks w i)"
    by (simp add: logger_catch_spec call_sink_sinks flush_escapes_def)
  have 2: "w_sinks (snd ?r) = (w_sinks w)(i := flushed ops (w_sinks w i))"
    by (simp add: logger_catch_spec call_sink_sinks flushed_def)
  have 3: "called (flush_escapes ops env lg) (w_sinks (snd ?r)) is = called (flush_escapes ops env lg) (w_sinks w) is"
    using Cons.prems by (intro called_cong) (auto simp: 2)
  have 4: "i \<notin> set (called bad sinks is)" for bad and sinks :: "nat \<Rightarrow> 'a sink"
    using Cons.prems called_subset [of bad sinks "is"] by auto
  have 5: "(\<exists>j \<in> set is. flush_escapes ops env lg (w_sinks (snd ?r) j)) = (\<exists>j \<in> set is. flush_escapes ops env lg (w_sinks w j))"
    using Cons.prems by (intro bex_cong) (auto simp: 2)
  have ih: "fst (flush_loop ops env lg is (snd ?r)) = (\<exists>j \<in> set is. flush_escapes ops env lg (w_sinks w j))"
    "w_sinks (snd (flush_loop ops env lg is (snd ?r))) =
      (\<lambda>j. if j \<in> set (called (flush_escapes ops env lg) (w_sinks w) is) then flushed ops (w_sinks (snd ?r) j) else w_sinks (snd ?r) j)"
    using Cons.IH [of "snd ?r"] Cons.prems by (simp_all add: 3 5)
  show ?case using 4 by (auto simp: case_prod_beta 1 ih fun_eq_iff) (auto simp: 2)
qed simp

lemma sink_loop_spec:
  assumes "distinct is"
  shows "fst (sink_loop ops env lg msg is w) = (\<exists>i \<in> set is. log_escapes ops env lg msg (w_sinks w i)) \<and>
         w_sinks (snd (sink_loop ops env lg msg is w)) =
           (\<lambda>i. if i \<in> set (called (log_escapes ops env lg msg) (w_sinks w) is) then deliver ops msg (w_sinks w i) else w_sinks w i)"
  using assms
proof (induction "is" arbitrary: w)
  case (Cons i "is")
  let ?bad = "log_escapes ops env lg msg"
  have out: "i \<notin> set (called bad sinks is)" for bad and sinks :: "nat \<Rightarrow> 'a sink"
    using Cons.prems called_subset [of bad sinks "is"] by auto
  show ?case
  proof (cases "sink_should_log (msg_level msg) (w_sinks w i)")
    case True
    let ?r = "logger_catch env lg (msg_source msg) (call_sink (sink_log ops msg) i w)"
    have 1: "fst ?r = ?bad (w_sinks w i)" using True by (simp add: logger_catch_spec call_sink_sinks log_escapes_def)
    have 2: "w_sinks (snd ?r) = (w_sinks w)(i := deliver ops msg (w_sinks w i))"
      using True by (simp add: logger_catch_spec call_sink_sinks deliver_def)
    have 3: "called ?bad (w_sinks (snd ?r)) is = called ?bad (w_sinks w) is"
      using Cons.prems by (intro called_cong) (auto simp: 2)
    have 4: "(\<exists>j \<in> set is. ?bad (w_sinks (snd ?r) j)) = (\<exists>j \<in> set is. ?bad (w_sinks w j))"
      using Cons.prems by (intro bex_cong) (auto simp: 2)
    have ih: "fst (sink_loop ops env lg msg is (snd ?r)) = (\<exists>j \<in> set is. ?bad (w_sinks w j))"
      "w_sinks (snd (sink_loop ops env lg msg is (snd ?r))) =
        (\<lambda>j. if j \<in> set (called ?bad (w_sinks w) is) then deliver ops msg (w_sinks (snd ?r) j) else w_sinks (snd ?r) j)"
      using Cons.IH [of "snd ?r"] Cons.prems by (simp_all add: 3 4)
    show ?thesis using out by (auto simp: True case_prod_beta 1 ih fun_eq_iff) (auto simp: 2)
  next
    case False
    then have "\<not> ?bad (w_sinks w i)" "deliver ops msg (w_sinks w i) = w_sinks w i"
      by (simp_all add: log_escapes_def deliver_def)
    then show ?thesis using Cons.IH [of w] Cons.prems False by (auto simp: fun_eq_iff)
  qed
qed simp

lemma lg_sink_it_spec:
  assumes "benign ops" "handler_calm env (lg_err_handler lg)" "distinct (lg_sinks lg)"
  shows "fst (lg_sink_it ops env lg msg w) = False"
    and "w_sinks (snd (lg_sink_it ops env lg msg w)) i =
      (if i \<in> set (lg_sinks lg)
       then (if should_flush msg lg then flushed ops else id) (deliver ops msg (w_sinks w i)) else w_sinks w i)"
proof -
  have esc: "\<not> log_escapes ops env lg msg s" "\<not> flush_escapes ops env lg s" for s
    using assms(1) handler_calm_no_escape [OF _ assms(2)] by (auto simp: log_escapes_def flush_escapes_def benign_def)
  note loops = sink_loop_spec [OF assms(3), of ops env lg msg w] flush_loop_spec [OF assms(3), of ops env lg]
  show "fst (lg_sink_it ops env lg msg w) = False"
    "w_sinks (snd (lg_sink_it ops env lg msg w)) i =
      (if i \<in> set (lg_sinks lg)
       then (if should_flush msg lg then flushed ops else id) (deliver ops msg (w_sinks w i)) else w_sinks w i)"
    using loops by (auto simp: lg_sink_it_def lg_flush_def esc called_all split: prod.split)
qed

text \<open>
  C31. A logger delivers a message to each of its sinks whose level admits it, whatever standard exceptions the others
  throw, and flushes all of them when the level of the message asks for it; it throws nothing itself, and the sinks of other
  loggers are untouched. The sinks throw only standard exceptions, and the error handler of the application, if there is one,
  does not throw.
\<close>

theorem logger_delivers_to_all_sinks:
  assumes "benign ops" and "handler_calm env (lg_err_handler lg)" and "distinct (lg_sinks lg)"
  shows "\<exists>w'. lg_sink_it ops env lg msg w = (False, w') \<and>
    (\<forall>i. w_sinks w' i =
       (if i \<in> set (lg_sinks lg)
        then (if should_flush msg lg then flushed ops else id) (deliver ops msg (w_sinks w i)) else w_sinks w i))"
  using lg_sink_it_spec [OF assms, of msg w] by (cases "lg_sink_it ops env lg msg w") auto

text \<open>A sink that keeps its messages and fails on every empty one.\<close>

definition strict_sink :: "(log_msg list, unit) sink_ops" where
  "strict_sink =
     \<lparr>sink_log = (\<lambda>m ms. if payload m = [] then (Some (Std_exception ''empty''), ms) else (None, ms @ [m])),
      sink_flush = (\<lambda>ms. (None, ms)), sink_set_formatter = (\<lambda>f ms. ms), formatter_clone = id\<rparr>"

definition quiet_world :: "log_msg list log_world" where
  "quiet_world = \<lparr>w_sinks = (\<lambda>i. \<lparr>sink_level = Lv_trace, sink_impl = []\<rparr>), w_last_report_time = 0, w_err_counter = 0,
     w_stderr = [], w_handler_calls = []\<rparr>"

text \<open>A call at a time, with a handler 0 that throws on everything and others that do not.\<close>

definition env_at :: "int \<Rightarrow> call_env" where
  "env_at t = \<lparr>ce_now = t, ce_thread = 1, ce_date = (\<lambda>t. []), ce_handler_throws = (\<lambda>h what. h = 0)\<rparr>"

theorem logger_delivers_to_all_sinks_witness:
  "let lg = lg_set_error_handler (Some 1) (logger_new ''bt'' [0, 1])
   in \<exists>w'. lg_sink_it strict_sink (env_at 0) lg log_msg_default quiet_world = (False, w') \<and>
    (\<forall>i. w_sinks w' i =
       (if i \<in> set (lg_sinks lg)
        then (if should_flush log_msg_default lg then flushed strict_sink else id)
               (deliver strict_sink log_msg_default (w_sinks quiet_world i))
        else w_sinks quiet_world i))"
  unfolding Let_def
  by (rule logger_delivers_to_all_sinks)
    (simp_all add: benign_def strict_sink_def logger_new_def lg_set_error_handler_def handler_calm_def env_at_def)

text \<open>
  C32. An exception that leaves the error path leaves the logger: when a sink that admits the message throws something that is not a
  standard exception, or throws a standard one and the error handler of the application throws on the report, then the log call
  throws; the sinks up to the first such sink have received the message, the sinks behind it have not been called, and none has been
  flushed.
\<close>

theorem failing_handler_stops_delivery:
  assumes "distinct (lg_sinks lg)" and "j \<in> set (lg_sinks lg)" and "log_escapes ops env lg msg (w_sinks w j)"
  shows "\<exists>w'. lg_sink_it ops env lg msg w = (True, w') \<and>
    (\<forall>i. w_sinks w' i =
       (if i \<in> set (called (log_escapes ops env lg msg) (w_sinks w) (lg_sinks lg)) then deliver ops msg (w_sinks w i) else w_sinks w i))"
  using sink_loop_spec [OF assms(1), of ops env lg msg w] assms(2,3)
  by (cases "sink_loop ops env lg msg (lg_sinks lg) w") (auto simp: lg_sink_it_def)

theorem failing_handler_stops_delivery_witness:
  "let lg = lg_set_error_handler (Some 0) (logger_new ''failed_logger'' [0, 2]); m = log_msg_default
   in called (log_escapes strict_sink (env_at 0) lg m) (w_sinks quiet_world) (lg_sinks lg) = [0] \<and>
      (\<exists>w'. lg_sink_it strict_sink (env_at 0) lg m quiet_world = (True, w') \<and> w_sinks w' 2 = w_sinks quiet_world 2)"
proof -
  let ?lg = "lg_set_error_handler (Some 0) (logger_new ''failed_logger'' [0, 2])"
  have esc: "log_escapes strict_sink (env_at 0) ?lg log_msg_default (w_sinks quiet_world i)" for i
    by (simp add: log_escapes_def escapes_def strict_sink_def log_msg_default_def lg_set_error_handler_def env_at_def quiet_world_def
        sink_should_log_def)
  have sinks: "lg_sinks ?lg = [0, 2]" by (simp add: lg_set_error_handler_def logger_new_def)
  have "distinct (lg_sinks ?lg)" "0 \<in> set (lg_sinks ?lg)" unfolding sinks by simp_all
  from failing_handler_stops_delivery [OF this esc] show ?thesis by (auto simp: sinks esc Let_def)
qed

subsection \<open>The backtrace\<close>

lemma foreach_pop_loop_spec:
  assumes "\<And>m s. \<not> fst (f m s)" "cq_ok q"
  shows "\<exists>q'. foreach_pop_loop f q s = Some (Inr (False, q', fold (\<lambda>m s. snd (f m s)) (map lmb_msg (cq_items q)) s)) \<and>
    cq_ok q' \<and> cq_capacity q' = cq_capacity q \<and> cq_items q' = []"
  using assms(2)
proof (induction "length (cq_items q)" arbitrary: q s)
  case 0
  then show ?case by (subst foreach_pop_loop.simps) (simp add: cq.empty_spec)
next
  case (Suc n)
  then obtain x xs where xs: "cq_items q = x # xs" by (cases "cq_items q") auto
  obtain q1 where q1: "cq_pop_front q = Inr q1" "cq_ok q1" "cq_capacity q1 = cq_capacity q" "cq_items q1 = xs"
    using cq.pop_spec [OF Suc.prems] xs by auto
  have front: "cq_front q = Inr x" using cq.front_spec [OF Suc.prems] xs by simp
  have step: "foreach_pop_loop f q s = foreach_pop_loop f q1 (snd (f (lmb_msg x) s))"
    using assms(1) [of "lmb_msg x" s] front q1(1) xs cq.empty_spec [OF Suc.prems]
    by (subst foreach_pop_loop.simps) (auto split: prod.split)
  show ?case
    using Suc.hyps(1) [of q1 "snd (f (lmb_msg x) s)"] Suc.hyps(2) q1 xs by (simp add: step)
qed

text \<open>A program's log calls, each with its time, place, level and text, and the messages they make.\<close>

type_synonym log_call = "call_env \<times> source_loc \<times> level_enum \<times> string"

definition message_of :: "string \<Rightarrow> log_call \<Rightarrow> log_msg" where
  "message_of name = (\<lambda>(env, loc, lvl, s). log_msg_loc (ce_thread env) (ce_now env) loc name lvl s)"

definition log_call_step :: "('k, 'f) sink_ops \<Rightarrow> log_call \<Rightarrow> logger \<times> 'k log_world \<Rightarrow> (logger \<times> 'k log_world) res" where
  "log_call_step ops = (\<lambda>(env, loc, lvl, s) (lg, w). map_r snd (lg_log ops env loc lvl s lg w))"

definition tracing :: "nat \<Rightarrow> log_msg list \<Rightarrow> logger \<Rightarrow> bool" where
  "tracing n ms lg \<longleftrightarrow> bt_enabled (lg_tracer lg) \<and> cq_ok (bt_messages (lg_tracer lg)) \<and>
     cq_capacity (bt_messages (lg_tracer lg)) = n \<and> map lmb_msg (cq_items (bt_messages (lg_tracer lg))) = last_n n ms"

lemma last_n_map: "map f (last_n n xs) = last_n n (map f xs)"
  by (simp add: last_n_def drop_map)

lemma log_call_traced:
  assumes "benign ops" "handler_calm (fst c) (lg_err_handler lg)" "distinct (lg_sinks lg)" "tracing n ms lg"
  shows "\<exists>lg' w'. log_call_step ops c (lg, w) = Inr (lg', w') \<and> tracing n (ms @ [message_of (lg_name lg) c]) lg' \<and>
    lg_name lg' = lg_name lg \<and> lg_sinks lg' = lg_sinks lg \<and> lg_err_handler lg' = lg_err_handler lg"
proof -
  obtain env loc lvl s where c: "c = (env, loc, lvl, s)" by (cases c)
  let ?q = "bt_messages (lg_tracer lg)" and ?m = "message_of (lg_name lg) c"
  have tr: "cq_ok ?q" "cq_capacity ?q = n" "map lmb_msg (cq_items ?q) = last_n n ms" "bt_enabled (lg_tracer lg)"
    using assms(4) by (simp_all add: tracing_def)
  obtain q' where q': "cq_push_back (log_msg_buffer_of ?m) ?q = Inr q'" "cq_ok q'" "cq_capacity q' = n"
      "cq_items q' = last_n n (cq_items ?q @ [log_msg_buffer_of ?m])"
    using cq.push_spec [OF tr(1), of "log_msg_buffer_of ?m"] tr(2) by auto
  have items: "map lmb_msg (cq_items q') = last_n n (ms @ [?m])"
    by (simp add: q'(4) last_n_map tr(3) log_msg_buffer_keeps last_n_snoc)
  have push: "bt_push_back ?m (lg_tracer lg) = Inr ((lg_tracer lg)\<lparr>bt_messages := q'\<rparr>)"
    using q'(1) by (simp add: bt_push_back_def)
  obtain w' where w': "(if lg_should_log lvl lg then lg_sink_it ops env lg ?m w else (False, w)) = (False, w')"
    using lg_sink_it_spec(1) [OF assms(1,2,3), of ?m w] by (metis c fst_conv prod.collapse)
  have "log_call_step ops c (lg, w) = Inr (lg\<lparr>lg_tracer := (lg_tracer lg)\<lparr>bt_messages := q'\<rparr>\<rparr>, w')"
    using w' push tr(4) by (simp add: log_call_step_def c lg_log_def log_it_def message_of_def Let_def split: if_splits prod.splits)
  then show ?thesis using items q' tr by (simp add: tracing_def)
qed

lemma log_calls_traced:
  assumes "benign ops" "\<forall>c \<in> set cs. handler_calm (fst c) (lg_err_handler lg)" "distinct (lg_sinks lg)" "tracing n ms lg"
  shows "\<exists>lg' w'. fold_r (log_call_step ops) cs (lg, w) = Inr (lg', w') \<and>
    tracing n (ms @ map (message_of (lg_name lg)) cs) lg' \<and> lg_name lg' = lg_name lg \<and> lg_sinks lg' = lg_sinks lg \<and>
    lg_err_handler lg' = lg_err_handler lg"
  using assms(2,3,4)
proof (induction cs arbitrary: lg w ms)
  case (Cons c cs)
  obtain lg1 w1 where 1: "log_call_step ops c (lg, w) = Inr (lg1, w1)" "tracing n (ms @ [message_of (lg_name lg) c]) lg1"
      "lg_name lg1 = lg_name lg" "lg_sinks lg1 = lg_sinks lg" "lg_err_handler lg1 = lg_err_handler lg"
    using log_call_traced [OF assms(1) _ Cons.prems(2,3), of c w] Cons.prems(1) by auto
  then show ?case using Cons.IH [of lg1 "ms @ [message_of (lg_name lg) c]" w1] Cons.prems(1,2) by auto
qed auto

lemma dump_backtrace_spec:
  assumes "benign ops" "handler_calm env (lg_err_handler lg)" "distinct (lg_sinks lg)" "tracing n ms lg" "last_n n ms \<noteq> []"
  shows "\<exists>lg'. dump_backtrace ops env lg w = Some (Inr (False, lg',
      fold (\<lambda>m w. snd (lg_sink_it ops env lg m w))
        ([log_msg_plain (ce_thread env) (ce_now env) (lg_name lg) Lv_info backtrace_start] @ last_n n ms @
         [log_msg_plain (ce_thread env) (ce_now env) (lg_name lg) Lv_info backtrace_end]) w)) \<and>
    bt_empty (lg_tracer lg')"
proof -
  have tr: "cq_ok (bt_messages (lg_tracer lg))" "map lmb_msg (cq_items (bt_messages (lg_tracer lg))) = last_n n ms"
    "bt_enabled (lg_tracer lg)" using assms(4) by (simp_all add: tracing_def)
  have nt: "\<not> fst (lg_sink_it ops env lg m w)" for m w using lg_sink_it_spec(1) [OF assms(1-3)] by simp
  have "\<not> bt_empty (lg_tracer lg)" using cq.empty_spec [OF tr(1)] tr(2) assms(5) by (auto simp: bt_empty_def)
  let ?w1 = "snd (lg_sink_it ops env lg (log_msg_plain (ce_thread env) (ce_now env) (lg_name lg) Lv_info backtrace_start) w)"
  obtain q' where q': "foreach_pop_loop (\<lambda>m w. lg_sink_it ops env lg m w) (bt_messages (lg_tracer lg)) ?w1 =
      Some (Inr (False, q', fold (\<lambda>m w. snd (lg_sink_it ops env lg m w)) (last_n n ms) ?w1))" "cq_ok q'" "cq_items q' = []"
    using foreach_pop_loop_spec [where f = "\<lambda>m w. lg_sink_it ops env lg m w" and s = ?w1, OF nt tr(1)] tr(2) by auto
  show ?thesis
    using \<open>\<not> bt_empty (lg_tracer lg)\<close> tr(3) q' cq.empty_spec [OF q'(2)]
    by (simp add: dump_backtrace_def case_prod_beta nt bt_empty_def Let_def)
qed

text \<open>
  C33. The backtrace replays the last messages: after \<open>enable_backtrace(n)\<close> and any sequence of log calls, on
  whatever levels, dumping the backtrace ends and sends to the sinks the opening line, the last \<open>n\<close> messages in the order of
  the calls, and the closing line, and leaves the backtrace empty. The sinks throw only standard exceptions, and the error handler
  of the application, if there is one, does not throw.
\<close>

theorem backtrace_replays_last:
  assumes "benign ops" and "distinct (lg_sinks lg)" and "0 < n" and "n < 2 ^ 64 - 1" and "cs \<noteq> []"
    and "handler_calm env (lg_err_handler lg)" and "\<forall>c \<in> set cs. handler_calm (fst c) (lg_err_handler lg)"
  shows "\<exists>lg1 w1 lg2.
    fold_r (log_call_step ops) cs (lg_enable_backtrace n lg, w) = Inr (lg1, w1) \<and>
    dump_backtrace ops env lg1 w1 = Some (Inr (False, lg2,
      fold (\<lambda>m w. snd (lg_sink_it ops env lg1 m w))
        ([log_msg_plain (ce_thread env) (ce_now env) (lg_name lg) Lv_info backtrace_start] @
         last_n n (map (message_of (lg_name lg)) cs) @
         [log_msg_plain (ce_thread env) (ce_now env) (lg_name lg) Lv_info backtrace_end]) w1)) \<and>
    bt_empty (lg_tracer lg2)"
proof -
  let ?lg = "lg_enable_backtrace n lg"
  have lg: "lg_sinks ?lg = lg_sinks lg" "lg_name ?lg = lg_name lg" "lg_err_handler ?lg = lg_err_handler lg"
    by (simp_all add: lg_enable_backtrace_def)
  have "tracing n [] ?lg"
    using cq_new_ok [OF assms(4), of log_msg_buffer_default] by (simp add: tracing_def lg_enable_backtrace_def bt_enable_def last_n_def)
  then obtain lg1 w1 where 1: "fold_r (log_call_step ops) cs (?lg, w) = Inr (lg1, w1)"
      "tracing n (map (message_of (lg_name lg)) cs) lg1" "lg_name lg1 = lg_name lg" "lg_sinks lg1 = lg_sinks lg"
      "lg_err_handler lg1 = lg_err_handler lg"
    using log_calls_traced [of ops cs ?lg n "[]" w] assms(1,2,7) lg by auto
  have "length (last_n n (map (message_of (lg_name lg)) cs)) \<noteq> 0"
    unfolding length_last_n using assms(3,5) by simp
  then have ne: "last_n n (map (message_of (lg_name lg)) cs) \<noteq> []" by auto
  show ?thesis
    using dump_backtrace_spec [OF assms(1) _ _ 1(2) ne, of env w1] 1 assms(2,6) by auto
qed

theorem backtrace_replays_last_witness:
  "let env = env_at 0;
       cs = [(env, source_loc_default, Lv_debug, ''a''), (env, source_loc_default, Lv_trace, ''b'')]
   in \<exists>lg1 w1 lg2.
    fold_r (log_call_step strict_sink) cs (lg_enable_backtrace 1 (logger_new ''bt'' [0]), quiet_world) = Inr (lg1, w1) \<and>
    dump_backtrace strict_sink env lg1 w1 = Some (Inr (False, lg2,
      fold (\<lambda>m w. snd (lg_sink_it strict_sink env lg1 m w))
        ([log_msg_plain 1 0 ''bt'' Lv_info backtrace_start] @ [message_of ''bt'' (env, source_loc_default, Lv_trace, ''b'')] @
         [log_msg_plain 1 0 ''bt'' Lv_info backtrace_end]) w1)) \<and>
    bt_empty (lg_tracer lg2)"
proof -
  let ?env = "env_at 0"
  let ?cs = "[(?env, source_loc_default, Lv_debug, ''a''), (?env, source_loc_default, Lv_trace, ''b'')]"
  have "benign strict_sink" by (simp add: benign_def strict_sink_def)
  then show ?thesis
    using backtrace_replays_last [of strict_sink "logger_new ''bt'' [0]" 1 ?cs ?env quiet_world]
    by (simp add: logger_new_def last_n_def Let_def handler_calm_def env_at_def)
qed

lemma rb_items:
  assumes "cq_ok q"
  shows "\<forall>i \<in> set (rb_indices bound q). cq_at q i = Inr (cq_items q ! i)"
    and "map ((!) (cq_items q)) (rb_indices bound q) = (if 0 < bound then last_n bound (cq_items q) else cq_items q)"
proof -
  define n where "n = (if 0 < bound then min bound (length (cq_items q)) else length (cq_items q))"
  have n: "n \<le> length (cq_items q)" by (simp add: n_def)
  have ix: "rb_indices bound q = [length (cq_items q) - n..<length (cq_items q)]"
    using cq.size_spec [OF assms] by (simp add: rb_indices_def n_def Let_def)
  show "\<forall>i \<in> set (rb_indices bound q). cq_at q i = Inr (cq_items q ! i)"
    using cq.item_spec [OF assms] by (simp add: ix)
  have "map ((!) (cq_items q)) (rb_indices bound q) = last_n n (cq_items q)"
    using n by (intro nth_equalityI) (simp_all add: ix last_n_def)
  then show "map ((!) (cq_items q)) (rb_indices bound q) = (if 0 < bound then last_n bound (cq_items q) else cq_items q)"
    by (simp add: n_def last_n_def min_def split: if_splits)
qed

lemma last_raw_spec:
  assumes "cq_ok q"
  shows "last_raw bound q = Inr (if 0 < bound then last_n bound (cq_items q) else cq_items q)"
proof -
  have "fold_r (\<lambda>i ret. map_r (\<lambda>x. ret @ [x]) (cq_at q i)) is acc = Inr (acc @ map f is)"
    if "\<forall>i \<in> set is. cq_at q i = Inr (f i)" for "is" acc f
    using that by (induction "is" arbitrary: acc) auto
  from this [OF rb_items(1) [OF assms], of bound "[]"] rb_items(2) [OF assms, of bound] show ?thesis by (simp add: last_raw_def)
qed

subsection \<open>The asynchronous logger\<close>

text \<open>
  \<open>async_logger\<close> of \<open>async_logger-inl.h\<close>. The front end posts to the pool, if it still exists (the weak pointer can be locked);
  the back end, called by a worker, does what a synchronous logger does. The flag of the result: the call throws. \<open>None\<close> is waiting for
  room.
\<close>

definition no_pool_log :: string where
  "no_pool_log = ''async log: thread pool doesn't exist anymore''"

definition no_pool_flush :: string where
  "no_pool_flush = ''async flush: thread pool doesn't exist anymore''"

definition async_sink_it ::
  "call_env \<Rightarrow> nat \<Rightarrow> async_overflow_policy \<Rightarrow> logger \<Rightarrow> log_msg \<Rightarrow> thread_pool option \<Rightarrow> 'k log_world
     \<Rightarrow> (bool \<times> thread_pool option \<times> 'k log_world) res option" where
  "async_sink_it env self policy lg msg pool w =
     (case pool of
        Some tp \<Rightarrow> map_option (map_r (\<lambda>tp'. (False, Some tp', w))) (post_log self msg policy tp)
      | None \<Rightarrow>
          let (thrown, w') = logger_catch env lg (msg_source msg) (Some (Std_exception no_pool_log), w)
          in Some (Inr (thrown, None, w')))"

definition async_flush ::
  "call_env \<Rightarrow> nat \<Rightarrow> async_overflow_policy \<Rightarrow> logger \<Rightarrow> thread_pool option \<Rightarrow> 'k log_world
     \<Rightarrow> (bool \<times> thread_pool option \<times> 'k log_world) res option" where
  "async_flush env self policy lg pool w =
     (case pool of
        Some tp \<Rightarrow> map_option (map_r (\<lambda>tp'. (False, Some tp', w))) (post_flush self policy tp)
      | None \<Rightarrow>
          let (thrown, w') = logger_catch env lg source_loc_default (Some (Std_exception no_pool_flush), w)
          in Some (Inr (thrown, None, w')))"

fun backend_flush_loop :: "('k, 'f) sink_ops \<Rightarrow> call_env \<Rightarrow> logger \<Rightarrow> nat list \<Rightarrow> 'k log_world \<Rightarrow> bool \<times> 'k log_world" where
  "backend_flush_loop ops env lg [] w = (False, w)"
| "backend_flush_loop ops env lg (i # is) w =
     (let (thrown, w') = logger_catch env lg source_loc_default (call_sink (sink_flush ops) i w)
      in if thrown then (True, w') else backend_flush_loop ops env lg is w')"

fun backend_sink_loop :: "('k, 'f) sink_ops \<Rightarrow> call_env \<Rightarrow> logger \<Rightarrow> log_msg \<Rightarrow> nat list \<Rightarrow> 'k log_world \<Rightarrow> bool \<times> 'k log_world" where
  "backend_sink_loop ops env lg msg [] w = (False, w)"
| "backend_sink_loop ops env lg msg (i # is) w =
     (if sink_should_log (msg_level msg) (w_sinks w i) then
        let (thrown, w') = logger_catch env lg (msg_source msg) (call_sink (sink_log ops msg) i w)
        in if thrown then (True, w') else backend_sink_loop ops env lg msg is w'
      else backend_sink_loop ops env lg msg is w)"

definition backend_flush :: "('k, 'f) sink_ops \<Rightarrow> call_env \<Rightarrow> logger \<Rightarrow> 'k log_world \<Rightarrow> bool \<times> 'k log_world" where
  "backend_flush ops env lg w = backend_flush_loop ops env lg (lg_sinks lg) w"

definition backend_sink_it :: "('k, 'f) sink_ops \<Rightarrow> call_env \<Rightarrow> logger \<Rightarrow> log_msg \<Rightarrow> 'k log_world \<Rightarrow> bool \<times> 'k log_world" where
  "backend_sink_it ops env lg msg w =
     (let (thrown, w') = backend_sink_loop ops env lg msg (lg_sinks lg) w
      in if thrown then (True, w')
         else if should_flush msg lg then backend_flush ops env lg w' else (False, w'))"

text \<open>What a worker calls: the back end of the logger a message points to, by number.\<close>

definition logger_backend :: "('k, 'f) sink_ops \<Rightarrow> call_env \<Rightarrow> (nat \<Rightarrow> logger) \<Rightarrow> 'k log_world backend" where
  "logger_backend ops env loggers =
     \<lparr>be_sink_it = (\<lambda>worker_ptr msg w. backend_sink_it ops env (loggers (the worker_ptr)) msg w),
      be_flush = (\<lambda>worker_ptr w. backend_flush ops env (loggers (the worker_ptr)) w)\<rparr>"

lemma backend_flush_loop_eq: "backend_flush_loop ops env lg is w = flush_loop ops env lg is w"
  by (induction "is" arbitrary: w) (simp_all split: prod.split)

lemma backend_sink_loop_eq: "backend_sink_loop ops env lg msg is w = sink_loop ops env lg msg is w"
  by (induction "is" arbitrary: w) (simp_all split: prod.split)

lemma backend_flush_eq: "backend_flush ops env lg w = lg_flush ops env lg w"
  by (simp add: backend_flush_def backend_flush_loop_eq lg_flush_def)

lemma backend_sink_it_eq: "backend_sink_it ops env lg msg w = lg_sink_it ops env lg msg w"
  by (auto simp: backend_sink_it_def lg_sink_it_def backend_sink_loop_eq backend_flush_eq split: prod.split)

text \<open>What a call of a logger does when the logger is synchronous.\<close>

fun sync_call :: "('k, 'f) sink_ops \<Rightarrow> call_env \<Rightarrow> (nat \<Rightarrow> logger) \<Rightarrow> pool_act \<Rightarrow> 'k log_world \<Rightarrow> 'k log_world" where
  "sync_call ops env loggers (Log i m p) w = snd (lg_sink_it ops env (loggers i) m w)"
| "sync_call ops env loggers (Flush i p) w = snd (lg_flush ops env (loggers i) w)"
| "sync_call ops env loggers _ w = w"

abbreviation backend_effect ::
  "('k, 'f) sink_ops \<Rightarrow> call_env \<Rightarrow> (nat \<Rightarrow> logger) \<Rightarrow> async_msg \<Rightarrow> 'k log_world \<Rightarrow> 'k log_world" where
  "backend_effect ops env loggers x w \<equiv> snd (process_msg (logger_backend ops env loggers) x w)"

lemma backend_effect_posted: "fold (backend_effect ops env loggers) (posted a) w = sync_call ops env loggers a w"
  by (cases a) (auto simp: process_msg_def logger_backend_def async_msg_of_def async_msg_plain_def log_msg_buffer_keeps
      backend_sink_it_eq backend_flush_eq split: prod.split)

lemma backend_effect_all_posted:
  "fold (backend_effect ops env loggers) (all_posted acts) w = fold (sync_call ops env loggers) acts w"
proof (induction acts arbitrary: w)
  case (Cons a acts)
  then show ?case by (simp add: backend_effect_posted)
qed simp

lemma backend_effect_log_msgs:
  "fold (backend_effect ops env loggers) (map snd xs) w = fold (backend_effect ops env loggers) (log_msgs xs) w"
  by (induction xs arbitrary: w) (auto simp: log_msgs_def worker_stop_def process_msg_def)

text \<open>The world of a running pool is what the back-end calls made of it, one after the other.\<close>

lemma pool_run_world:
  assumes "pool_run be s acts s'" "s = Running tp w"
  shows "s' = Running tp' w' \<Longrightarrow> w' = fold (\<lambda>x w. snd (process_msg be x w)) (map snd (all_handled acts)) w"
  using assms
proof (induction arbitrary: tp' w' rule: pool_run.induct)
  case (pool_snoc s acts s' a s'')
  then obtain tp1 w1 where s': "s' = Running tp1 w1" by (cases s') (auto simp: pool_step_from_Aborted)
  have step: "pool_step be (Running tp1 w1) a (Running tp' w')" using pool_snoc.hyps(2) pool_snoc.prems(1) s' by simp
  have "w1 = fold (\<lambda>x w. snd (process_msg be x w)) (map snd (all_handled acts)) w" using pool_snoc.IH s' pool_snoc.prems(2) by blast
  moreover have "w' = fold (\<lambda>x w. snd (process_msg be x w)) (map snd (handled a)) w1"
    using step by (cases rule: pool_step.cases) (auto dest!: worker_loop_RunningE(2) [OF sym])
  ultimately show ?case by simp
qed simp



text \<open>
  With sinks and error handlers that throw nothing but standard exceptions, no exception leaves a worker, so the pool never ends
  the program.
\<close>

lemma pool_never_aborts:
  assumes "benign ops" "\<And>i. handler_calm env (lg_err_handler (loggers i))" "\<And>i. distinct (lg_sinks (loggers i))"
    and "pool_run (logger_backend ops env loggers) s acts s'" "s = Running tp w"
  shows "\<exists>tp' w'. s' = Running tp' w'"
  using assms(4,5)
proof (induction rule: pool_run.induct)
  case (pool_snoc s acts s' a s'')
  have "fst (lg_sink_it ops env (loggers i) m w) = False" "fst (lg_flush ops env (loggers i) w) = False" for i m w
    using lg_sink_it_spec(1) [OF assms(1-3)] flush_loop_spec [OF assms(3), of ops env "loggers i" i w] assms(1)
      handler_calm_no_escape [OF _ assms(2)]
    by (auto simp: lg_flush_def flush_escapes_def benign_def)
  then have go_on: "fst (process_msg (logger_backend ops env loggers) x w) \<noteq> None" for x w
    by (auto simp: process_msg_def logger_backend_def backend_sink_it_eq backend_flush_eq case_prod_beta split: async_msg_type.split)
  have "\<exists>tp' w'. worker_loop (logger_backend ops env loggers) i x tp w = Running tp' w'" for i x tp w
    using go_on [of x w] by (auto simp: worker_loop_def split: prod.split option.split)
  then show ?case using pool_snoc.hyps(2) by (auto elim: pool_step.cases)
qed simp

end
