(* ===== verification/Log_Registry.thy ===== *)
theory Log_Registry
  imports Log_Logger
begin

section \<open>Logging: the registry and the configuration of levels (spdlog)\<close>

text \<open>
  \<open>registry\<close> of \<open>details/registry.h\<close> and \<open>registry-inl.h\<close>, and \<open>cfg/helpers-inl.h\<close>, which reads levels from a text such as
  \<open>off,engine=debug\<close>. Loggers are shared objects: they live in a heap, and the registry maps names to them. The hash map
  of the code has no order its clients could rely on; the model lists it with distinct names. An
  operation that throws returns the message of its exception beside the state it leaves.
\<close>

subsection \<open>The registry\<close>

record 'f registry =
  rg_heap :: "nat \<Rightarrow> logger"
  rg_loggers :: "(string \<times> nat) list"
  rg_log_levels :: "string \<rightharpoonup> level_enum"
  rg_formatter :: 'f
  rg_global_level :: level_enum
  rg_flush_level :: level_enum
  rg_err_handler :: "nat option"
  rg_tp :: "nat option"
  rg_periodic_flusher :: bool
  rg_automatic_registration :: bool
  rg_default_logger :: "nat option"
  rg_backtrace_n_messages :: nat

fun put :: "string \<Rightarrow> 'v \<Rightarrow> (string \<times> 'v) list \<Rightarrow> (string \<times> 'v) list" where
  "put k v [] = [(k, v)]"
| "put k v ((k', v') # m) = (if k' = k then (k, v) # m else (k', v') # put k v m)"

text \<open>The default logger has the empty name and writes to the first sink, the coloured standard output.\<close>

definition registry_new :: "'f \<Rightarrow> (nat \<Rightarrow> logger) \<Rightarrow> nat \<Rightarrow> 'f registry" where
  "registry_new default_formatter heap d =
     \<lparr>rg_heap = heap(d := logger_new [] [0]), rg_loggers = [([], d)], rg_log_levels = Map.empty,
      rg_formatter = default_formatter, rg_global_level = Lv_info, rg_flush_level = Lv_off, rg_err_handler = None, rg_tp = None,
      rg_periodic_flusher = False, rg_automatic_registration = True, rg_default_logger = Some d,
      rg_backtrace_n_messages = 0\<rparr>"

definition throw_if_exists :: "string \<Rightarrow> 'f registry \<Rightarrow> string option" where
  "throw_if_exists name rg =
     (if map_of (rg_loggers rg) name \<noteq> None
      then Some (''logger with name '' @ [CHR 0x27] @ name @ [CHR 0x27] @ '' already exists'') else None)"

definition register_logger :: "nat \<Rightarrow> 'f registry \<Rightarrow> string option \<times> 'f registry" where
  "register_logger i rg =
     (let logger_name = lg_name (rg_heap rg i)
      in case throw_if_exists logger_name rg of
           Some e \<Rightarrow> (Some e, rg)
         | None \<Rightarrow> (None, rg\<lparr>rg_loggers := put logger_name i (rg_loggers rg)\<rparr>))"

definition register_or_replace :: "nat \<Rightarrow> 'f registry \<Rightarrow> 'f registry" where
  "register_or_replace i rg = rg\<lparr>rg_loggers := put (lg_name (rg_heap rg i)) i (rg_loggers rg)\<rparr>"

definition rg_update :: "nat \<Rightarrow> (logger \<Rightarrow> logger) \<Rightarrow> 'f registry \<Rightarrow> 'f registry" where
  "rg_update i f rg = rg\<lparr>rg_heap := (rg_heap rg)(i := f (rg_heap rg i))\<rparr>"

definition configured_level :: "string \<Rightarrow> 'f registry \<Rightarrow> level_enum" where
  "configured_level name rg = (case rg_log_levels rg name of Some l \<Rightarrow> l | None \<Rightarrow> rg_global_level rg)"

definition initialize_logger ::
  "('k, 'f) sink_ops \<Rightarrow> nat \<Rightarrow> 'f registry \<Rightarrow> 'k log_world \<Rightarrow> (string option \<times> 'f registry) \<times> 'k log_world" where
  "initialize_logger ops i rg w =
     (let w' = lg_set_formatter ops (formatter_clone ops (rg_formatter rg)) (rg_heap rg i) w;
          rg = (if rg_err_handler rg \<noteq> None then rg_update i (lg_set_error_handler (rg_err_handler rg)) rg else rg);
          rg = rg_update i (lg_set_level (configured_level (lg_name (rg_heap rg i)) rg)) rg;
          rg = rg_update i (lg_flush_on (rg_flush_level rg)) rg;
          rg = (if 0 < rg_backtrace_n_messages rg
                then rg_update i (lg_enable_backtrace (rg_backtrace_n_messages rg)) rg else rg)
      in (if rg_automatic_registration rg then register_logger i rg else (None, rg), w'))"

definition rg_get :: "string \<Rightarrow> 'f registry \<Rightarrow> nat option" where
  "rg_get name rg = map_of (rg_loggers rg) name"

definition set_default_logger :: "nat option \<Rightarrow> 'f registry \<Rightarrow> 'f registry" where
  "set_default_logger new_default rg =
     (case new_default of
        Some i \<Rightarrow> rg\<lparr>rg_loggers := put (lg_name (rg_heap rg i)) i (rg_loggers rg), rg_default_logger := Some i\<rparr>
      | None \<Rightarrow> rg\<lparr>rg_default_logger := None\<rparr>)"

definition set_tp :: "nat option \<Rightarrow> 'f registry \<Rightarrow> 'f registry" where
  "set_tp tp rg = rg\<lparr>rg_tp := tp\<rparr>"

text \<open>A loop over the registered loggers.\<close>

definition for_each :: "(string \<Rightarrow> logger \<Rightarrow> logger) \<Rightarrow> 'f registry \<Rightarrow> 'f registry" where
  "for_each f rg = rg\<lparr>rg_heap := fold (\<lambda>(n, i) h. h(i := f n (h i))) (rg_loggers rg) (rg_heap rg)\<rparr>"

definition rg_set_formatter :: "('k, 'f) sink_ops \<Rightarrow> 'f \<Rightarrow> 'f registry \<Rightarrow> 'k log_world \<Rightarrow> 'f registry \<times> 'k log_world" where
  "rg_set_formatter ops f rg w =
     (rg\<lparr>rg_formatter := f\<rparr>,
      fold (\<lambda>(n, i) w. lg_set_formatter ops (formatter_clone ops f) (rg_heap rg i) w) (rg_loggers rg) w)"

definition rg_enable_backtrace :: "nat \<Rightarrow> 'f registry \<Rightarrow> 'f registry" where
  "rg_enable_backtrace n rg = for_each (\<lambda>_. lg_enable_backtrace n) (rg\<lparr>rg_backtrace_n_messages := n\<rparr>)"

definition rg_disable_backtrace :: "'f registry \<Rightarrow> 'f registry" where
  "rg_disable_backtrace rg = for_each (\<lambda>_. lg_disable_backtrace) (rg\<lparr>rg_backtrace_n_messages := 0\<rparr>)"

definition rg_set_level :: "level_enum \<Rightarrow> 'f registry \<Rightarrow> 'f registry" where
  "rg_set_level l rg = (for_each (\<lambda>_. lg_set_level l) rg)\<lparr>rg_global_level := l\<rparr>"

definition rg_flush_on :: "level_enum \<Rightarrow> 'f registry \<Rightarrow> 'f registry" where
  "rg_flush_on l rg = (for_each (\<lambda>_. lg_flush_on l) rg)\<lparr>rg_flush_level := l\<rparr>"

definition rg_set_error_handler :: "nat option \<Rightarrow> 'f registry \<Rightarrow> 'f registry" where
  "rg_set_error_handler h rg = (for_each (\<lambda>_. lg_set_error_handler h) rg)\<lparr>rg_err_handler := h\<rparr>"

definition apply_all :: "(logger \<Rightarrow> logger) \<Rightarrow> 'f registry \<Rightarrow> 'f registry" where
  "apply_all f rg = for_each (\<lambda>_. f) rg"

text \<open>Flushing stops at the first logger that throws.\<close>

fun flush_all_loop :: "('k, 'f) sink_ops \<Rightarrow> call_env \<Rightarrow> logger list \<Rightarrow> 'k log_world \<Rightarrow> bool \<times> 'k log_world" where
  "flush_all_loop ops env [] w = (False, w)"
| "flush_all_loop ops env (lg # lgs) w =
     (let (thrown, w') = lg_flush ops env lg w in if thrown then (True, w') else flush_all_loop ops env lgs w')"

definition flush_all :: "('k, 'f) sink_ops \<Rightarrow> call_env \<Rightarrow> 'f registry \<Rightarrow> 'k log_world \<Rightarrow> bool \<times> 'k log_world" where
  "flush_all ops env rg w = flush_all_loop ops env (map (\<lambda>(n, i). rg_heap rg i) (rg_loggers rg)) w"

definition rg_flush_every :: "'f registry \<Rightarrow> 'f registry" where
  "rg_flush_every rg = rg\<lparr>rg_periodic_flusher := True\<rparr>"

definition rg_drop :: "string \<Rightarrow> 'f registry \<Rightarrow> 'f registry" where
  "rg_drop name rg =
     (let is_default_logger =
            (case rg_default_logger rg of Some i \<Rightarrow> lg_name (rg_heap rg i) = name | None \<Rightarrow> False);
          rg = rg\<lparr>rg_loggers := filter (\<lambda>(n, i). n \<noteq> name) (rg_loggers rg)\<rparr>
      in if is_default_logger then rg\<lparr>rg_default_logger := None\<rparr> else rg)"

definition drop_all :: "'f registry \<Rightarrow> 'f registry" where
  "drop_all rg = rg\<lparr>rg_loggers := [], rg_default_logger := None\<rparr>"

definition shutdown :: "'f registry \<Rightarrow> 'f registry" where
  "shutdown rg = (drop_all (rg\<lparr>rg_periodic_flusher := False\<rparr>))\<lparr>rg_tp := None\<rparr>"

definition set_automatic_registration :: "bool \<Rightarrow> 'f registry \<Rightarrow> 'f registry" where
  "set_automatic_registration b rg = rg\<lparr>rg_automatic_registration := b\<rparr>"

definition set_levels :: "(string \<rightharpoonup> level_enum) \<Rightarrow> level_enum option \<Rightarrow> 'f registry \<Rightarrow> 'f registry" where
  "set_levels levels global_level rg =
     (let rg = rg\<lparr>rg_log_levels := levels,
                  rg_global_level := (case global_level of Some g \<Rightarrow> g | None \<Rightarrow> rg_global_level rg)\<rparr>
      in for_each (\<lambda>name lg.
           case levels name of
             Some l \<Rightarrow> lg_set_level l lg
           | None \<Rightarrow> (case global_level of Some g \<Rightarrow> lg_set_level g lg | None \<Rightarrow> lg)) rg)"

definition apply_logger_env_levels :: "nat \<Rightarrow> 'f registry \<Rightarrow> 'f registry" where
  "apply_logger_env_levels i rg = rg_update i (lg_set_level (configured_level (lg_name (rg_heap rg i)) rg)) rg"

subsection \<open>Reading levels from a text\<close>

definition to_lower :: "string \<Rightarrow> string" where
  "to_lower s = map (\<lambda>ch. if 65 \<le> (of_char ch :: nat) \<and> (of_char ch :: nat) \<le> 90 then char_of (of_char ch + 32 :: nat) else ch) s"

definition is_space :: "char \<Rightarrow> bool" where
  "is_space c \<longleftrightarrow> c = CHR '' '' \<or> c = CHR 0x0A \<or> c = CHR 0x0D \<or> c = CHR 0x09"

definition trim :: "string \<Rightarrow> string" where
  "trim s = dropWhile is_space (rev (dropWhile is_space (rev s)))"

definition extract_kv :: "char \<Rightarrow> string \<Rightarrow> string \<times> string" where
  "extract_kv sep s =
     (let k = takeWhile (\<lambda>c. c \<noteq> sep) s
      in if length k = length s then (trim [], trim s)
         else (trim k, trim (drop (length k + 1) s)))"

text \<open>The loop of \<open>getline\<close> with a comma; an empty rest ends it.\<close>

function getline_tokens :: "string \<Rightarrow> string list" where
  "getline_tokens [] = []"
| "getline_tokens (c # s) =
     takeWhile (\<lambda>c. c \<noteq> CHR '','') (c # s) # getline_tokens (tl (dropWhile (\<lambda>c. c \<noteq> CHR '','') (c # s)))"
  by pat_completeness auto
termination
proof (relation "measure length", goal_cases)
  case (2 c s)
  have "length (dropWhile (\<lambda>c. c \<noteq> CHR '','') (c # s)) \<le> length (c # s)" by (rule length_dropWhile_le)
  then show ?case by (simp only: in_measure length_tl) simp
qed simp

declare getline_tokens.simps(2) [simp del]

definition extract_key_vals :: "string \<Rightarrow> (string \<times> string) list" where
  "extract_key_vals s =
     fold (\<lambda>token rv.
         if token = [] then rv
         else let kv = extract_kv CHR ''='' token in put (fst kv) (snd kv) rv)
       (getline_tokens s) []"

text \<open>The loop over the pairs: the level found for no name, and the levels by name.\<close>

definition load_level :: "string \<times> string \<Rightarrow> level_enum option \<times> (string \<rightharpoonup> level_enum) \<Rightarrow> level_enum option \<times> (string \<rightharpoonup> level_enum)" where
  "load_level = (\<lambda>(logger_name, value) (global_level, levels).
     let level_name = to_lower value;
         level = level_from_str level_name
     in if level = Lv_off \<and> level_name \<noteq> ''off'' then (global_level, levels)
        else if logger_name = [] then (Some level, levels)
        else (global_level, levels(logger_name \<mapsto> level)))"

definition load_levels :: "string \<Rightarrow> 'f registry \<Rightarrow> 'f registry" where
  "load_levels input rg =
     (if input = [] \<or> 512 < length input then rg
      else let (global_level, levels) = fold load_level (extract_key_vals input) (None, Map.empty)
           in set_levels levels global_level rg)"

subsection \<open>Printing a configuration\<close>

definition level_text :: "level_enum \<Rightarrow> string" where
  "level_text l = level_string_views ! level_code l"

text \<open>A name that survives the separators and the trimming.\<close>

definition plain_name :: "string \<Rightarrow> bool" where
  "plain_name n \<longleftrightarrow> n \<noteq> [] \<and> CHR '','' \<notin> set n \<and> CHR ''='' \<notin> set n \<and> \<not> is_space (hd n) \<and> \<not> is_space (last n)"

fun show_entry :: "string \<times> level_enum \<Rightarrow> string" where
  "show_entry (n, l) = n @ ''='' @ level_text l"

fun join :: "string list \<Rightarrow> string" where
  "join [] = []"
| "join [t] = t"
| "join (t # u # ts) = t @ '','' @ join (u # ts)"

definition show_config :: "level_enum option \<Rightarrow> (string \<times> level_enum) list \<Rightarrow> string" where
  "show_config g cs = join ((case g of Some l \<Rightarrow> [level_text l] | None \<Rightarrow> []) @ map show_entry cs)"

lemma getline_join:
  "\<forall>t \<in> set ts. t \<noteq> [] \<and> CHR '','' \<notin> set t \<Longrightarrow> getline_tokens (join ts) = ts"
proof (induction ts rule: join.induct)
  case (2 t)
  then obtain c s where t: "t = c # s" by (cases t) auto
  have "takeWhile (\<lambda>c. c \<noteq> CHR '','') t = t" "dropWhile (\<lambda>c. c \<noteq> CHR '','') t = []"
    using 2 by (auto simp: takeWhile_eq_all_conv)
  then show ?case using t by (simp add: getline_tokens.simps(2))
next
  case (3 t u ts)
  then obtain c s where t: "t = c # s" by (cases t) auto
  have "takeWhile (\<lambda>c. c \<noteq> CHR '','') (t @ CHR '','' # r) = t" "dropWhile (\<lambda>c. c \<noteq> CHR '','') (t @ CHR '','' # r) = CHR '','' # r" for r
    using 3 by (auto simp: takeWhile_append dropWhile_append takeWhile_eq_all_conv)
  then show ?case using t 3 getline_tokens.simps(2) [of c "s @ CHR '','' # join (u # ts)"] by simp
qed simp

lemma trim_plain: "s = [] \<or> \<not> is_space (hd s) \<and> \<not> is_space (last s) \<Longrightarrow> trim s = s"
proof -
  assume a: "s = [] \<or> \<not> is_space (hd s) \<and> \<not> is_space (last s)"
  have "dropWhile is_space (rev s) = rev s" using a by (cases "rev s") (auto simp: hd_rev)
  moreover have "dropWhile is_space s = s" using a by (cases s) auto
  ultimately show ?thesis by (simp add: trim_def)
qed

lemma level_texts:
  assumes "l \<noteq> Lv_n_levels"
  shows "level_from_str (to_lower (level_text l)) = l" "to_lower (level_text Lv_off) = ''off''"
    "trim (level_text l) = level_text l" "CHR '','' \<notin> set (level_text l)" "CHR ''='' \<notin> set (level_text l)" "level_text l \<noteq> []"
  using assms by (cases l; simp add: level_text_def level_string_views_def level_from_str_def level_of_code_def to_lower_def
      trim_def is_space_def)+

lemma extract_entry:
  assumes "plain_name n" "l \<noteq> Lv_n_levels"
  shows "extract_kv CHR ''='' (show_entry (n, l)) = (n, level_text l)"
proof -
  have "takeWhile (\<lambda>c. c \<noteq> CHR ''='') (n @ CHR ''='' # level_text l) = n"
    using assms(1) by (auto simp: plain_name_def takeWhile_append takeWhile_eq_all_conv)
  moreover have "trim n = n" using assms(1) by (intro trim_plain) (simp add: plain_name_def)
  ultimately show ?thesis using level_texts(3) [OF assms(2)] by (simp add: extract_kv_def)
qed

lemma extract_global: "l \<noteq> Lv_n_levels \<Longrightarrow> extract_kv CHR ''='' (level_text l) = ([], level_text l)"
proof -
  assume l: "l \<noteq> Lv_n_levels"
  then have "takeWhile (\<lambda>c. c \<noteq> CHR ''='') (level_text l) = level_text l"
    using level_texts(5) [OF l] by (auto simp: takeWhile_eq_all_conv)
  note tw = this
  show ?thesis unfolding extract_kv_def Let_def tw by (simp add: level_texts(3) [OF l] trim_plain)
qed

text \<open>The entries of a configuration, with the empty name for the global level.\<close>

definition entries :: "level_enum option \<Rightarrow> (string \<times> level_enum) list \<Rightarrow> (string \<times> level_enum) list" where
  "entries g cs = (case g of Some l \<Rightarrow> [([], l)] | None \<Rightarrow> []) @ cs"

definition entry_text :: "string \<times> level_enum \<Rightarrow> string" where
  "entry_text e = (if fst e = [] then level_text (snd e) else show_entry e)"

definition good_config :: "level_enum option \<Rightarrow> (string \<times> level_enum) list \<Rightarrow> bool" where
  "good_config g cs \<longleftrightarrow> g \<noteq> Some Lv_n_levels \<and> distinct (map fst cs) \<and>
     list_all (\<lambda>(n, l). plain_name n \<and> l \<noteq> Lv_n_levels) cs"

lemma show_config_entries: "good_config g cs \<Longrightarrow> show_config g cs = join (map entry_text (entries g cs))"
proof -
  assume "good_config g cs"
  then have "map entry_text cs = map show_entry cs"
    by (intro map_cong) (auto simp: entry_text_def good_config_def plain_name_def list_all_iff)
  note names = this
  have "entry_text ([], l) = level_text l" for l by (simp add: entry_text_def)
  then show ?thesis unfolding show_config_def entries_def names [symmetric] by (simp split: option.split)
qed

lemma entry_facts:
  assumes "good_config g cs" "e \<in> set (entries g cs)"
  shows "entry_text e \<noteq> []" "CHR '','' \<notin> set (entry_text e)"
    "extract_kv CHR ''='' (entry_text e) = (fst e, level_text (snd e))" "snd e \<noteq> Lv_n_levels"
proof -
  obtain n l where e: "e = (n, l)" by (cases e)
  have cases: "n = [] \<and> l \<noteq> Lv_n_levels \<or> plain_name n \<and> l \<noteq> Lv_n_levels"
    using assms e by (auto simp: entries_def good_config_def list_all_iff split: option.splits)
  then show "snd e \<noteq> Lv_n_levels" using e by auto
  show "entry_text e \<noteq> []" "CHR '','' \<notin> set (entry_text e)"
    using cases level_texts(4,6) [of l] by (auto simp: e entry_text_def plain_name_def)
  show "extract_kv CHR ''='' (entry_text e) = (fst e, level_text (snd e))"
    using cases extract_entry [of n l] extract_global [of l] by (auto simp: e entry_text_def plain_name_def)
qed

lemma distinct_entries: "good_config g cs \<Longrightarrow> distinct (map fst (entries g cs))"
  by (force simp: good_config_def entries_def list_all_iff plain_name_def split: option.split)

lemma put_new: "k \<notin> fst ` set m \<Longrightarrow> put k v m = m @ [(k, v)]"
  by (induction k v m rule: put.induct) auto

lemma extract_tokens:
  assumes "\<And>e. e \<in> set es \<Longrightarrow> entry_text e \<noteq> [] \<and> extract_kv CHR ''='' (entry_text e) = (fst e, level_text (snd e))"
    and "distinct (map fst acc @ map fst es)"
  shows "fold (\<lambda>token rv. if token = [] then rv else let kv = extract_kv CHR ''='' token in put (fst kv) (snd kv) rv)
      (map entry_text es) acc = acc @ map (\<lambda>e. (fst e, level_text (snd e))) es"
  using assms
proof (induction es arbitrary: acc)
  case (Cons e es)
  have new: "put (fst e) (level_text (snd e)) acc = acc @ [(fst e, level_text (snd e))]"
    using Cons.prems(2) by (intro put_new) simp
  have e: "entry_text e \<noteq> []" "extract_kv CHR ''='' (entry_text e) = (fst e, level_text (snd e))"
    using Cons.prems(1) [of e] by simp_all
  have "distinct (map fst (acc @ [(fst e, level_text (snd e))]) @ map fst es)" using Cons.prems(2) by simp
  with Cons.IH [of "acc @ [(fst e, level_text (snd e))]"] Cons.prems(1) e new show ?case by (simp add: Let_def)
qed simp

lemma extract_show:
  assumes "good_config g cs"
  shows "extract_key_vals (show_config g cs) = map (\<lambda>e. (fst e, level_text (snd e))) (entries g cs)"
proof -
  have "getline_tokens (show_config g cs) = map entry_text (entries g cs)"
    unfolding show_config_entries [OF assms] by (rule getline_join) (auto simp: entry_facts [OF assms])
  then show ?thesis
    using extract_tokens [of "entries g cs" "[]"] entry_facts [OF assms] distinct_entries [OF assms]
    by (simp add: extract_key_vals_def)
qed

lemma load_level_text:
  "l \<noteq> Lv_n_levels \<Longrightarrow> load_level (n, level_text l) (gl, lv) =
     (if n = [] then (Some l, lv) else (gl, lv(n \<mapsto> l)))"
  using level_texts(1,2) [of l] by (auto simp: load_level_def Let_def)

lemma load_names:
  "list_all (\<lambda>(n, l). plain_name n \<and> l \<noteq> Lv_n_levels) cs \<Longrightarrow>
     fold load_level (map (\<lambda>e. (fst e, level_text (snd e))) cs) (gl, lv) = (gl, lv ++ map_of (rev cs))"
  by (induction cs arbitrary: lv) (auto simp: load_level_text plain_name_def map_add_assoc [symmetric])

lemma load_show:
  assumes "good_config g cs"
  shows "fold load_level (extract_key_vals (show_config g cs)) (None, Map.empty) = (g, map_of cs)"
proof -
  have rev: "map_of (rev cs) = map_of cs"
    using assms by (simp add: good_config_def map_of_inject_set rev_map [symmetric])
  show ?thesis
    unfolding extract_show [OF assms] using assms load_names [of cs] rev
    by (cases g) (auto simp: entries_def good_config_def load_level_text)
qed

subsection \<open>Levels\<close>

text \<open>Every registered logger has its own name as key.\<close>

definition registry_ok :: "'f registry \<Rightarrow> bool" where
  "registry_ok rg \<longleftrightarrow> distinct (map fst (rg_loggers rg)) \<and> (\<forall>(n, i) \<in> set (rg_loggers rg). lg_name (rg_heap rg i) = n)"

lemma registry_ids_distinct: "registry_ok rg \<Longrightarrow> distinct (map snd (rg_loggers rg))"
proof -
  assume ok: "registry_ok rg"
  then have "map fst (rg_loggers rg) = map (\<lambda>i. lg_name (rg_heap rg i)) (map snd (rg_loggers rg))"
    by (auto simp: registry_ok_def)
  then have "distinct (map (\<lambda>i. lg_name (rg_heap rg i)) (map snd (rg_loggers rg)))"
    using ok by (metis registry_ok_def)
  then show ?thesis by (simp only: distinct_map)
qed

lemma fold_heap:
  "distinct (map snd xs) \<Longrightarrow> (n, i) \<in> set xs \<Longrightarrow> fold (\<lambda>(n, i) h. h(i := f n (h i))) xs h i = f n (h i)"
  "i \<notin> snd ` set xs \<Longrightarrow> fold (\<lambda>(n, i) h. h(i := f n (h i))) xs h i = h i"
proof -
  show out: "fold (\<lambda>(n, i) h. h(i := f n (h i))) xs h i = h i" if "i \<notin> snd ` set xs" for xs h
    using that by (induction xs arbitrary: h) auto
  assume "distinct (map snd xs)" "(n, i) \<in> set xs"
  then obtain ys zs where xs: "xs = ys @ (n, i) # zs" "i \<notin> snd ` set ys" "i \<notin> snd ` set zs"
    by (auto simp: in_set_conv_decomp)
  show "fold (\<lambda>(n, i) h. h(i := f n (h i))) xs h i = f n (h i)"
    unfolding xs(1) fold_append fold_Cons comp_apply out [OF xs(3)] by (simp add: out [OF xs(2)])
qed

lemma for_each_heap:
  assumes "registry_ok rg" "(n, i) \<in> set (rg_loggers rg)"
  shows "rg_heap (for_each f rg) i = f n (rg_heap rg i)"
  using fold_heap(1) [OF registry_ids_distinct [OF assms(1)] assms(2)] by (simp add: for_each_def)

lemma rg_update_simps [simp]:
  "rg_heap (rg_update i f rg) i = f (rg_heap rg i)" "rg_log_levels (rg_update i f rg) = rg_log_levels rg"
  "rg_global_level (rg_update i f rg) = rg_global_level rg" "configured_level n (rg_update i f rg) = configured_level n rg"
  by (simp_all add: rg_update_def configured_level_def split: option.split)

lemma logger_setters [simp]:
  "lg_level (lg_set_level l lg) = l" "lg_level (lg_flush_on l lg) = lg_level lg" "lg_level (lg_enable_backtrace n lg) = lg_level lg"
  "lg_name (lg_set_error_handler h lg) = lg_name lg"
  by (simp_all add: lg_set_level_def lg_flush_on_def lg_enable_backtrace_def lg_set_error_handler_def)

lemma register_logger_heap [simp]: "rg_heap (snd (register_logger i rg)) = rg_heap rg"
  by (simp add: register_logger_def Let_def split: option.split)

lemma initialize_logger_level:
  "lg_level (rg_heap (snd (fst (initialize_logger ops i rg w))) i) = configured_level (lg_name (rg_heap rg i)) rg"
  unfolding initialize_logger_def Let_def by simp

text \<open>
  C35. Configured levels reach every logger: for every configuration of a global level and of levels by name, printed as the text
  \<open>level,name=level,...\<close> of at most 512 characters, loading the text gives every registered logger the level of its name, or the
  global level, or leaves it when there is none, and every logger initialized later gets the level of its name or the global one.
\<close>

theorem config_levels_reach_loggers:
  assumes "good_config g cs" and "registry_ok rg" and "show_config g cs \<noteq> []" and "length (show_config g cs) \<le> 512"
  shows "(\<forall>(n, i) \<in> set (rg_loggers rg).
            lg_level (rg_heap (load_levels (show_config g cs) rg) i) =
              (case map_of cs n of Some l \<Rightarrow> l | None \<Rightarrow> (case g of Some l \<Rightarrow> l | None \<Rightarrow> lg_level (rg_heap rg i))))
    \<and> (\<forall>ops i w. i \<notin> snd ` set (rg_loggers rg) \<longrightarrow>
         lg_level (rg_heap (snd (fst (initialize_logger ops i (load_levels (show_config g cs) rg) w))) i) =
           (case map_of cs (lg_name (rg_heap rg i)) of Some l \<Rightarrow> l
            | None \<Rightarrow> (case g of Some l \<Rightarrow> l | None \<Rightarrow> rg_global_level rg)))"
proof -
  let ?rg = "rg\<lparr>rg_log_levels := map_of cs, rg_global_level := (case g of Some l \<Rightarrow> l | None \<Rightarrow> rg_global_level rg)\<rparr>"
  let ?f = "\<lambda>name lg. case map_of cs name of Some l \<Rightarrow> lg_set_level l lg
     | None \<Rightarrow> (case g of Some l \<Rightarrow> lg_set_level l lg | None \<Rightarrow> lg)"
  have load: "load_levels (show_config g cs) rg = for_each ?f ?rg"
    using assms(3,4) by (simp add: load_levels_def load_show [OF assms(1)] set_levels_def Let_def)
  have ok: "registry_ok ?rg" using assms(2) by (simp add: registry_ok_def)
  have "lg_level (rg_heap (for_each ?f ?rg) i) =
      (case map_of cs n of Some l \<Rightarrow> l | None \<Rightarrow> (case g of Some l \<Rightarrow> l | None \<Rightarrow> lg_level (rg_heap rg i)))"
    if "(n, i) \<in> set (rg_loggers rg)" for n i
    using for_each_heap [OF ok, of n i ?f] that by (simp add: lg_set_level_def split: option.split)
  moreover have "rg_heap (for_each ?f ?rg) i = rg_heap rg i" if "i \<notin> snd ` set (rg_loggers rg)" for i
    using fold_heap(2) [OF that] by (simp add: for_each_def)
  moreover have "configured_level name (for_each ?f ?rg) =
      (case map_of cs name of Some l \<Rightarrow> l | None \<Rightarrow> (case g of Some l \<Rightarrow> l | None \<Rightarrow> rg_global_level rg))" for name
    by (simp add: configured_level_def for_each_def split: option.split)
  ultimately show ?thesis
    unfolding load initialize_logger_level by auto
qed

theorem config_levels_reach_loggers_witness:
  "lg_level (rg_heap (load_levels (show_config (Some Lv_warn) [(''engine'', Lv_debug)])
      (registry_new () (\<lambda>i. logger_new ''engine'' [0]) 0)) 0) = Lv_warn"
proof -
  have "registry_ok (registry_new () (\<lambda>i. logger_new ''engine'' [0]) 0)"
    by (simp add: registry_ok_def registry_new_def logger_new_def)
  moreover have "good_config (Some Lv_warn) [(''engine'', Lv_debug)]"
    by (simp add: good_config_def plain_name_def is_space_def)
  moreover have "show_config (Some Lv_warn) [(''engine'', Lv_debug)] = ''warning,engine=debug''"
    by (simp add: show_config_def level_text_def level_string_views_def)
  ultimately have "\<forall>(n, i) \<in> set (rg_loggers (registry_new () (\<lambda>i. logger_new ''engine'' [0]) 0)).
      lg_level (rg_heap (load_levels (show_config (Some Lv_warn) [(''engine'', Lv_debug)])
        (registry_new () (\<lambda>i. logger_new ''engine'' [0]) 0)) i) =
      (case map_of [(''engine'', Lv_debug)] n of Some l \<Rightarrow> l | None \<Rightarrow> (case Some Lv_warn of Some l \<Rightarrow> l
         | None \<Rightarrow> lg_level (rg_heap (registry_new () (\<lambda>i. logger_new ''engine'' [0]) 0) i)))"
    by (intro config_levels_reach_loggers [THEN conjunct1]) simp_all
  moreover have "([], 0) \<in> set (rg_loggers (registry_new () (\<lambda>i. logger_new ''engine'' [0]) 0))"
    by (simp add: registry_new_def)
  ultimately show ?thesis by fastforce
qed

end
