(* ===== verification/Log_Sinks.thy ===== *)
theory Log_Sinks
  imports Log_Logger
begin

section \<open>Logging: the distribution sink and the filter of duplicates (spdlog)\<close>

text \<open>
  \<open>dist_sink\<close> of \<open>sinks/dist_sink.h\<close> passes messages on to a list of sinks, and \<open>dup_filter_sink\<close> of
  \<open>sinks/dup_filter_sink.h\<close> suppresses repeated messages before it does, and reports how many it suppressed. Sinks live in
  the store of \<open>Log_Logger\<close>; an exception of a sink is not caught here but ends the operation. Time points are
  nanoseconds; the limit of the filter is in microseconds, and comparing it with a difference of time points converts it to
  nanoseconds, which can overflow.
\<close>

subsection \<open>Distribution\<close>

record 'f dist_sink =
  ds_sinks :: "nat list"
  ds_formatter :: 'f

definition ds_add_sink :: "nat \<Rightarrow> ('f, 'z) dist_sink_scheme \<Rightarrow> ('f, 'z) dist_sink_scheme" where
  "ds_add_sink i s = s\<lparr>ds_sinks := ds_sinks s @ [i]\<rparr>"

definition ds_remove_sink :: "nat \<Rightarrow> ('f, 'z) dist_sink_scheme \<Rightarrow> ('f, 'z) dist_sink_scheme" where
  "ds_remove_sink i s = s\<lparr>ds_sinks := filter (\<lambda>j. j \<noteq> i) (ds_sinks s)\<rparr>"

definition ds_set_sinks :: "nat list \<Rightarrow> ('f, 'z) dist_sink_scheme \<Rightarrow> ('f, 'z) dist_sink_scheme" where
  "ds_set_sinks is s = s\<lparr>ds_sinks := is\<rparr>"

fun ds_sink_loop ::
  "('k, 'f) sink_ops \<Rightarrow> log_msg \<Rightarrow> nat list \<Rightarrow> (nat \<Rightarrow> 'k sink) \<Rightarrow> exn option \<times> (nat \<Rightarrow> 'k sink)" where
  "ds_sink_loop ops msg [] sinks = (None, sinks)"
| "ds_sink_loop ops msg (i # is) sinks =
     (if sink_should_log (msg_level msg) (sinks i) then
        let (e, k) = sink_log ops msg (sink_impl (sinks i));
            sinks' = sinks(i := (sinks i)\<lparr>sink_impl := k\<rparr>)
        in (case e of Some x \<Rightarrow> (Some x, sinks') | None \<Rightarrow> ds_sink_loop ops msg is sinks')
      else ds_sink_loop ops msg is sinks)"

definition ds_sink_it ::
  "('k, 'f) sink_ops \<Rightarrow> log_msg \<Rightarrow> ('f, 'z) dist_sink_scheme \<Rightarrow> (nat \<Rightarrow> 'k sink) \<Rightarrow> exn option \<times> (nat \<Rightarrow> 'k sink)" where
  "ds_sink_it ops msg s sinks = ds_sink_loop ops msg (ds_sinks s) sinks"

fun ds_flush_loop :: "('k, 'f) sink_ops \<Rightarrow> nat list \<Rightarrow> (nat \<Rightarrow> 'k sink) \<Rightarrow> exn option \<times> (nat \<Rightarrow> 'k sink)" where
  "ds_flush_loop ops [] sinks = (None, sinks)"
| "ds_flush_loop ops (i # is) sinks =
     (let (e, k) = sink_flush ops (sink_impl (sinks i));
          sinks' = sinks(i := (sinks i)\<lparr>sink_impl := k\<rparr>)
      in (case e of Some x \<Rightarrow> (Some x, sinks') | None \<Rightarrow> ds_flush_loop ops is sinks'))"

definition ds_flush :: "('k, 'f) sink_ops \<Rightarrow> ('f, 'z) dist_sink_scheme \<Rightarrow> (nat \<Rightarrow> 'k sink) \<Rightarrow> exn option \<times> (nat \<Rightarrow> 'k sink)" where
  "ds_flush ops s sinks = ds_flush_loop ops (ds_sinks s) sinks"

definition ds_set_formatter ::
  "('k, 'f) sink_ops \<Rightarrow> 'f \<Rightarrow> ('f, 'z) dist_sink_scheme \<Rightarrow> (nat \<Rightarrow> 'k sink) \<Rightarrow> ('f, 'z) dist_sink_scheme \<times> (nat \<Rightarrow> 'k sink)" where
  "ds_set_formatter ops f s sinks =
     (s\<lparr>ds_formatter := f\<rparr>,
      fold (\<lambda>i sinks. sinks(i := (sinks i)\<lparr>sink_impl := sink_set_formatter ops (formatter_clone ops f) (sink_impl (sinks i))\<rparr>))
        (ds_sinks s) sinks)"

subsection \<open>The filter\<close>

record 'f dup_filter_sink = "'f dist_sink" +
  df_max_skip_duration :: int
  df_last_msg_time :: int
  df_last_msg_payload :: string
  df_skip_counter :: nat
  df_skipped_msg_log_level :: level_enum

definition dup_filter_sink_new :: "'f \<Rightarrow> int \<Rightarrow> 'f dup_filter_sink" where
  "dup_filter_sink_new f max_skip_duration =
     \<lparr>ds_sinks = [], ds_formatter = f, df_max_skip_duration = max_skip_duration, df_last_msg_time = 0,
      df_last_msg_payload = [], df_skip_counter = 0, df_skipped_msg_log_level = Lv_off\<rparr>"

text \<open>Whether the message is displayed.\<close>

definition df_filter :: "log_msg \<Rightarrow> 'f dup_filter_sink \<Rightarrow> bool res" where
  "df_filter msg s =
     bind_r (ssub (time msg) (df_last_msg_time s)) (\<lambda>filter_duration.
     bind_r (smul (df_max_skip_duration s) 1000) (\<lambda>max_skip.
       Inr (max_skip < filter_duration \<or> payload msg \<noteq> df_last_msg_payload s)))"

definition skip_text :: "nat \<Rightarrow> string" where
  "skip_text n = ''Skipped '' @ nat_digits (n mod 2 ^ 32) @ '' duplicate messages..''"

definition df_sink_it ::
  "('k, 'f) sink_ops \<Rightarrow> call_env \<Rightarrow> log_msg \<Rightarrow> 'f dup_filter_sink \<Rightarrow> (nat \<Rightarrow> 'k sink)
     \<Rightarrow> (exn option \<times> 'f dup_filter_sink \<times> (nat \<Rightarrow> 'k sink)) res" where
  "df_sink_it ops env msg s sinks =
     map_r (\<lambda>filtered.
       if \<not> filtered then
         (None, s\<lparr>df_skip_counter := (df_skip_counter s + 1) mod 2 ^ 64, df_skipped_msg_log_level := msg_level msg\<rparr>, sinks)
       else
         let buf = skip_text (df_skip_counter s);
             skipped_msg = log_msg_loc (ce_thread env) (ce_now env) (msg_source msg) (logger_name msg)
               (df_skipped_msg_log_level s) buf;
             (e, sinks) = (if 0 < df_skip_counter s \<and> 0 < length buf \<and> length buf < 64
                           then ds_sink_loop ops skipped_msg (ds_sinks s) sinks else (None, sinks))
         in case e of
              Some x \<Rightarrow> (Some x, s, sinks)
            | None \<Rightarrow>
                let (e, sinks) = ds_sink_loop ops msg (ds_sinks s) sinks
                in case e of
                     Some x \<Rightarrow> (Some x, s, sinks)
                   | None \<Rightarrow>
                       (None, s\<lparr>df_last_msg_time := time msg, df_skip_counter := 0, df_last_msg_payload := payload msg\<rparr>, sinks))
       (df_filter msg s)"

text \<open>The calls of a program, up to the first that throws.\<close>

fun df_log_all ::
  "('k, 'f) sink_ops \<Rightarrow> (call_env \<times> log_msg) list \<Rightarrow> 'f dup_filter_sink \<Rightarrow> (nat \<Rightarrow> 'k sink)
     \<Rightarrow> (exn option \<times> 'f dup_filter_sink \<times> (nat \<Rightarrow> 'k sink)) res" where
  "df_log_all ops [] s sinks = Inr (None, s, sinks)"
| "df_log_all ops ((env, msg) # cs) s sinks =
     bind_r (df_sink_it ops env msg s sinks) (\<lambda>(e, s', sinks').
       case e of Some x \<Rightarrow> Inr (Some x, s', sinks') | None \<Rightarrow> df_log_all ops cs s' sinks')"

subsection \<open>The specification: bursts\<close>

text \<open>
  A burst is a message and the repetitions of its text within \<open>D\<close> nanoseconds of it; the next burst begins with another text
  or later. Passed on are the first message of each burst and, before the first of the next one, the number of repetitions.
\<close>

type_synonym df_call = "call_env \<times> log_msg"

definition repeats :: "int \<Rightarrow> df_call \<Rightarrow> df_call \<Rightarrow> bool" where
  "repeats D c c' \<longleftrightarrow> payload (snd c') = payload (snd c) \<and> time (snd c') - time (snd c) \<le> D"

definition burst :: "int \<Rightarrow> df_call list \<Rightarrow> bool" where
  "burst D g \<longleftrightarrow> g \<noteq> [] \<and> list_all (repeats D (hd g)) (tl g)"

definition after_burst :: "df_call list \<Rightarrow> df_call \<Rightarrow> log_msg list" where
  "after_burst g c =
     (if tl g = [] then []
      else [log_msg_loc (ce_thread (fst c)) (ce_now (fst c)) (msg_source (snd c)) (logger_name (snd c)) (msg_level (snd (last g)))
              (''Skipped '' @ nat_digits (length (tl g)) @ '' duplicate messages..'')])"

fun passed :: "df_call list list \<Rightarrow> log_msg list" where
  "passed [] = []"
| "passed [g] = [snd (hd g)]"
| "passed (g # g' # gs) = snd (hd g) # after_burst g (hd g') @ passed (g' # gs)"

definition bursts_of :: "int \<Rightarrow> df_call list \<Rightarrow> df_call list list \<Rightarrow> bool" where
  "bursts_of D cs gs \<longleftrightarrow> concat gs = cs \<and> list_all (burst D) gs \<and> successively (\<lambda>g g'. \<not> repeats D (hd g) (hd g')) gs"

lemma passed_new: "passed (gs @ [g, [c]]) = passed (gs @ [g]) @ after_burst g c @ [snd c]"
  by (induction gs rule: passed.induct) auto

lemma passed_repeat: "g \<noteq> [] \<Longrightarrow> passed (gs @ [g @ [c]]) = passed (gs @ [g])"
  by (induction gs rule: passed.induct) (auto simp: after_burst_def)

lemma successively_snoc:
  "successively P (xs @ [x, y]) \<longleftrightarrow> successively P (xs @ [x]) \<and> P x y"
  by (induction xs) (auto simp: successively_Cons hd_append)

lemma successively_last_cong:
  assumes "\<And>z. P z x = P z y"
  shows "successively P (xs @ [x]) = successively P (xs @ [y])"
  using assms by (induction xs) (auto simp: successively_Cons hd_append)

subsection \<open>Sinks that do not throw\<close>

definition calm :: "('k, 'f) sink_ops \<Rightarrow> bool" where
  "calm ops \<longleftrightarrow> (\<forall>m k. fst (sink_log ops m k) = None)"

definition spread :: "('k, 'f) sink_ops \<Rightarrow> nat list \<Rightarrow> log_msg \<Rightarrow> (nat \<Rightarrow> 'k sink) \<Rightarrow> nat \<Rightarrow> 'k sink" where
  "spread ops is msg sinks = fold (\<lambda>i s. s(i := deliver ops msg (s i))) is sinks"

lemma ds_sink_loop_calm: "calm ops \<Longrightarrow> ds_sink_loop ops msg is sinks = (None, spread ops is msg sinks)"
proof (induction "is" arbitrary: sinks)
  case (Cons i "is")
  have "fst (sink_log ops msg (sink_impl (sinks i))) = None" using Cons.prems by (simp add: calm_def)
  with Cons show ?case
    by (cases "sink_log ops msg (sink_impl (sinks i))") (auto simp: spread_def deliver_def)
qed (simp add: spread_def)

lemma skip_text_short: "0 < length (skip_text n) \<and> length (skip_text n) < 64"
proof -
  have "n mod 2 ^ 32 < 10 ^ 10"
    by (rule less_le_trans [OF mod_less_divisor]) simp_all
  then have "length (nat_digits (n mod 2 ^ 32)) \<le> 10" using length_nat_digits_le by simp
  then show ?thesis by (simp add: skip_text_def)
qed

subsection \<open>The filter implements the specification\<close>

definition df_inv :: "int \<Rightarrow> nat list \<Rightarrow> df_call list \<Rightarrow> df_call list list \<Rightarrow> 'f dup_filter_sink \<Rightarrow> bool" where
  "df_inv D is cs gs s \<longleftrightarrow>
     bursts_of D cs gs \<and> gs \<noteq> [] \<and> ds_sinks s = is \<and> df_max_skip_duration s * 1000 = D \<and>
     df_last_msg_time s = time (snd (hd (last gs))) \<and> df_last_msg_payload s = payload (snd (hd (last gs))) \<and>
     df_skip_counter s = length (tl (last gs)) \<and>
     (tl (last gs) \<noteq> [] \<longrightarrow> df_skipped_msg_log_level s = msg_level (snd (last (last gs))))"

lemma df_inv_repeat:
  assumes "df_inv D is cs (gs @ [g]) s" "repeats D (hd g) c" "Suc (length (tl g)) < 2 ^ 64"
  shows "df_inv D is (cs @ [c]) (gs @ [g @ [c]])
    (s\<lparr>df_skip_counter := (df_skip_counter s + 1) mod 2 ^ 64, df_skipped_msg_log_level := msg_level (snd c)\<rparr>)"
proof -
  have g: "g \<noteq> []" "burst D g" using assms(1) by (auto simp: df_inv_def bursts_of_def burst_def)
  have "successively (\<lambda>g g'. \<not> repeats D (hd g) (hd g')) (gs @ [g @ [c]])"
    using assms(1) g(1) successively_last_cong [of "\<lambda>g g'. \<not> repeats D (hd g) (hd g')" g "g @ [c]" gs]
    by (simp add: df_inv_def bursts_of_def)
  with assms g show ?thesis
    by (auto simp: df_inv_def bursts_of_def burst_def)
qed

lemma df_inv_new_burst:
  assumes "df_inv D is cs (gs @ [g]) s" "\<not> repeats D (hd g) c"
  shows "df_inv D is (cs @ [c]) (gs @ [g, [c]])
    (s\<lparr>df_last_msg_time := time (snd c), df_skip_counter := 0, df_last_msg_payload := payload (snd c)\<rparr>)"
  using assms by (auto simp: df_inv_def bursts_of_def burst_def successively_snoc)

lemma df_sink_it_step:
  assumes inv: "df_inv D is cs gs s" and calm: "calm ops" and D: "in_s64 D"
    and t: "in_s64 (time msg - time (snd (hd (last gs))))" and n: "Suc (length cs) < 2 ^ 32"
  shows "\<exists>gs' s' out. df_sink_it ops env msg s sinks = Inr (None, s', fold (spread ops is) out sinks)
    \<and> df_inv D is (cs @ [(env, msg)]) gs' s' \<and> passed gs' = passed gs @ out"
proof -
  obtain hs g where gs: "gs = hs @ [g]" using inv by (cases gs rule: rev_cases) (auto simp: df_inv_def)
  have g: "g \<noteq> []" and len: "length (tl g) < 2 ^ 32"
    using inv n by (auto simp: gs df_inv_def bursts_of_def burst_def)
  have f: "df_filter msg s = Inr (\<not> repeats D (hd g) (env, msg))"
    using inv t D by (auto simp: df_filter_def df_inv_def gs repeats_def res_simps checked_in)
  show ?thesis
  proof (cases "repeats D (hd g) (env, msg)")
    case True
    then show ?thesis
      using df_inv_repeat [OF inv [unfolded gs] True] len f
      by (intro exI [of _ "hs @ [g @ [(env, msg)]]"] exI [of _ "[]"]) (simp add: df_sink_it_def gs passed_repeat [OF g])
  next
    case False
    have told: "(if 0 < df_skip_counter s \<and> 0 < length (skip_text (df_skip_counter s)) \<and> length (skip_text (df_skip_counter s)) < 64
        then ds_sink_loop ops (log_msg_loc (ce_thread env) (ce_now env) (msg_source msg) (logger_name msg)
               (df_skipped_msg_log_level s) (skip_text (df_skip_counter s))) (ds_sinks s) sinks else (None, sinks)) =
        (None, fold (spread ops is) (after_burst g (env, msg)) sinks)"
    proof -
      have cnt: "df_skip_counter s = length (tl g)" "ds_sinks s = is" using inv by (simp_all add: df_inv_def gs)
      have words: "skip_text (length (tl g)) = ''Skipped '' @ nat_digits (length (tl g)) @ '' duplicate messages..''"
        unfolding skip_text_def using len by (simp only: mod_less)
      show ?thesis
      proof (cases "tl g = []")
        case True
        then show ?thesis by (simp add: cnt after_burst_def)
      next
        case False
        then have "df_skipped_msg_log_level s = msg_level (snd (last g))"
          using inv by (simp add: df_inv_def gs)
        moreover have "0 < length (tl g)" using False by (simp only: length_greater_0_conv not_False_eq_True)
        ultimately show ?thesis
          using skip_text_short [of "length (tl g)"] False
          by (simp only: cnt ds_sink_loop_calm [OF calm] after_burst_def words [symmetric] if_True simp_thms if_False fst_conv snd_conv
              fold_simps)
      qed
    qed
    have "df_sink_it ops env msg s sinks =
        Inr (None, s\<lparr>df_last_msg_time := time msg, df_skip_counter := 0, df_last_msg_payload := payload msg\<rparr>,
             fold (spread ops is) (after_burst g (env, msg) @ [msg]) sinks)"
      using False inv unfolding df_sink_it_def f Let_def told
      by (simp add: ds_sink_loop_calm [OF calm] df_inv_def)
    moreover note df_inv_new_burst [OF inv [unfolded gs] False]
    ultimately show ?thesis
      by (intro exI [of _ "hs @ [g, [(env, msg)]]"] exI [of _ "after_burst g (env, msg) @ [msg]"]) (auto simp: gs passed_new)
  qed
qed

lemma df_log_all_bursts:
  assumes "calm ops" "in_s64 D" "\<forall>c \<in> set (cs @ cs'). \<forall>c' \<in> set (cs @ cs'). in_s64 (time (snd c') - time (snd c))"
    "length (cs @ cs') < 2 ^ 32" "df_inv D is cs gs s"
  shows "\<exists>gs' s' out. df_log_all ops cs' s sinks = Inr (None, s', fold (spread ops is) out sinks)
    \<and> df_inv D is (cs @ cs') gs' s' \<and> passed gs' = passed gs @ out"
  using assms(3-5)
proof (induction cs' arbitrary: cs gs s sinks)
  case Nil
  then show ?case by (intro exI [of _ gs] exI [of _ s] exI [of _ "[]"]) simp
next
  case (Cons c cs')
  obtain env msg where c: "c = (env, msg)" by (cases c)
  have "hd (last gs) \<in> set cs"
    using Cons.prems(3) by (cases gs rule: rev_cases) (auto simp: df_inv_def bursts_of_def burst_def)
  then have "in_s64 (time msg - time (snd (hd (last gs))))" using Cons.prems(1) c by auto
  then obtain gs1 s1 out1 where 1: "df_sink_it ops env msg s sinks = Inr (None, s1, fold (spread ops is) out1 sinks)"
      "df_inv D is (cs @ [c]) gs1 s1" "passed gs1 = passed gs @ out1"
    using df_sink_it_step [OF Cons.prems(3) assms(1,2)] Cons.prems(2) c by force
  obtain gs' s' out where 2: "df_log_all ops cs' s1 (fold (spread ops is) out1 sinks) =
      Inr (None, s', fold (spread ops is) out (fold (spread ops is) out1 sinks))"
      "df_inv D is ((cs @ [c]) @ cs') gs' s'" "passed gs' = passed gs1 @ out"
    using Cons.IH [OF _ _ 1(2)] Cons.prems(1,2) by (metis append_Cons append_Nil append_assoc)
  show ?case
    by (intro exI [of _ gs'] exI [of _ s'] exI [of _ "out1 @ out"]) (use 1 2 c in simp)
qed

lemma add_sinks: "ds_sinks (fold ds_add_sink is s) = ds_sinks s @ is"
    "df_last_msg_time (fold ds_add_sink is s) = df_last_msg_time s" "df_skip_counter (fold ds_add_sink is s) = df_skip_counter s"
    "df_last_msg_payload (fold ds_add_sink is s) = df_last_msg_payload s"
    "df_max_skip_duration (fold ds_add_sink is s) = df_max_skip_duration s"
  by (induction "is" arbitrary: s) (simp_all add: ds_add_sink_def)

lemma df_first:
  assumes "calm ops" "in_s64 (md * 1000)" "in_s64 (time (snd c))" "payload (snd c) \<noteq> []"
  shows "\<exists>s. df_sink_it ops (fst c) (snd c) (fold ds_add_sink is (dup_filter_sink_new f md)) sinks = Inr (None, s, spread ops is (snd c) sinks)
    \<and> df_inv (md * 1000) is [c] [[c]] s"
  using assms
  by (simp add: df_sink_it_def df_filter_def add_sinks dup_filter_sink_new_def checked_in ds_sink_loop_calm df_inv_def bursts_of_def
      burst_def)

subsection \<open>Properties\<close>

text \<open>
  C40. The filter of duplicates collapses bursts and counts what it drops: over sinks that do not throw, for fewer than \<open>2 ^ 32\<close> log
  calls of which the first has a text, there is a division of the calls into bursts (a message and repetitions of its text
  within the limit, each next burst beginning with another text or after the limit) such that the sinks receive exactly the first message of
  each burst and, before the first of the next one, a message with the exact number of repetitions dropped, on the level of
  the last of them; the repetitions of the last burst are those the counter still holds.
\<close>

theorem dup_filter_collapses_bursts:
  assumes "calm ops" and "in_s64 (md * 1000)" and "\<forall>c \<in> set cs. \<forall>c' \<in> set cs. in_s64 (time (snd c') - time (snd c))"
    and "length cs < 2 ^ 32" and "cs \<noteq> []" and "in_s64 (time (snd (hd cs)))" and "payload (snd (hd cs)) \<noteq> []"
  shows "\<exists>gs s. bursts_of (md * 1000) cs gs
    \<and> df_log_all ops cs (fold ds_add_sink is (dup_filter_sink_new f md)) sinks =
        Inr (None, s, fold (spread ops is) (passed gs) sinks)
    \<and> df_skip_counter s = length (tl (last gs))"
proof -
  obtain c cs' where cs: "cs = c # cs'" using assms(5) by (cases cs) auto
  obtain s1 where 1: "df_sink_it ops (fst c) (snd c) (fold ds_add_sink is (dup_filter_sink_new f md)) sinks =
      Inr (None, s1, spread ops is (snd c) sinks)" "df_inv (md * 1000) is [c] [[c]] s1"
    using df_first [OF assms(1,2)] assms(6,7) cs by force
  have "\<forall>c' \<in> set ([c] @ cs'). \<forall>c'' \<in> set ([c] @ cs'). in_s64 (time (snd c'') - time (snd c'))" "length ([c] @ cs') < 2 ^ 32"
    using assms(3,4) cs by simp_all
  from df_log_all_bursts [OF assms(1,2) this 1(2)] obtain gs s out where
      2: "df_log_all ops cs' s1 (spread ops is (snd c) sinks) = Inr (None, s, fold (spread ops is) out (spread ops is (snd c) sinks))"
      "df_inv (md * 1000) is ([c] @ cs') gs s" "passed gs = passed [[c]] @ out"
    by blast
  show ?thesis
    by (rule exI [of _ gs], rule exI [of _ s]) (use 1 2 cs in \<open>cases c, simp add: df_inv_def\<close>)
qed

definition keep_sink :: "(log_msg list, unit) sink_ops" where
  "keep_sink = \<lparr>sink_log = (\<lambda>m ms. (None, ms @ [m])), sink_flush = (\<lambda>ms. (None, ms)), sink_set_formatter = (\<lambda>_ ms. ms), formatter_clone = id\<rparr>"

theorem dup_filter_collapses_bursts_witness:
  "\<exists>gs s. bursts_of 5000000000
      (map (\<lambda>(t, x). (env_at t, log_msg_default\<lparr>time := t, payload := x\<rparr>))
         [(1, ''Hello''), (2, ''Hello''), (3, ''Hello''), (4, ''Different Hello'')]) gs
    \<and> df_log_all keep_sink
        (map (\<lambda>(t, x). (env_at t, log_msg_default\<lparr>time := t, payload := x\<rparr>))
          [(1, ''Hello''), (2, ''Hello''), (3, ''Hello''), (4, ''Different Hello'')])
        (fold ds_add_sink [0] (dup_filter_sink_new () 5000000)) (\<lambda>i. \<lparr>sink_level = Lv_trace, sink_impl = []\<rparr>) =
      Inr (None, s, fold (spread keep_sink [0]) (passed gs) (\<lambda>i. \<lparr>sink_level = Lv_trace, sink_impl = []\<rparr>))
    \<and> df_skip_counter s = length (tl (last gs))"
proof -
  have "calm keep_sink" by (simp add: calm_def keep_sink_def)
  from dup_filter_collapses_bursts [OF this, of 5000000
      "map (\<lambda>(t, x). (env_at t, log_msg_default\<lparr>time := t, payload := x\<rparr>))
         [(1, ''Hello''), (2, ''Hello''), (3, ''Hello''), (4, ''Different Hello'')]" "[0]" "()"
      "\<lambda>i. \<lparr>sink_level = Lv_trace, sink_impl = []\<rparr>"]
  show ?thesis by (simp add: in_s64_def)
qed

end
