(* ===== verification/Log_Console.thy ===== *)
theory Log_Console
  imports Log_Lines
begin

section \<open>Logging: console sinks (spdlog)\<close>

text \<open>
  The console sinks of \<open>sinks/stdout_sinks-inl.h\<close> and \<open>sinks/ansicolor_sink-inl.h\<close>. A console is the text written to it so far;
  a failed write is ignored by the code. The coloured sink wraps the range of the line that the
  formatter marks in colour codes. Whether the console is a terminal, and the environment variables, are parameters. The
  formatters of the sinks are pattern formatters. An exception of \<open>std::array::at\<close> is a value beside the state it leaves.
\<close>

subsection \<open>Terminals\<close>

datatype color_mode = Mode_always | Mode_automatic | Mode_never

record terminal =
  in_terminal :: bool
  getenv :: "string \<Rightarrow> string option"

fun strstr :: "string \<Rightarrow> string \<Rightarrow> bool" where
  "strstr [] sub = (sub = [])"
| "strstr (c # s) sub = (take (length sub) (c # s) = sub \<or> strstr s sub)"

definition terms :: "string list" where
  "terms = [''ansi'', ''color'', ''console'', ''cygwin'', ''gnome'', ''konsole'', ''kterm'', ''linux'', ''msys'',
            ''putty'', ''rxvt'', ''screen'', ''vt100'', ''xterm'', ''alacritty'', ''vt102'']"

definition is_color_terminal :: "terminal \<Rightarrow> bool" where
  "is_color_terminal tm =
     (if getenv tm ''COLORTERM'' \<noteq> None then True
      else case getenv tm ''TERM'' of
             None \<Rightarrow> False
           | Some env_term \<Rightarrow> list_ex (strstr env_term) terms)"

definition default_eol :: string where
  "default_eol = [CHR 0x0A]"

subsection \<open>The plain console\<close>

record 'c stdout_sink =
  so_file :: string
  so_formatter :: "'c pattern_formatter"

definition stdout_sink_new :: "string \<Rightarrow> 'c stdout_sink" where
  "stdout_sink_new file = \<lparr>so_file = file, so_formatter = pattern_formatter_default Time_local default_eol\<rparr>"

definition so_log :: "'c custom_ops \<Rightarrow> os_env \<Rightarrow> log_msg \<Rightarrow> 'c stdout_sink \<Rightarrow> (log_msg \<times> 'c stdout_sink) res" where
  "so_log ops env msg s =
     bind_r (pf_format ops env msg (so_formatter s) []) (\<lambda>(pf, msg, formatted).
       Inr (msg, s\<lparr>so_formatter := pf, so_file := so_file s @ formatted\<rparr>))"

definition so_set_pattern :: "'c custom_ops \<Rightarrow> os_env \<Rightarrow> string \<Rightarrow> 'c stdout_sink \<Rightarrow> 'c stdout_sink" where
  "so_set_pattern ops env pat s = s\<lparr>so_formatter := pattern_formatter_new ops env pat Time_local default_eol Map.empty\<rparr>"

definition so_set_formatter :: "'c pattern_formatter \<Rightarrow> 'c stdout_sink \<Rightarrow> 'c stdout_sink" where
  "so_set_formatter sink_formatter s = s\<lparr>so_formatter := sink_formatter\<rparr>"

subsection \<open>The coloured console\<close>

definition esc :: "string \<Rightarrow> string" where
  "esc code = CHR 0x1B # CHR ''['' # code @ ''m''"

definition ac_reset :: string where "ac_reset = esc []"
definition ac_white :: string where "ac_white = esc ''37''"
definition ac_cyan :: string where "ac_cyan = esc ''36''"
definition ac_green :: string where "ac_green = esc ''32''"
definition yellow_bold :: string where "yellow_bold = esc ''33'' @ esc ''1''"
definition red_bold :: string where "red_bold = esc ''31'' @ esc ''1''"
definition bold_on_red :: string where "bold_on_red = esc ''1'' @ esc ''41''"

record 'c ansicolor_sink =
  ac_file :: string
  should_do_colors :: bool
  ac_formatter :: "'c pattern_formatter"
  ac_colors :: "string list"

definition set_color_mode :: "terminal \<Rightarrow> color_mode \<Rightarrow> 'c ansicolor_sink \<Rightarrow> 'c ansicolor_sink" where
  "set_color_mode tm mode s =
     (case mode of
        Mode_always \<Rightarrow> s\<lparr>should_do_colors := True\<rparr>
      | Mode_automatic \<Rightarrow> s\<lparr>should_do_colors := in_terminal tm \<and> is_color_terminal tm\<rparr>
      | Mode_never \<Rightarrow> s\<lparr>should_do_colors := False\<rparr>)"

definition ansicolor_sink_new :: "terminal \<Rightarrow> string \<Rightarrow> color_mode \<Rightarrow> 'c ansicolor_sink" where
  "ansicolor_sink_new tm file mode =
     (let s = \<lparr>ac_file = file, should_do_colors = False, ac_formatter = pattern_formatter_default Time_local default_eol,
               ac_colors = replicate 7 []\<rparr>;
          s = set_color_mode tm mode s
      in s\<lparr>ac_colors := (ac_colors s)[level_code Lv_trace := ac_white, level_code Lv_debug := ac_cyan,
             level_code Lv_info := ac_green, level_code Lv_warn := yellow_bold, level_code Lv_err := red_bold,
             level_code Lv_critical := bold_on_red, level_code Lv_off := ac_reset]\<rparr>)"

text \<open>\<open>std::array::at\<close> throws for the level \<open>n_levels\<close>.\<close>

definition array_at_error :: string where
  "array_at_error = ''array::at''"

definition set_color :: "level_enum \<Rightarrow> string \<Rightarrow> 'c ansicolor_sink \<Rightarrow> string option \<times> 'c ansicolor_sink" where
  "set_color color_level color s =
     (if level_code color_level < length (ac_colors s)
      then (None, s\<lparr>ac_colors := (ac_colors s)[level_code color_level := color]\<rparr>)
      else (Some array_at_error, s))"

definition print_ccode :: "string \<Rightarrow> 'c ansicolor_sink \<Rightarrow> 'c ansicolor_sink" where
  "print_ccode color_code s = s\<lparr>ac_file := ac_file s @ color_code\<rparr>"

text \<open>The number of bytes is the difference of two values of \<open>size_t\<close>, which wraps when it is negative; bytes beyond the buffer are not there to be read.\<close>

definition print_range :: "memory_buf \<Rightarrow> nat \<Rightarrow> nat \<Rightarrow> 'c ansicolor_sink \<Rightarrow> 'c ansicolor_sink res" where
  "print_range formatted start stop s =
     (let n_bytes = (if start \<le> stop then stop - start else 2 ^ 64 - (start - stop))
      in if start + n_bytes \<le> length formatted
         then Inr (s\<lparr>ac_file := ac_file s @ take n_bytes (drop start formatted)\<rparr>)
         else Inl OutOfBounds)"

definition ac_log ::
  "'c custom_ops \<Rightarrow> os_env \<Rightarrow> log_msg \<Rightarrow> 'c ansicolor_sink \<Rightarrow> (string option \<times> log_msg \<times> 'c ansicolor_sink) res" where
  "ac_log ops env msg s =
     (let msg = msg\<lparr>color_range_start := 0, color_range_end := 0\<rparr>
      in bind_r (pf_format ops env msg (ac_formatter s) []) (\<lambda>(pf, msg, formatted).
         let s = s\<lparr>ac_formatter := pf\<rparr>
         in if should_do_colors s \<and> color_range_start msg < color_range_end msg then
              bind_r (print_range formatted 0 (color_range_start msg) s) (\<lambda>s.
                if \<not> level_code (msg_level msg) < length (ac_colors s) then Inr (Some array_at_error, msg, s)
                else
                  let s = print_ccode (ac_colors s ! level_code (msg_level msg)) s
                  in bind_r (print_range formatted (color_range_start msg) (color_range_end msg) s) (\<lambda>s.
                     let s = print_ccode ac_reset s
                     in map_r (\<lambda>s. (None, msg, s)) (print_range formatted (color_range_end msg) (length formatted) s)))
            else map_r (\<lambda>s. (None, msg, s)) (print_range formatted 0 (length formatted) s)))"

definition ac_set_pattern :: "'c custom_ops \<Rightarrow> os_env \<Rightarrow> string \<Rightarrow> 'c ansicolor_sink \<Rightarrow> 'c ansicolor_sink" where
  "ac_set_pattern ops env pat s = s\<lparr>ac_formatter := pattern_formatter_new ops env pat Time_local default_eol Map.empty\<rparr>"

definition ac_set_formatter :: "'c pattern_formatter \<Rightarrow> 'c ansicolor_sink \<Rightarrow> 'c ansicolor_sink" where
  "ac_set_formatter sink_formatter s = s\<lparr>ac_formatter := sink_formatter\<rparr>"

text \<open>A console logs messages one after another, up to the first exception.\<close>

fun log_seq ::
  "(log_msg \<Rightarrow> 's \<Rightarrow> (string option \<times> log_msg \<times> 's) res) \<Rightarrow> log_msg list \<Rightarrow> 's \<Rightarrow> (string option \<times> 's) res" where
  "log_seq log [] s = Inr (None, s)"
| "log_seq log (m # ms) s =
     bind_r (log m s) (\<lambda>(e, m', s').
       case e of Some x \<Rightarrow> Inr (Some x, s') | None \<Rightarrow> log_seq log ms s')"

subsection \<open>Text that is never cut\<close>

text \<open>A flag that does not truncate only appends to the buffer, so a marked range stays inside it.\<close>

fun cutless :: "'c flag_formatter \<Rightarrow> bool" where
  "cutless (Full_f p st) \<longleftrightarrow> True"
| "cutless Color_start_f \<longleftrightarrow> True"
| "cutless Color_stop_f \<longleftrightarrow> True"
| "cutless (Ch_f c) \<longleftrightarrow> True"
| "cutless (Aggregate_f s) \<longleftrightarrow> True"
| "cutless (Custom_f p c) \<longleftrightarrow> False"
| "cutless f \<longleftrightarrow> \<not> pi_truncate (flag_padding f)"

named_theorems growing

lemma pad2_grows [simp]: "length d \<le> length (pad2 n d)"
  by (simp add: pad2_def push_back_def append_int_def)

lemma pad2_grow_trans [growing]: "k \<le> length d \<Longrightarrow> k \<le> length (pad2 n d)"
  using pad2_grows [of d n] by linarith

lemma append_grow [growing]:
  "k \<le> length d \<Longrightarrow> k \<le> length (append_string_view v d)" "k \<le> length d \<Longrightarrow> k \<le> length (push_back c d)"
  "k \<le> length d \<Longrightarrow> k \<le> length (append_int i d)" "k \<le> length d \<Longrightarrow> k \<le> length (pad_uint n w d)"
  by (simp_all add: append_string_view_def push_back_def append_int_def pad_uint_def)

lemma pad369_grow [growing]:
  "k \<le> length d \<Longrightarrow> k \<le> length (pad3 n d)" "k \<le> length d \<Longrightarrow> k \<le> length (pad6 n d)" "k \<le> length d \<Longrightarrow> k \<le> length (pad9 n d)"
  by (simp_all add: pad3_def pad6_def pad9_def growing)

lemma with_padder_grow:
  assumes "with_padder P p n wr dest = Inr d" "\<not> pi_truncate p" "\<And>d. length d \<le> length (wr d)"
  shows "length dest \<le> length d"
proof (cases P)
  case Scoped
  have pad: "pad_it c x = Inr y \<Longrightarrow> length x \<le> length y" for c x y
    by (auto simp: pad_it_def append_string_view_def split: if_splits)
  obtain r x where x: "scoped_padder_begin n p dest = Inr (r, x)" "scoped_padder_end p r (wr x) = Inr d"
    using assms(1) Scoped by (auto simp: with_padder_def bind_r_Inr_iff)
  have "length dest \<le> length x"
    using x(1) by (auto simp: scoped_padder_begin_def Let_def bind_r_Inr_iff split: if_splits dest: pad)
  also have "\<dots> \<le> length (wr x)" by (rule assms(3))
  also have "\<dots> \<le> length d"
    using x(2) assms(2) by (auto simp: scoped_padder_end_def split: if_splits dest: pad)
  finally show ?thesis .
qed (use assms in \<open>auto simp: with_padder_def\<close>)

lemma format_mdc_grow: "format_mdc P p ctx dest = Inr d \<Longrightarrow> \<not> pi_truncate p \<Longrightarrow> length dest \<le> length d"
proof (induction ctx arbitrary: dest)
  case (Cons kv it)
  obtain k v where kv: "kv = (k, v)" by (cases kv)
  with Cons.prems(1) obtain x n where x: "with_padder P p n (\<lambda>d.
      let d = append_string_view k d; d = append_string_view '':'' d; d = append_string_view v d
      in if it \<noteq> [] then append_string_view '' '' d else d) dest = Inr x" "format_mdc P p it x = Inr d"
    by (auto simp: Let_def bind_r_Inr_iff)
  from with_padder_grow [OF x(1) Cons.prems(2)] have "length dest \<le> length x" by (simp add: Let_def append_string_view_def)
  with Cons.IH [OF x(2) Cons.prems(2)] show ?case by simp
qed simp

lemma formatters_grow:
  assumes "\<not> pi_truncate p"
  shows "name_formatter P p m dest = Inr d \<Longrightarrow> length dest \<le> length d" "level_formatter P p m dest = Inr d \<Longrightarrow> length dest \<le> length d"
    "short_level_formatter P p m dest = Inr d \<Longrightarrow> length dest \<le> length d" "t_formatter P p m dest = Inr d \<Longrightarrow> length dest \<le> length d"
    "v_formatter P p m dest = Inr d \<Longrightarrow> length dest \<le> length d" "a_formatter P p t dest = Inr d \<Longrightarrow> length dest \<le> length d"
    "A_formatter P p t dest = Inr d \<Longrightarrow> length dest \<le> length d" "b_formatter P p t dest = Inr d \<Longrightarrow> length dest \<le> length d"
    "B_formatter P p t dest = Inr d \<Longrightarrow> length dest \<le> length d" "c_formatter P p t dest = Inr d \<Longrightarrow> length dest \<le> length d"
    "C_formatter P p t dest = Inr d \<Longrightarrow> length dest \<le> length d" "Y_formatter P p t dest = Inr d \<Longrightarrow> length dest \<le> length d"
    "D_formatter P p t dest = Inr d \<Longrightarrow> length dest \<le> length d" "m_formatter P p t dest = Inr d \<Longrightarrow> length dest \<le> length d"
    "d_formatter P p t dest = Inr d \<Longrightarrow> length dest \<le> length d" "H_formatter P p t dest = Inr d \<Longrightarrow> length dest \<le> length d"
    "I_formatter P p t dest = Inr d \<Longrightarrow> length dest \<le> length d" "M_formatter P p t dest = Inr d \<Longrightarrow> length dest \<le> length d"
    "S_formatter P p t dest = Inr d \<Longrightarrow> length dest \<le> length d" "e_formatter P p m dest = Inr d \<Longrightarrow> length dest \<le> length d"
    "f_formatter P p m dest = Inr d \<Longrightarrow> length dest \<le> length d" "F_formatter P p m dest = Inr d \<Longrightarrow> length dest \<le> length d"
    "E_formatter P p m dest = Inr d \<Longrightarrow> length dest \<le> length d" "p_formatter P p t dest = Inr d \<Longrightarrow> length dest \<le> length d"
    "r_formatter P p t dest = Inr d \<Longrightarrow> length dest \<le> length d" "R_formatter P p t dest = Inr d \<Longrightarrow> length dest \<le> length d"
    "T_formatter P p t dest = Inr d \<Longrightarrow> length dest \<le> length d" "pid_formatter env P p dest = Inr d \<Longrightarrow> length dest \<le> length d"
  using assms by (auto simp: formatter_defs Let_def bind_r_Inr_iff growing dest!: with_padder_grow)

lemma source_formatters_grow:
  assumes "\<not> pi_truncate p"
  shows "source_location_formatter P p m dest = Inr d \<Longrightarrow> length dest \<le> length d"
    "source_filename_formatter P p m dest = Inr d \<Longrightarrow> length dest \<le> length d"
    "short_filename_formatter P p m dest = Inr d \<Longrightarrow> length dest \<le> length d"
    "source_linenum_formatter P p m dest = Inr d \<Longrightarrow> length dest \<le> length d"
    "source_funcname_formatter P p m dest = Inr d \<Longrightarrow> length dest \<le> length d"
    "mdc_formatter env P p dest = Inr d \<Longrightarrow> length dest \<le> length d"
  using assms
  by (auto simp: source_formatter_defs mdc_formatter_def Let_def bind_r_Inr_iff growing split: if_splits
      dest!: with_padder_grow format_mdc_grow)

lemma stateful_formatters_grow:
  "z_formatter env P p m t z dest = Inr (z', d) \<Longrightarrow> \<not> pi_truncate p \<Longrightarrow> length dest \<le> length d"
  "elapsed_formatter u P p m l dest = Inr (l', d) \<Longrightarrow> \<not> pi_truncate p \<Longrightarrow> length dest \<le> length d"
  by (auto simp: z_formatter_def elapsed_formatter_def Let_def bind_r_Inr_iff map_r_Inr_iff growing dest!: with_padder_grow)

definition range_in :: "log_msg \<Rightarrow> memory_buf \<Rightarrow> bool" where
  "range_in m d \<longleftrightarrow> color_range_start m \<le> length d \<and> color_range_end m \<le> length d"

lemma range_in_longer: "range_in m d \<Longrightarrow> length d \<le> length d' \<Longrightarrow> range_in m d'"
  by (auto simp: range_in_def)

lemma full_formatter_range:
  assumes "full_formatter env m t st dest = Inr (st', m', d)"
  shows "length dest \<le> length d \<and> range_in m' d \<and> msg_level m' = msg_level m"
proof -
  have src: "full_source m x = Inr y \<Longrightarrow> length x \<le> length y" for x y
    by (auto simp: full_source_def Let_def bind_r_Inr_iff push_back_def append_string_view_def append_int_def split: if_splits)
  have mdc: "full_mdc env x = Inr y \<Longrightarrow> length x \<le> length y" for x y
    by (auto simp: full_mdc_def bind_r_Inr_iff push_back_def padding_info_default_def split: if_splits dest!: format_mdc_grow)
  have pad3: "length x \<le> length (pad3 n x)" for n x by (simp add: growing)
  show ?thesis
    using assms pad3 [of "dest @ cached_datetime (full_cache m t st)" "nat (time_fraction ns_ms (time m) mod 2 ^ 32)"]
    by (auto simp: full_formatter_def Let_def bind_r_Inr_iff range_in_def push_back_def append_string_view_def
        dest!: src mdc split: if_splits)
qed

definition range_step :: "memory_buf \<Rightarrow> log_msg \<Rightarrow> ('c flag_formatter \<times> log_msg \<times> memory_buf) res \<Rightarrow> bool" where
  "range_step dest m r \<longleftrightarrow> (\<forall>f' m' d. r = Inr (f', m', d) \<longrightarrow>
     cutless f' \<and> length dest \<le> length d \<and> (range_in m dest \<longrightarrow> range_in m' d) \<and> msg_level m' = msg_level m)"

lemma plain_f_range: "cutless f \<Longrightarrow> (\<And>d. r = Inr d \<Longrightarrow> length dest \<le> length d) \<Longrightarrow> range_step dest m (plain_f f m r)"
  by (auto simp: range_step_def plain_f_def map_r_Inr_iff intro: range_in_longer)

lemmas grow_elims = formatters_grow [rotated] source_formatters_grow [rotated]

lemma flag_format_range:
  assumes "cutless f"
  shows "range_step dest m (flag_format ops env t f m dest)"
proof (cases f)
  case (Full_f p st)
  then show ?thesis
    by (auto simp: flag_format_def range_step_def map_r_Inr_iff dest!: full_formatter_range)
next
  case (Z_f P p z)
  then show ?thesis using assms
    by (auto simp: flag_format_def range_step_def map_r_Inr_iff intro: range_in_longer dest: stateful_formatters_grow)
next
  case (Elapsed_f u P p l)
  then show ?thesis using assms
    by (auto simp: flag_format_def range_step_def map_r_Inr_iff intro: range_in_longer dest: stateful_formatters_grow)
qed (use assms in \<open>simp_all add: flag_format_def\<close>,
  (rule plain_f_range, simp, erule grow_elims, simp |
   simp add: range_step_def range_in_def color_start_formatter_def color_stop_formatter_def ch_formatter_def
     aggregate_formatter_def push_back_def append_string_view_def)+)

lemma run_formatters_range:
  assumes "run_formatters ops env t fs m dest = Inr (fs', m', d)" "list_all cutless fs" "range_in m dest"
  shows "list_all cutless fs' \<and> range_in m' d \<and> msg_level m' = msg_level m"
  using assms
proof (induction fs arbitrary: fs' m dest)
  case (Cons f fs)
  then obtain f1 m1 d1 fs1 where 1: "flag_format ops env t f m dest = Inr (f1, m1, d1)"
      "run_formatters ops env t fs m1 d1 = Inr (fs1, m', d)" "fs' = f1 # fs1"
    by (auto simp: bind_r_Inr_iff map_r_Inr_iff)
  with flag_format_range [of f dest m ops env t] Cons.prems(2,3) have "cutless f1" "range_in m1 d1" "msg_level m1 = msg_level m"
    by (simp_all add: range_step_def)
  with Cons.IH [OF 1(2)] Cons.prems(2) 1(3) show ?case by simp
qed simp

lemma pf_format_range:
  assumes "pf_format ops env m pf [] = Inr (pf', m', l)" "list_all cutless (formatters pf)" "range_in m []"
  shows "list_all cutless (formatters pf') \<and> range_in m' l \<and> msg_level m' = msg_level m"
proof -
  have "formatters (refresh_tm env m pf) = formatters pf" by (simp add: refresh_tm_def Let_def)
  with assms run_formatters_range show ?thesis
    by (fastforce simp: pf_format_def Let_def map_r_Inr_iff append_string_view_def range_in_def)
qed

text \<open>A pattern without an exclamation mark asks for no truncation.\<close>

lemma read_width_suffix: "set (snd (read_width w it)) \<subseteq> set it"
  by (induction w it rule: read_width.induct) auto

lemma handle_padspec_cutless:
  assumes "CHR ''!'' \<notin> set it"
  shows "\<not> pi_truncate (fst (handle_padspec it))" and "CHR ''!'' \<notin> set (snd (handle_padspec it))"
proof -
  obtain s it1 where m: "pad_side_mark it = (s, it1)" by (cases "pad_side_mark it")
  have it1: "it \<noteq> [] \<Longrightarrow> CHR ''!'' \<notin> set it1"
    using m assms by (cases it) (auto simp: pad_side_mark_def split: if_splits)
  obtain w it2 where r: "read_width (digit_val (hd it1)) (tl it1) = (w, it2)" by (cases "read_width (digit_val (hd it1)) (tl it1)")
  have it2: "it \<noteq> [] \<Longrightarrow> it1 \<noteq> [] \<Longrightarrow> CHR ''!'' \<notin> set it2"
    using read_width_suffix [of "digit_val (hd it1)" "tl it1"] it1 r by (cases it1) auto
  then have hd: "it \<noteq> [] \<Longrightarrow> it1 \<noteq> [] \<Longrightarrow> it2 \<noteq> [] \<Longrightarrow> hd it2 \<noteq> CHR ''!''" using hd_in_set [of it2] by metis
  show "\<not> pi_truncate (fst (handle_padspec it))" "CHR ''!'' \<notin> set (snd (handle_padspec it))"
    using it1 it2 hd assms m r by (auto simp: handle_padspec_def padding_info_default_def padding_info_new_def)
qed

lemma builtin_flags_cutless:
  fixes f :: "'c flag_formatter"
  shows "builtin_flag_1 P c p = Some (f, need) \<Longrightarrow> \<not> pi_truncate p \<Longrightarrow> cutless f"
    and "builtin_flag_2 env P c p = Some (f, need) \<Longrightarrow> \<not> pi_truncate p \<Longrightarrow> cutless f"
proof -
  have *: "\<not> pi_truncate p \<Longrightarrow> pred_option (\<lambda>(f :: 'c flag_formatter, need). cutless f) (builtin_flag_1 P c p)"
    "\<not> pi_truncate p \<Longrightarrow> pred_option (\<lambda>(f :: 'c flag_formatter, need). cutless f) (builtin_flag_2 env P c p)"
    by (simp_all add: builtin_flag_1_def builtin_flag_2_def)
  show "builtin_flag_1 P c p = Some (f, need) \<Longrightarrow> \<not> pi_truncate p \<Longrightarrow> cutless f"
    "builtin_flag_2 env P c p = Some (f, need) \<Longrightarrow> \<not> pi_truncate p \<Longrightarrow> cutless f"
    using * by (metis (no_types, lifting) case_prodD option.pred_inject(2))+
qed

lemma handle_flag_cutless:
  assumes "list_all cutless (formatters pf)" "custom_handlers pf = Map.empty" "\<not> pi_truncate p"
  shows "list_all cutless (formatters (handle_flag ops env P c p pf))"
    and "custom_handlers (handle_flag ops env P c p pf) = Map.empty"
  using assms by (auto simp: handle_flag_def unknown_flag_def dest: builtin_flags_cutless split: option.splits)

lemma compile_loop_cutless:
  "CHR ''!'' \<notin> set it \<Longrightarrow> list_all cutless (formatters pf) \<Longrightarrow> custom_handlers pf = Map.empty \<Longrightarrow>
   list_all cutless (formatters (compile_loop ops env it uc pf))"
proof (induction ops env it uc pf rule: compile_loop.induct)
  case (2 ops env c it uc pf)
  have fl: "list_all cutless (formatters (flush_chars uc pf))" "custom_handlers (flush_chars uc pf) = Map.empty"
    using 2 by (auto simp: flush_chars_def split: option.splits)
  show ?case
    using 2 fl handle_padspec_cutless [of it] by (auto simp: Let_def handle_flag_cutless split: list.split)
qed (simp add: flush_chars_def split: option.split)

lemma pattern_formatter_cutless:
  "CHR ''!'' \<notin> set pat \<Longrightarrow> list_all cutless (formatters (pattern_formatter_new ops env pat tt el Map.empty))"
  unfolding pattern_formatter_new_def compile_pattern_def by (rule compile_loop_cutless) simp_all

subsection \<open>Lines do not depend on the marked range\<close>

definition unmarked :: "log_msg \<Rightarrow> log_msg" where
  "unmarked m = m\<lparr>color_range_start := 0, color_range_end := 0\<rparr>"

lemma unmarked_fields [simp]:
  "logger_name (unmarked m) = logger_name m" "msg_level (unmarked m) = msg_level m" "time (unmarked m) = time m"
  "thread_id (unmarked m) = thread_id m" "msg_source (unmarked m) = msg_source m" "payload (unmarked m) = payload m"
  "color_range_start (unmarked m) = 0" "color_range_end (unmarked m) = 0"
  "unmarked (unmarked m) = unmarked m" "unmarked (m\<lparr>color_range_start := i\<rparr>) = unmarked m" "unmarked (m\<lparr>color_range_end := i\<rparr>) = unmarked m"
  by (simp_all add: unmarked_def)

lemma msg_ok_unmarked [simp]: "msg_ok (unmarked m) = msg_ok m"
  by (simp add: msg_ok_def)

definition forget :: "('x \<times> log_msg \<times> memory_buf) res \<Rightarrow> ('x \<times> log_msg \<times> memory_buf) res" where
  "forget r = map_r (\<lambda>(x, m, d). (x, unmarked m, d)) r"

lemma map_r_map_r: "map_r g (map_r f r) = map_r (\<lambda>x. g (f x)) r"
  by (cases r) simp_all

lemma forget_bind: "forget (bind_r r f) = bind_r r (\<lambda>x. forget (f x))"
  by (cases r) (simp_all add: forget_def)

lemma forget_Inr [simp]: "forget (Inr (x, m, d)) = Inr (x, unmarked m, d)"
  by (simp add: forget_def)

lemma full_formatter_unmarked: "forget (full_formatter env (unmarked m) t st dest) = forget (full_formatter env m t st dest)"
proof -
  have *: "full_source (unmarked m) = full_source m" "full_cache (unmarked m) t st = full_cache m t st"
    by (auto simp: full_source_def full_cache_def)
  show ?thesis
    by (simp add: full_formatter_def forget_bind Let_def *)
qed

lemma formatters_unmarked:
  "name_formatter P p (unmarked m) = name_formatter P p m" "level_formatter P p (unmarked m) = level_formatter P p m"
  "short_level_formatter P p (unmarked m) = short_level_formatter P p m" "t_formatter P p (unmarked m) = t_formatter P p m"
  "v_formatter P p (unmarked m) = v_formatter P p m" "e_formatter P p (unmarked m) = e_formatter P p m"
  "f_formatter P p (unmarked m) = f_formatter P p m" "F_formatter P p (unmarked m) = F_formatter P p m"
  "E_formatter P p (unmarked m) = E_formatter P p m" "z_formatter env P p (unmarked m) = z_formatter env P p m"
  "elapsed_formatter u P p (unmarked m) = elapsed_formatter u P p m"
  "source_location_formatter P p (unmarked m) = source_location_formatter P p m"
  "source_filename_formatter P p (unmarked m) = source_filename_formatter P p m"
  "short_filename_formatter P p (unmarked m) = short_filename_formatter P p m"
  "source_linenum_formatter P p (unmarked m) = source_linenum_formatter P p m"
  "source_funcname_formatter P p (unmarked m) = source_funcname_formatter P p m"
  by (intro ext; simp add: formatter_defs source_formatter_defs z_formatter_def get_cached_offset_def elapsed_formatter_def cong: if_cong)+

lemma flag_format_unmarked:
  fixes f :: "'c flag_formatter"
  assumes "flag_ok f"
  shows "forget (flag_format ops env t f (unmarked m) dest) = forget (flag_format ops env t f m dest)"
proof (cases f)
  case (Full_f p st)
  have "forget (map_r (\<lambda>(st', msg', d). (Full_f p st' :: 'c flag_formatter, msg', d)) r) =
      map_r (\<lambda>(st', msg', d). (Full_f p st', msg', d)) (forget r)" for r
    by (cases r) (auto simp: forget_def)
  then show ?thesis by (simp add: Full_f flag_format_def full_formatter_unmarked)
qed (use assms in \<open>simp_all add: flag_format_def plain_f_def formatters_unmarked color_start_formatter_def
    color_stop_formatter_def forget_def map_r_map_r case_prod_beta\<close>)

lemma forget_eq_InrD: "forget r = forget (Inr (x, m, d)) \<Longrightarrow> \<exists>m'. r = Inr (x, m', d) \<and> unmarked m' = unmarked m"
  by (cases r) (auto simp: forget_def)

lemma run_formatters_unmarked:
  assumes "run_formatters ops env t fs m dest = Inr (fs', m', d)" "list_all flag_ok fs" "unmarked m1 = unmarked m"
    and "msg_ok m" "tm_ok t"
  shows "\<exists>m1'. run_formatters ops env t fs m1 dest = Inr (fs', m1', d) \<and> unmarked m1' = unmarked m'"
  using assms
proof (induction fs arbitrary: fs' m m1 dest)
  case (Cons f fs)
  then obtain f1 m2 d2 fs1 where 1: "flag_format ops env t f m dest = Inr (f1, m2, d2)"
      "run_formatters ops env t fs m2 d2 = Inr (fs1, m', d)" "fs' = f1 # fs1"
    by (auto simp: bind_r_Inr_iff map_r_Inr_iff)
  have "forget (flag_format ops env t f m1 dest) = forget (Inr (f1, m2, d2))"
    using flag_format_unmarked [of f ops env t m dest] flag_format_unmarked [of f ops env t m1 dest] Cons.prems(2,3) 1(1) by simp
  then obtain m3 where 2: "flag_format ops env t f m1 dest = Inr (f1, m3, d2)" "unmarked m3 = unmarked m2"
    by (blast dest: forget_eq_InrD)
  have "msg_ok m2" using flag_format_defined [of f m t ops env dest] 1(1) Cons.prems by (simp add: step_ok_def)
  from Cons.IH [OF 1(2) _ 2(2) this Cons.prems(5)] Cons.prems(2) 1(3) 2(1) show ?case by auto
qed simp

lemma pf_format_unmarked:
  assumes "pf_format ops env m pf [] = Inr (pf', m', l)" "pf_ok pf" "msg_ok m" "env_ok env"
  shows "\<exists>m1. pf_format ops env (unmarked m) pf [] = Inr (pf', m1, l) \<and> unmarked m1 = unmarked m'"
proof -
  have r: "refresh_tm env (unmarked m) pf = refresh_tm env m pf" by (simp add: refresh_tm_def get_time_def Let_def)
  have ok: "pf_ok (refresh_tm env m pf)" using assms by (simp add: refresh_tm_ok)
  obtain fs d where run: "run_formatters ops env (cached_tm (refresh_tm env m pf)) (formatters (refresh_tm env m pf)) m [] = Inr (fs, m', d)"
    and eqs: "pf' = (refresh_tm env m pf)\<lparr>formatters := fs\<rparr>" "l = append_string_view (eol (refresh_tm env m pf)) d"
    using assms(1) by (auto simp: pf_format_def Let_def map_r_Inr_iff)
  from run_formatters_unmarked [OF run, of "unmarked m"] ok assms(3) eqs show ?thesis
    by (auto simp: pf_format_def r pf_ok_def Let_def)
qed

subsection \<open>The contract of a console\<close>

text \<open>The lines of a sequence of messages, each with the message as the formatter marked it.\<close>

fun format_marked :: "'c custom_ops \<Rightarrow> os_env \<Rightarrow> log_msg list \<Rightarrow> 'c pattern_formatter \<Rightarrow> (log_msg \<times> string) list res" where
  "format_marked ops env [] pf = Inr []"
| "format_marked ops env (m # ms) pf =
     bind_r (pf_format ops env (unmarked m) pf []) (\<lambda>(pf', m', l). map_r ((#) (m', l)) (format_marked ops env ms pf'))"

lemma format_marked_lines:
  "pf_ok pf \<Longrightarrow> list_all msg_ok ms \<Longrightarrow> env_ok env \<Longrightarrow>
   \<exists>rs. format_marked ops env ms pf = Inr rs \<and> format_all ops env ms pf = Inr (map snd rs)"
proof (induction ms arbitrary: pf)
  case (Cons m ms)
  then obtain pf' m' l where 1: "pf_format ops env m pf [] = Inr (pf', m', l)" "pf_ok pf'"
    using pf_format_defined [of pf m env ops "[]"] by auto
  obtain m1 where 2: "pf_format ops env (unmarked m) pf [] = Inr (pf', m1, l)"
    using pf_format_unmarked [OF 1(1)] Cons.prems by auto
  from Cons.IH [OF 1(2) _ Cons.prems(3)] Cons.prems(2) 1 2 show ?case by auto
qed simp

lemma format_marked_range:
  "format_marked ops env ms pf = Inr rs \<Longrightarrow> list_all cutless (formatters pf) \<Longrightarrow>
   list_all (\<lambda>(m, l). range_in m l) rs \<and> map (\<lambda>(m, l). msg_level m) rs = map msg_level ms"
proof (induction ms arbitrary: pf rs)
  case (Cons m ms)
  then obtain pf' m' l rs' where 1: "pf_format ops env (unmarked m) pf [] = Inr (pf', m', l)" "format_marked ops env ms pf' = Inr rs'"
      "rs = (m', l) # rs'"
    by (auto simp: bind_r_Inr_iff map_r_Inr_iff)
  then show ?case
    using pf_format_range [OF 1(1)] Cons.IH [OF 1(2)] Cons.prems(2) by (simp add: range_in_def)
qed simp

text \<open>
  A console has a formatter, a text and a way to paint a marked line; logging a message appends its painted line. What its
  clients see of a sequence of messages follows.
\<close>

locale console =
  fixes ops :: "'c custom_ops" and env :: os_env
    and log :: "log_msg \<Rightarrow> 's \<Rightarrow> (string option \<times> log_msg \<times> 's) res"
    and out :: "'s \<Rightarrow> string" and fmt :: "'s \<Rightarrow> 'c pattern_formatter" and paint :: "'s \<Rightarrow> log_msg \<Rightarrow> string \<Rightarrow> string"
    and ok :: "'s \<Rightarrow> bool"
  assumes log_spec: "\<And>s m pf m' l. \<lbrakk>ok s; pf_ok (fmt s); msg_ok m; env_ok env;
        pf_format ops env (unmarked m) (fmt s) [] = Inr (pf, m', l)\<rbrakk> \<Longrightarrow>
      \<exists>m1 s'. log m s = Inr (None, m1, s') \<and> ok s' \<and> fmt s' = pf \<and> paint s' = paint s \<and> out s' = out s @ paint s m' l"
begin

lemma log_seq_lines:
  assumes "ok s" "pf_ok (fmt s)" "list_all msg_ok ms" "env_ok env"
    and "format_marked ops env ms (fmt s) = Inr rs"
  shows "\<exists>s'. log_seq log ms s = Inr (None, s') \<and> ok s' \<and> out s' = out s @ concat (map (\<lambda>(m, l). paint s m l) rs)"
  using assms
proof (induction ms arbitrary: s rs)
  case (Cons m ms)
  then obtain pf m' l rs' where 1: "pf_format ops env (unmarked m) (fmt s) [] = Inr (pf, m', l)"
      "format_marked ops env ms pf = Inr rs'" "rs = (m', l) # rs'"
    by (auto simp: bind_r_Inr_iff map_r_Inr_iff)
  have pf: "pf_ok pf"
    using pf_format_defined [of "fmt s" "unmarked m" env ops "[]"] Cons.prems 1(1) by auto
  obtain m1 s1 where "log m s = Inr (None, m1, s1)" "ok s1" "fmt s1 = pf" "paint s1 = paint s" "out s1 = out s @ paint s m' l"
    using log_spec [OF Cons.prems(1,2) _ Cons.prems(4) 1(1)] Cons.prems(3) by auto
  with Cons.IH [of s1 rs'] Cons.prems(3,4) 1 pf show ?case by auto
qed simp

end

subsection \<open>Both sinks are consoles\<close>

interpretation so: console ops env "\<lambda>m s. map_r (Pair None) (so_log ops env m s)" so_file so_formatter "\<lambda>s m l. l" "\<lambda>s. True"
  for ops :: "'c custom_ops" and env
proof unfold_locales
  fix s :: "'c stdout_sink" and m pf m' l
  assume "pf_ok (so_formatter s)" "msg_ok m" "env_ok env" and u: "pf_format ops env (unmarked m) (so_formatter s) [] = Inr (pf, m', l)"
  then obtain pf1 m1 l1 where 1: "pf_format ops env m (so_formatter s) [] = Inr (pf1, m1, l1)"
      "pf_format ops env (unmarked m) (so_formatter s) [] = Inr (pf1, m', l1)"
    using pf_format_defined [of "so_formatter s" m env ops "[]"] pf_format_unmarked by fastforce
  with u show "\<exists>m1 s'. map_r (Pair None) (so_log ops env m s) = Inr (None, m1, s') \<and> True \<and> so_formatter s' = pf \<and>
      (\<lambda>m l. l) = (\<lambda>m l. l) \<and> so_file s' = so_file s @ l"
    by (simp add: so_log_def)
qed

definition ac_paint :: "'c ansicolor_sink \<Rightarrow> log_msg \<Rightarrow> string \<Rightarrow> string" where
  "ac_paint s m l =
     (let i = color_range_start m; j = color_range_end m
      in if should_do_colors s \<and> i < j
         then take i l @ ac_colors s ! level_code (msg_level m) @ drop i (take j l) @ ac_reset @ drop j l
         else l)"

lemma ac_paint_frame [simp]: "ac_paint (s\<lparr>ac_formatter := pf\<rparr>) = ac_paint s"
  by (intro ext) (simp add: ac_paint_def Let_def)

lemma print_range_in:
  "i \<le> j \<Longrightarrow> j \<le> length l \<Longrightarrow> print_range l i j s = Inr (s\<lparr>ac_file := ac_file s @ drop i (take j l)\<rparr>)"
  by (simp add: print_range_def take_drop)

lemma level_code_bound: "l \<noteq> Lv_n_levels \<Longrightarrow> level_code l < 7"
  by (cases l) simp_all

interpretation ac: console ops env "ac_log ops env" ac_file ac_formatter ac_paint
  "\<lambda>s. length (ac_colors s) = 7 \<and> list_all cutless (formatters (ac_formatter s))"
  for ops :: "'c custom_ops" and env
proof unfold_locales
  fix s :: "'c ansicolor_sink" and m pf m' l
  assume "length (ac_colors s) = 7 \<and> list_all cutless (formatters (ac_formatter s))" and m: "msg_ok m"
    and u: "pf_format ops env (unmarked m) (ac_formatter s) [] = Inr (pf, m', l)"
  then have len: "length (ac_colors s) = 7" and cl: "list_all cutless (formatters (ac_formatter s))" by simp_all
  have r: "color_range_start m' \<le> length l" "color_range_end m' \<le> length l" "msg_level m' = msg_level m" "list_all cutless (formatters pf)"
    using pf_format_range [OF u cl] by (simp_all add: range_in_def)
  have "level_code (msg_level m') < 7" using r(3) m level_code_bound by (simp add: msg_ok_def)
  with len r show "\<exists>m1 s'. ac_log ops env m s = Inr (None, m1, s') \<and>
      (length (ac_colors s') = 7 \<and> list_all cutless (formatters (ac_formatter s'))) \<and> ac_formatter s' = pf \<and>
      ac_paint s' = ac_paint s \<and> ac_file s' = ac_file s @ ac_paint s m' l"
    using u by (auto simp: ac_log_def unmarked_def [symmetric] print_range_in print_ccode_def ac_paint_def fun_eq_iff Let_def)
qed

subsection \<open>What the default line marks\<close>

lemma full_formatter_marks_level:
  assumes "full_formatter env m t st dest = Inr (st', m', d)"
  shows "level_to_string_view (msg_level m') = Inr (drop (color_range_start m') (take (color_range_end m') d))"
proof -
  have src: "\<exists>z. y = x @ z" if "full_source m x = Inr y" for x y
    using that by (auto simp: full_source_def Let_def bind_r_Inr_iff push_back_def append_string_view_def append_int_def split: if_splits)
  have mdc0: "\<exists>z. y = x @ z" if "format_mdc Null_scoped p ctx x = Inr y" for ctx p x y
    using that by (induction ctx arbitrary: x) (fastforce simp: with_padder_def append_string_view_def Let_def)+
  have mdc: "\<exists>z. y = x @ z" if "full_mdc env x = Inr y" for x y
    using that by (auto simp: full_mdc_def bind_r_Inr_iff push_back_def split: if_splits dest!: mdc0)
  show ?thesis
    using assms by (auto simp: full_formatter_def Let_def bind_r_Inr_iff push_back_def append_string_view_def dest!: src mdc)
qed

lemma default_marks_level:
  assumes "format_marked ops env ms pf = Inr rs" "formatters pf = [Full_f p st]"
  shows "list_all (\<lambda>(m, l). level_to_string_view (msg_level m) = Inr (drop (color_range_start m) (take (color_range_end m) l))) rs"
  using assms
proof (induction ms arbitrary: pf st rs)
  case (Cons m ms)
  obtain pf' m' l rs' where 1: "pf_format ops env (unmarked m) pf [] = Inr (pf', m', l)" "format_marked ops env ms pf' = Inr rs'"
      "rs = (m', l) # rs'"
    using Cons.prems(1) by (auto simp: bind_r_Inr_iff map_r_Inr_iff)
  have fs: "formatters (refresh_tm env (unmarked m) pf) = [Full_f p st]"
    using Cons.prems(2) by (simp add: refresh_tm_def Let_def)
  obtain st' d t where 2: "full_formatter env (unmarked m) t st [] = Inr (st', m', d)" "l = d @ eol (refresh_tm env (unmarked m) pf)"
      "formatters pf' = [Full_f p st']"
    using 1(1) by (auto simp: pf_format_def Let_def fs flag_format_def map_r_Inr_iff bind_r_Inr_iff append_string_view_def)
  have "color_range_end m' \<le> length d" using full_formatter_range [OF 2(1)] by (simp add: range_in_def)
  then show ?case
    using full_formatter_marks_level [OF 2(1)] Cons.IH [OF 1(2) 2(3)] 1(3) 2(2) by simp
qed simp

subsection \<open>Truncation can move the end of a line before the marked range\<close>

text \<open>
  \<open>%c\<close> declares 24 characters and writes 23 on the first nine days of a month. Cut to the width 0 it takes away one character of the text
  before it, so that the marked range ends beyond the line and the last \<open>print_range_\<close> computes a negative size.
\<close>

definition cutting_pattern :: string where
  "cutting_pattern = ''%^xy%$%0!c%0!c''"

lemma cut_line_marked:
  "map_r (\<lambda>(pf, m, l). (color_range_start m, color_range_end m, msg_level m, l)) (pf_format no_custom test_env (unmarked test_msg)
     (pattern_formatter_new no_custom test_env cutting_pattern Time_local default_eol Map.empty) []) =
   Inr (0, 2, Lv_info, default_eol)"
  by code_simp

lemma cut_line_out_of_bounds:
  "ac_log no_custom test_env test_msg
     (ac_set_pattern no_custom test_env cutting_pattern (ansicolor_sink_new tm [] Mode_always)) = Inl OutOfBounds"
proof -
  obtain pf m l where m: "pf_format no_custom test_env (unmarked test_msg)
     (pattern_formatter_new no_custom test_env cutting_pattern Time_local default_eol Map.empty) [] = Inr (pf, m, l)"
    "color_range_start m = 0" "color_range_end m = 2" "msg_level m = Lv_info" "l = default_eol"
    using cut_line_marked by (auto simp: map_r_Inr_iff)
  then show ?thesis
    by (simp add: ac_log_def unmarked_def [symmetric] ac_set_pattern_def print_range_def default_eol_def ansicolor_sink_new_def
        set_color_mode_def print_ccode_def Let_def)
qed

subsection \<open>Properties\<close>

text \<open>
  C28. The coloured console prints the lines of the plain console, with colour codes around the marked part: for every pattern without
  the character \<open>!\<close>, which truncates (and is the flag of function names), every colour mode and terminal and all messages in order, logging throws nothing and reads nothing beyond a
  line; the text is the lines in order, each with the colour of the level of its message before and the reset code behind
  the part the pattern marks when colours are on and the part is not empty, and unchanged otherwise. The plain console prints the same
  lines without codes, those of a formatter of the pattern.
\<close>

theorem console_paints_lines:
  fixes ops :: "'c custom_ops"
  assumes "env_ok env" and "list_all msg_ok ms" and "CHR ''!'' \<notin> set pat"
  shows "\<exists>rs s1 s2. format_marked ops env ms (pattern_formatter_new ops env pat Time_local default_eol Map.empty) = Inr rs
    \<and> format_all ops env ms (pattern_formatter_new ops env pat Time_local default_eol Map.empty) = Inr (map snd rs)
    \<and> map (\<lambda>(m, l). msg_level m) rs = map msg_level ms
    \<and> log_seq (\<lambda>m s. map_r (Pair None) (so_log ops env m s)) ms (so_set_pattern ops env pat (stdout_sink_new file)) = Inr (None, s1)
    \<and> so_file s1 = file @ concat (map snd rs)
    \<and> log_seq (ac_log ops env) ms (ac_set_pattern ops env pat (ansicolor_sink_new tm file mode)) = Inr (None, s2)
    \<and> ac_file s2 = file @ concat (map (\<lambda>(m, l). ac_paint (ansicolor_sink_new tm file mode :: 'c ansicolor_sink) m l) rs)"
proof -
  let ?pf = "pattern_formatter_new ops env pat Time_local default_eol Map.empty :: 'c pattern_formatter"
  let ?so = "so_set_pattern ops env pat (stdout_sink_new file)" and ?ac = "ac_set_pattern ops env pat (ansicolor_sink_new tm file mode)"
  have pf: "pf_ok ?pf" "list_all cutless (formatters ?pf)"
    by (simp_all add: pattern_formatter_new_ok assms(1) pattern_formatter_cutless assms(3))
  obtain rs where rs: "format_marked ops env ms ?pf = Inr rs" "format_all ops env ms ?pf = Inr (map snd rs)"
      "map (\<lambda>(m, l). msg_level m) rs = map msg_level ms"
    using format_marked_lines [OF pf(1) assms(2,1)] format_marked_range [OF _ pf(2)] by blast
  have so: "so_formatter ?so = ?pf" "so_file ?so = file" by (simp_all add: so_set_pattern_def stdout_sink_new_def)
  have ac: "ac_formatter ?ac = ?pf" "ac_file ?ac = file" "length (ac_colors ?ac) = 7"
    by (simp_all add: ac_set_pattern_def ansicolor_sink_new_def set_color_mode_def Let_def split: color_mode.split)
  have paint: "ac_paint ?ac = ac_paint (ansicolor_sink_new tm file mode :: 'c ansicolor_sink)" by (simp add: ac_set_pattern_def)
  obtain s1 where "log_seq (\<lambda>m s. map_r (Pair None) (so_log ops env m s)) ms ?so = Inr (None, s1)" "so_file s1 = file @ concat (map snd rs)"
    using so.log_seq_lines [of ?so ms env ops rs] pf assms(1,2) rs(1) by (auto simp: so case_prod_unfold)
  moreover obtain s2 where "log_seq (ac_log ops env) ms ?ac = Inr (None, s2)"
      "ac_file s2 = file @ concat (map (\<lambda>(m, l). ac_paint ?ac m l) rs)"
    using ac.log_seq_lines [of ?ac ms env ops rs] pf assms(1,2) rs(1) by (auto simp: ac)
  ultimately show ?thesis using rs paint by auto
qed

definition xterm :: terminal where
  "xterm = \<lparr>in_terminal = True, getenv = [''TERM'' \<mapsto> ''xterm-256'']\<rparr>"

theorem console_paints_lines_witness:
  "\<exists>s1 s2. log_seq (\<lambda>m s. map_r (Pair None) (so_log no_custom test_env m s)) [test_msg]
      (so_set_pattern no_custom test_env ''%n: %^%v%$.'' (stdout_sink_new [])) = Inr (None, s1)
    \<and> so_file s1 = ''bt: hello.'' @ default_eol
    \<and> log_seq (ac_log no_custom test_env) [test_msg]
      (ac_set_pattern no_custom test_env ''%n: %^%v%$.'' (ansicolor_sink_new xterm [] Mode_automatic)) = Inr (None, s2)
    \<and> ac_file s2 = ''bt: '' @ ac_green @ ''hello'' @ ac_reset @ ''.'' @ default_eol"
proof -
  let ?pf = "pattern_formatter_new no_custom test_env ''%n: %^%v%$.'' Time_local default_eol Map.empty"
  have env: "env_ok test_env" by (simp add: env_ok_def test_env_def time_ok_def tm_ok_def zero_tm_def)
  have msg: "list_all msg_ok [test_msg]"
    by (simp add: test_msg_def log_msg_at_def msg_ok_def time_ok_def source_empty_def)
  have marked: "map_r (map (\<lambda>(m, l). (color_range_start m, color_range_end m, msg_level m, l))) (format_marked no_custom test_env [test_msg] ?pf) =
      Inr [(4, 9, Lv_info, ''bt: hello.'' @ default_eol)]"
    by code_simp
  have colors: "should_do_colors (ansicolor_sink_new xterm [] Mode_automatic :: unit ansicolor_sink)"
      "ac_colors (ansicolor_sink_new xterm [] Mode_automatic :: unit ansicolor_sink) ! 2 = ac_green"
    by code_simp+
  from console_paints_lines [OF env msg, of "''%n: %^%v%$.''" no_custom "[]" xterm Mode_automatic]
  obtain rs s1 s2 where 1: "format_marked no_custom test_env [test_msg] ?pf = Inr rs"
    and 2: "log_seq (\<lambda>m s. map_r (Pair None) (so_log no_custom test_env m s)) [test_msg]
      (so_set_pattern no_custom test_env ''%n: %^%v%$.'' (stdout_sink_new [])) = Inr (None, s1)"
      "so_file s1 = concat (map snd rs)"
      "log_seq (ac_log no_custom test_env) [test_msg]
      (ac_set_pattern no_custom test_env ''%n: %^%v%$.'' (ansicolor_sink_new xterm [] Mode_automatic)) = Inr (None, s2)"
      "ac_file s2 = concat (map (\<lambda>(m, l). ac_paint (ansicolor_sink_new xterm [] Mode_automatic :: unit ansicolor_sink) m l) rs)"
    by auto
  from marked 1 obtain m where "rs = [(m, ''bt: hello.'' @ default_eol)]" "color_range_start m = 4" "color_range_end m = 9" "msg_level m = Lv_info"
    by (auto simp: map_eq_Cons_conv)
  with 2 colors show ?thesis by (simp add: ac_paint_def Let_def del: log_seq.simps)
qed

end
