(* ===== verification/Log_Rotate.thy ===== *)
theory Log_Rotate
  imports Log_Flags "HOL-Library.Sublist"
begin

section \<open>Logging: the rotating file sink (spdlog)\<close>

text \<open>
  \<open>file_helper\<close> of \<open>details/file_helper-inl.h\<close> and \<open>rotating_file_sink\<close> of \<open>sinks/rotating_file_sink-inl.h\<close>. The disk maps names to
  contents; which names can be opened or removed, which renames succeed, with and without a file of the new name, and whether writes
  succeed are parameters of the disk. A stream
  open for appending holds a buffer that reaches the file when it is flushed or closed, and the size of the file
  does not count that buffer. Callbacks on opening and closing, the directories that are created and the
  pauses between attempts are left out, and so is the text of the system error that an exception appends to its message. An operation that throws returns the message beside the state it leaves.
\<close>

subsection \<open>Disk and files\<close>

record disk =
  files :: "string \<rightharpoonup> string"
  openable :: "string \<Rightarrow> bool"
  renamable :: "string \<Rightarrow> string \<Rightarrow> bool \<Rightarrow> bool"
  removable :: "string \<Rightarrow> bool"
  writable :: bool

text \<open>The buffer of the open stream, \<open>None\<close> when there is none.\<close>

record file_helper =
  fh_filename :: string
  fh_fd :: "string option"

definition path_exists :: "string \<Rightarrow> disk \<Rightarrow> bool" where
  "path_exists f d \<longleftrightarrow> files d f \<noteq> None"

definition os_remove :: "string \<Rightarrow> disk \<Rightarrow> bool \<times> disk" where
  "os_remove f d =
     (if removable d f \<and> path_exists f d then (True, d\<lparr>files := (files d)(f := None)\<rparr>) else (False, d))"

definition os_rename :: "string \<Rightarrow> string \<Rightarrow> disk \<Rightarrow> bool \<times> disk" where
  "os_rename src target d =
     (case files d src of
        Some c \<Rightarrow>
          if renamable d src target (path_exists target d)
          then (True, d\<lparr>files := (files d)(src := None, target := Some c)\<rparr>) else (False, d)
      | None \<Rightarrow> (False, d))"

definition content :: "string \<Rightarrow> disk \<Rightarrow> string" where
  "content f d = (case files d f of Some s \<Rightarrow> s | None \<Rightarrow> [])"

definition drain :: "file_helper \<Rightarrow> disk \<Rightarrow> disk" where
  "drain fh d =
     (case fh_fd fh of
        Some buf \<Rightarrow> d\<lparr>files := (files d)(fh_filename fh \<mapsto> content (fh_filename fh) d @ buf)\<rparr>
      | None \<Rightarrow> d)"

definition fh_close :: "file_helper \<times> disk \<Rightarrow> file_helper \<times> disk" where
  "fh_close = (\<lambda>(fh, d). if fh_fd fh \<noteq> None then (fh\<lparr>fh_fd := None\<rparr>, drain fh d) else (fh, d))"

fun open_loop :: "nat \<Rightarrow> string \<Rightarrow> bool \<Rightarrow> file_helper \<times> disk \<Rightarrow> string option \<times> file_helper \<times> disk" where
  "open_loop 0 fname trunc (fh, d) = (Some (''Failed opening file '' @ fh_filename fh @ '' for writing''), fh, d)"
| "open_loop (Suc tries) fname trunc (fh, d) =
     (if trunc \<and> \<not> openable d fname then open_loop tries fname trunc (fh, d)
      else
        let d = (if trunc then d\<lparr>files := (files d)(fname \<mapsto> [])\<rparr> else d)
        in if openable d fname
           then (None, fh\<lparr>fh_fd := Some []\<rparr>, d\<lparr>files := (files d)(fname \<mapsto> content fname d)\<rparr>)
           else open_loop tries fname trunc (fh, d))"

definition open_tries :: nat where
  "open_tries = 5"

definition fh_open :: "string \<Rightarrow> bool \<Rightarrow> file_helper \<times> disk \<Rightarrow> string option \<times> file_helper \<times> disk" where
  "fh_open fname trunc s =
     (let (fh, d) = fh_close s
      in open_loop open_tries fname trunc (fh\<lparr>fh_filename := fname\<rparr>, d))"

definition fh_reopen :: "bool \<Rightarrow> file_helper \<times> disk \<Rightarrow> string option \<times> file_helper \<times> disk" where
  "fh_reopen trunc = (\<lambda>(fh, d).
     if fh_filename fh = [] then (Some ''Failed re opening file - was not opened before'', fh, d)
     else fh_open (fh_filename fh) trunc (fh, d))"

definition fh_flush :: "file_helper \<times> disk \<Rightarrow> string option \<times> file_helper \<times> disk" where
  "fh_flush = (\<lambda>(fh, d).
     if \<not> writable d \<and> fh_fd fh \<noteq> None \<and> fh_fd fh \<noteq> Some [] then (Some (''Failed flush to file '' @ fh_filename fh), fh, d)
     else (None, (case fh_fd fh of Some buf \<Rightarrow> fh\<lparr>fh_fd := Some []\<rparr> | None \<Rightarrow> fh), drain fh d))"

text \<open>\<open>fsync\<close> succeeds or not; it does not touch the buffer of the stream.\<close>

definition fh_sync :: "bool \<Rightarrow> file_helper \<times> disk \<Rightarrow> string option \<times> file_helper \<times> disk" where
  "fh_sync synced = (\<lambda>(fh, d). (if synced then None else Some (''Failed to fsync file '' @ fh_filename fh), fh, d))"

definition fh_write :: "string \<Rightarrow> file_helper \<times> disk \<Rightarrow> string option \<times> file_helper \<times> disk" where
  "fh_write buf = (\<lambda>(fh, d).
     case fh_fd fh of
       None \<Rightarrow> (None, fh, d)
     | Some b \<Rightarrow>
         if writable d then (None, fh\<lparr>fh_fd := Some (b @ buf)\<rparr>, d)
         else (Some (''Failed writing to file '' @ fh_filename fh), fh, d))"

definition fh_size :: "file_helper \<times> disk \<Rightarrow> string + nat" where
  "fh_size = (\<lambda>(fh, d).
     case fh_fd fh of
       None \<Rightarrow> Inl (''Cannot use size() on closed file '' @ fh_filename fh)
     | Some b \<Rightarrow> Inr (length (content (fh_filename fh) d)))"

definition split_by_extension :: "string \<Rightarrow> string \<times> string" where
  "split_by_extension fname =
     (case strrchr fname CHR ''.'' of
        None \<Rightarrow> (fname, [])
      | Some ext_index \<Rightarrow>
          if ext_index = 0 \<or> ext_index = length fname - 1 then (fname, [])
          else case strrchr fname CHR ''/'' of
                 Some folder_index \<Rightarrow>
                   if ext_index - 1 \<le> folder_index then (fname, [])
                   else (take ext_index fname, drop ext_index fname)
               | None \<Rightarrow> (take ext_index fname, drop ext_index fname))"

subsection \<open>The sink\<close>

record rotating_file_sink =
  rf_base_filename :: string
  rf_max_size :: nat
  rf_max_files :: nat
  rf_current_size :: nat
  rf_file :: file_helper

definition MaxFiles :: nat where
  "MaxFiles = 200000"

definition calc_filename :: "string \<Rightarrow> nat \<Rightarrow> string" where
  "calc_filename fname index =
     (if index = 0 then fname
      else let (stem, ext) = split_by_extension fname in stem @ ''.'' @ nat_digits index @ ext)"

definition rename_file :: "string \<Rightarrow> string \<Rightarrow> disk \<Rightarrow> bool \<times> disk" where
  "rename_file src target d =
     (let (removed, d) = os_remove target d in os_rename src target d)"

type_synonym rot_result = "string option \<times> rotating_file_sink \<times> disk"

fun rotate_loop :: "nat \<Rightarrow> rotating_file_sink \<Rightarrow> disk \<Rightarrow> rot_result" where
  "rotate_loop 0 rf d = (None, rf, d)"
| "rotate_loop (Suc n) rf d =
     (let src = calc_filename (rf_base_filename rf) n
      in if \<not> path_exists src d then rotate_loop n rf d
         else
           let target = calc_filename (rf_base_filename rf) (Suc n);
               (ok, d) = rename_file src target d;
               (ok, d) = (if ok then (True, d) else rename_file src target d)
           in if ok then rotate_loop n rf d
              else
                let (e, fh, d) = fh_reopen True (rf_file rf, d);
                    rf' = rf\<lparr>rf_file := fh\<rparr>
                in case e of
                     Some m \<Rightarrow> (Some m, rf', d)
                   | None \<Rightarrow>
                       (Some (''rotating_file_sink: failed renaming '' @ src @ '' to '' @ target), rf'\<lparr>rf_current_size := 0\<rparr>, d))"

definition rf_rotate :: "rotating_file_sink \<Rightarrow> disk \<Rightarrow> rot_result" where
  "rf_rotate rf d =
     (let (fh, d) = fh_close (rf_file rf, d);
          (e, rf, d) = rotate_loop (rf_max_files rf) (rf\<lparr>rf_file := fh\<rparr>) d
      in case e of
           Some m \<Rightarrow> (Some m, rf, d)
         | None \<Rightarrow> (let (e, fh, d) = fh_reopen True (rf_file rf, d) in (e, rf\<lparr>rf_file := fh\<rparr>, d)))"

definition rotating_file_sink_new :: "string \<Rightarrow> nat \<Rightarrow> nat \<Rightarrow> bool \<Rightarrow> disk \<Rightarrow> rot_result" where
  "rotating_file_sink_new base_filename max_size max_files rotate_on_open d =
     (let fh = \<lparr>fh_filename = [], fh_fd = None\<rparr>;
          rf = \<lparr>rf_base_filename = base_filename, rf_max_size = max_size, rf_max_files = max_files,
                rf_current_size = 0, rf_file = fh\<rparr>
      in if max_size = 0 then (Some ''rotating sink constructor: max_size arg cannot be zero'', rf, d)
         else if MaxFiles < max_files then (Some ''rotating sink constructor: max_files arg cannot exceed MaxFiles'', rf, d)
         else
           let (e, fh, d) = fh_open (calc_filename base_filename 0) False (fh, d);
               rf = rf\<lparr>rf_file := fh\<rparr>
           in case e of
                Some m \<Rightarrow> (Some m, rf, d)
              | None \<Rightarrow>
                  (case fh_size (fh, d) of
                     Inl m \<Rightarrow> (Some m, rf, d)
                   | Inr n \<Rightarrow>
                       let rf = rf\<lparr>rf_current_size := n\<rparr>
                       in if rotate_on_open \<and> 0 < n
                          then let (e, rf, d) = rf_rotate rf d
                               in (e, if e = None then rf\<lparr>rf_current_size := 0\<rparr> else rf, d)
                          else (None, rf, d)))"

definition set_max_size :: "nat \<Rightarrow> rotating_file_sink \<Rightarrow> string option \<times> rotating_file_sink" where
  "set_max_size n rf =
     (if n = 0 then (Some ''rotating sink set_max_size: max_size arg cannot be zero'', rf) else (None, rf\<lparr>rf_max_size := n\<rparr>))"

definition set_max_files :: "nat \<Rightarrow> rotating_file_sink \<Rightarrow> string option \<times> rotating_file_sink" where
  "set_max_files n rf =
     (if MaxFiles < n then (Some ''rotating sink set_max_files: max_files arg cannot exceed 200000'', rf)
      else (None, rf\<lparr>rf_max_files := n\<rparr>))"

definition write_line :: "string \<Rightarrow> nat \<Rightarrow> rotating_file_sink \<Rightarrow> disk \<Rightarrow> rot_result" where
  "write_line formatted new_size rf d =
     (let (e, fh, d) = fh_write formatted (rf_file rf, d); rf = rf\<lparr>rf_file := fh\<rparr>
      in case e of Some m \<Rightarrow> (Some m, rf, d) | None \<Rightarrow> (None, rf\<lparr>rf_current_size := new_size\<rparr>, d))"

text \<open>The formatted line is the input; the sum of the sizes wraps as a \<open>size_t\<close>.\<close>

definition rf_sink_it :: "string \<Rightarrow> rotating_file_sink \<Rightarrow> disk \<Rightarrow> rot_result" where
  "rf_sink_it formatted rf d =
     (let new_size = (rf_current_size rf + length formatted) mod 2 ^ 64
      in if rf_max_size rf < new_size then
           let (e, fh, d) = fh_flush (rf_file rf, d); rf = rf\<lparr>rf_file := fh\<rparr>
           in case e of
                Some m \<Rightarrow> (Some m, rf, d)
              | None \<Rightarrow>
                  (case fh_size (fh, d) of
                     Inl m \<Rightarrow> (Some m, rf, d)
                   | Inr n \<Rightarrow>
                       if 0 < n then
                         let (e, rf, d) = rf_rotate rf d
                         in case e of
                              Some m \<Rightarrow> (Some m, rf, d)
                            | None \<Rightarrow> write_line formatted (length formatted) rf d
                       else write_line formatted new_size rf d)
         else write_line formatted new_size rf d)"

definition rotate_now :: "rotating_file_sink \<Rightarrow> disk \<Rightarrow> rot_result" where
  "rotate_now rf d = rf_rotate rf d"

definition rf_flush :: "rotating_file_sink \<Rightarrow> disk \<Rightarrow> rot_result" where
  "rf_flush rf d = (let (e, fh, d) = fh_flush (rf_file rf, d) in (e, rf\<lparr>rf_file := fh\<rparr>, d))"

text \<open>The lines of a program, one after another, up to the first that throws.\<close>

fun rf_log_all :: "string list \<Rightarrow> rotating_file_sink \<Rightarrow> disk \<Rightarrow> rot_result" where
  "rf_log_all [] rf d = (None, rf, d)"
| "rf_log_all (l # ls) rf d =
     (let (e, rf, d) = rf_sink_it l rf d in case e of Some m \<Rightarrow> (Some m, rf, d) | None \<Rightarrow> rf_log_all ls rf d)"

definition log_to_files :: "string \<Rightarrow> nat \<Rightarrow> nat \<Rightarrow> string list \<Rightarrow> disk \<Rightarrow> rot_result" where
  "log_to_files base_filename max_size max_files ls d =
     (let (e, rf, d) = rotating_file_sink_new base_filename max_size max_files False d
      in case e of Some m \<Rightarrow> (Some m, rf, d) | None \<Rightarrow> rf_log_all ls rf d)"

subsection \<open>File names\<close>

lemma split_by_extension_whole: "fst (split_by_extension f) @ snd (split_by_extension f) = f"
  by (simp add: split_by_extension_def split: option.split)

lemma nat_digits_inject: "nat_digits m = nat_digits n \<Longrightarrow> m = n"
  using nat_digits_ok by metis

lemma calc_filename_inject: "calc_filename f i = calc_filename f j \<longleftrightarrow> i = j"
proof -
  obtain stem ext where se: "split_by_extension f = (stem, ext)" by (cases "split_by_extension f")
  then have f: "f = stem @ ext" using split_by_extension_whole [of f] by simp
  have "stem @ ''.'' @ nat_digits n @ ext \<noteq> f" for n
    unfolding f by simp
  then show ?thesis
    using se by (auto simp: calc_filename_def dest: nat_digits_inject)
qed

subsection \<open>Rotation\<close>

definition good_disk :: "string \<Rightarrow> disk \<Rightarrow> bool" where
  "good_disk b d \<longleftrightarrow> openable d b \<and> writable d \<and> (\<forall>i j e. renamable d (calc_filename b i) (calc_filename b j) e)"

lemma good_disk_files [simp]: "good_disk b (d\<lparr>files := m\<rparr>) = good_disk b d"
  by (simp add: good_disk_def)

text \<open>What a rotation over \<open>n\<close> files makes of the files by their numbers.\<close>

definition shifted :: "nat \<Rightarrow> (nat \<Rightarrow> string option) \<Rightarrow> nat \<Rightarrow> string option" where
  "shifted n g i =
     (if i = 0 then (if n = 0 then g 0 else None)
      else if i \<le> n then (case g (i - 1) of Some c \<Rightarrow> Some c | None \<Rightarrow> if i = n then g n else None)
      else g i)"

lemma shifted_move: "g n = Some c \<Longrightarrow> shifted n (g(Suc n := Some c, n := None)) = shifted (Suc n) g"
  by (rule ext) (auto simp: shifted_def split: option.split)

lemma shifted_gap: "g n = None \<Longrightarrow> shifted n g = shifted (Suc n) g"
  by (rule ext) (auto simp: shifted_def le_Suc_eq split: option.split)

lemma rename_ok:
  assumes "good_disk b d" "files d (calc_filename b n) = Some c"
  shows "rename_file (calc_filename b n) (calc_filename b (Suc n)) d =
     (True, d\<lparr>files := (files d)(calc_filename b (Suc n) := Some c, calc_filename b n := None)\<rparr>)"
  using assms
  by (simp add: rename_file_def os_remove_def os_rename_def good_disk_def calc_filename_inject fun_upd_twist [of _ "calc_filename b n"])

lemma rotate_loop_spec:
  assumes "good_disk (rf_base_filename rf) d"
  shows "\<exists>d'. rotate_loop n rf d = (None, rf, d') \<and> good_disk (rf_base_filename rf) d' \<and>
    (\<lambda>i. files d' (calc_filename (rf_base_filename rf) i)) = shifted n (\<lambda>i. files d (calc_filename (rf_base_filename rf) i))"
  using assms
proof (induction n arbitrary: d)
  case 0
  then show ?case by (auto simp: shifted_def)
next
  case (Suc n)
  let ?nm = "calc_filename (rf_base_filename rf)"
  show ?case
  proof (cases "files d (?nm n)")
    case None
    then show ?thesis using Suc.IH [OF Suc.prems] shifted_gap [of "\<lambda>i. files d (?nm i)" n] by (simp add: path_exists_def)
  next
    case (Some c)
    let ?d = "d\<lparr>files := (files d)(?nm (Suc n) := Some c, ?nm n := None)\<rparr>"
    have names: "(\<lambda>i. files ?d (?nm i)) = (\<lambda>i. files d (?nm i))(Suc n := Some c, n := None)"
      by (auto simp: calc_filename_inject fun_eq_iff)
    have "rotate_loop (Suc n) rf d = rotate_loop n rf ?d"
      using Some rename_ok [OF Suc.prems Some] by (simp add: path_exists_def)
    then show ?thesis
      using Suc.IH [of ?d] Suc.prems shifted_move [of "\<lambda>i. files d (?nm i)" n c] Some unfolding names by simp
  qed
qed

lemma open_loop_trunc:
  "openable d f \<Longrightarrow> open_loop (Suc n) f True (fh, d) = (None, fh\<lparr>fh_fd := Some []\<rparr>, d\<lparr>files := (files d)(f \<mapsto> [])\<rparr>)"
  by (simp add: content_def Let_def)

lemma rotate_spec:
  assumes "good_disk b d" "rf_base_filename rf = b" "b \<noteq> []"
    and "rf_file rf = \<lparr>fh_filename = b, fh_fd = Some []\<rparr>" "files d b = Some c"
  shows "\<exists>d'. rf_rotate rf d = (None, rf, d') \<and> good_disk b d' \<and>
    (\<lambda>i. files d' (calc_filename b i)) = (shifted (rf_max_files rf) (\<lambda>i. files d (calc_filename b i)))(0 := Some [])"
proof -
  have close: "fh_close (rf_file rf, d) = (\<lparr>fh_filename = b, fh_fd = None\<rparr>, d)"
    using assms(4,5) by (simp add: fh_close_def drain_def content_def map_upd_triv)
  let ?rf = "rf\<lparr>rf_file := \<lparr>fh_filename = b, fh_fd = None\<rparr>\<rparr>"
  obtain d' where d': "rotate_loop (rf_max_files rf) ?rf d = (None, ?rf, d')" "good_disk b d'"
      "(\<lambda>i. files d' (calc_filename b i)) = shifted (rf_max_files rf) (\<lambda>i. files d (calc_filename b i))"
    using rotate_loop_spec [of ?rf d "rf_max_files rf"] assms(1,2) by auto
  have "fh_reopen True (\<lparr>fh_filename = b, fh_fd = None\<rparr>, d') =
      (None, \<lparr>fh_filename = b, fh_fd = Some []\<rparr>, d'\<lparr>files := (files d')(b \<mapsto> [])\<rparr>)"
    using d'(2) assms(3) open_loop_trunc [of d' b 4]
    by (simp add: fh_reopen_def fh_open_def fh_close_def open_tries_def good_disk_def del: open_loop.simps)
  then have rot: "rf_rotate rf d = (None, rf, d'\<lparr>files := (files d')(b \<mapsto> [])\<rparr>)"
    using close d'(1) assms(4) by (simp add: rf_rotate_def)
  have b: "calc_filename b 0 = b" by (simp add: calc_filename_def)
  have "((files d')(b \<mapsto> [])) (calc_filename b i) = ((\<lambda>i. files d' (calc_filename b i))(0 := Some [])) i" for i
    using calc_filename_inject [of b i 0] b by auto
  then have "(\<lambda>i. files (d'\<lparr>files := (files d')(b \<mapsto> [])\<rparr>) (calc_filename b i)) =
      (shifted (rf_max_files rf) (\<lambda>i. files d (calc_filename b i)))(0 := Some [])"
    unfolding d'(3) by (simp add: fun_eq_iff)
  then show ?thesis using rot d'(2) by (intro exI [of _ "d'\<lparr>files := (files d')(b \<mapsto> [])\<rparr>"] conjI) simp_all
qed

subsection \<open>The text in the files\<close>

text \<open>
  The specification: a line is added to the newest piece if it fits or the piece is empty, and starts a new piece otherwise.
\<close>

definition cut :: "nat \<Rightarrow> string list \<Rightarrow> string \<Rightarrow> string list" where
  "cut ms hist l =
     (if length (last hist @ l) \<le> ms \<or> last hist = [] then butlast hist @ [last hist @ l] else hist @ [l])"

definition cuts :: "nat \<Rightarrow> string list \<Rightarrow> string list" where
  "cuts ms ls = foldl (cut ms) [[]] ls"

text \<open>
  The text logged so far in pieces, the newest last: the base file and its buffer hold the last one, file \<open>i\<close> the one
  \<open>i\<close> places before it.
\<close>

definition pieces_inv :: "string \<Rightarrow> nat \<Rightarrow> nat \<Rightarrow> string list \<Rightarrow> string list \<Rightarrow> rotating_file_sink \<Rightarrow> disk \<Rightarrow> bool" where
  "pieces_inv b ms mf ls hist rf d \<longleftrightarrow>
     good_disk b d \<and> rf_base_filename rf = b \<and> rf_max_size rf = ms \<and> rf_max_files rf = mf \<and>
     hist \<noteq> [] \<and> concat hist = concat ls \<and> (\<forall>h \<in> set hist. length h \<le> ms \<or> h \<in> set ls) \<and>
     rf_current_size rf = length (last hist) \<and>
     (\<exists>c buf. rf_file rf = \<lparr>fh_filename = b, fh_fd = Some buf\<rparr> \<and> files d b = Some c \<and> c @ buf = last hist) \<and>
     (\<forall>i. 0 < i \<longrightarrow> i \<le> mf \<longrightarrow>
        files d (calc_filename b i) = (if i < length hist then Some (rev hist ! i) else None))"

lemma calc_filename_neq_base: "0 < i \<Longrightarrow> calc_filename b i \<noteq> b"
  using calc_filename_inject [of b i 0] by (simp add: calc_filename_def)

text \<open>Flushing moves the buffer into the base file.\<close>

lemma pieces_flush:
  assumes "pieces_inv b ms mf ls hist rf d"
  shows "\<exists>d'. fh_flush (rf_file rf, d) = (None, \<lparr>fh_filename = b, fh_fd = Some []\<rparr>, d') \<and>
    pieces_inv b ms mf ls hist (rf\<lparr>rf_file := \<lparr>fh_filename = b, fh_fd = Some []\<rparr>\<rparr>) d' \<and> files d' b = Some (last hist)"
proof -
  obtain c buf where f: "rf_file rf = \<lparr>fh_filename = b, fh_fd = Some buf\<rparr>" "files d b = Some c" "c @ buf = last hist"
    using assms by (auto simp: pieces_inv_def)
  let ?d = "d\<lparr>files := (files d)(b \<mapsto> last hist)\<rparr>"
  have "writable d" using assms by (simp add: pieces_inv_def good_disk_def)
  then have "fh_flush (rf_file rf, d) = (None, \<lparr>fh_filename = b, fh_fd = Some []\<rparr>, ?d)"
    using f by (simp add: fh_flush_def drain_def content_def)
  moreover have "pieces_inv b ms mf ls hist (rf\<lparr>rf_file := \<lparr>fh_filename = b, fh_fd = Some []\<rparr>\<rparr>) ?d"
    using assms by (auto simp: pieces_inv_def calc_filename_neq_base)
  ultimately show ?thesis by auto
qed

lemma pieces_append:
  assumes inv: "pieces_inv b ms mf ls hist rf d"
    and size: "length (last hist @ l) \<le> ms \<or> last hist = []"
  shows "\<exists>rf'. write_line l (length (last hist @ l)) rf d = (None, rf', d) \<and>
    pieces_inv b ms mf (ls @ [l]) (butlast hist @ [last hist @ l]) rf' d"
proof -
  obtain c buf where f: "rf_file rf = \<lparr>fh_filename = b, fh_fd = Some buf\<rparr>" "files d b = Some c" "c @ buf = last hist"
    using inv by (auto simp: pieces_inv_def)
  let ?rf = "rf\<lparr>rf_file := \<lparr>fh_filename = b, fh_fd = Some (buf @ l)\<rparr>, rf_current_size := length (last hist @ l)\<rparr>"
  have w: "write_line l (length (last hist @ l)) rf d = (None, ?rf, d)"
    using inv f by (simp add: write_line_def fh_write_def pieces_inv_def good_disk_def)
  have ne: "hist \<noteq> []" using inv by (simp add: pieces_inv_def)
  have "concat hist = concat (butlast hist) @ last hist"
    using ne by (metis append_butlast_last_id concat.simps concat_append append_Nil2)
  then have cc: "concat (butlast hist @ [last hist @ l]) = concat (ls @ [l])"
    using inv by (simp add: pieces_inv_def)
  have bound: "\<forall>h \<in> set (butlast hist @ [last hist @ l]). length h \<le> ms \<or> h \<in> set (ls @ [l])"
    using inv size by (auto simp: pieces_inv_def dest: in_set_butlastD)
  have "rev (butlast hist @ [last hist @ l]) ! i = rev hist ! i" if "0 < i" for i
    using ne that by (cases hist rule: rev_cases) auto
  then have "pieces_inv b ms mf (ls @ [l]) (butlast hist @ [last hist @ l]) ?rf d"
    using inv cc bound f ne by (auto simp: pieces_inv_def)
  then show ?thesis using w by blast
qed

lemma pieces_rotate:
  assumes inv: "pieces_inv b ms mf ls hist rf d" and b: "b \<noteq> []"
    and f: "rf_file rf = \<lparr>fh_filename = b, fh_fd = Some []\<rparr>" "files d b = Some (last hist)"
  shows "\<exists>d'. rf_rotate rf d = (None, rf, d') \<and> pieces_inv b ms mf ls (hist @ [[]]) (rf\<lparr>rf_current_size := 0\<rparr>) d'"
proof -
  have base: "rf_base_filename rf = b" and gd: "good_disk b d" and mf: "rf_max_files rf = mf" and ne: "hist \<noteq> []"
    using inv by (simp_all add: pieces_inv_def)
  obtain d' where d': "rf_rotate rf d = (None, rf, d')" "good_disk b d'"
      "(\<lambda>i. files d' (calc_filename b i)) = (shifted mf (\<lambda>i. files d (calc_filename b i)))(0 := Some [])"
    using rotate_spec [OF gd base b f] mf by auto
  have old: "files d (calc_filename b i) = (if i < length hist then Some (rev hist ! i) else None)" if "i \<le> mf" for i
  proof (cases "i = 0")
    case True
    then show ?thesis using f(2) ne by (simp add: calc_filename_def rev_nth last_conv_nth)
  qed (use inv that in \<open>simp add: pieces_inv_def\<close>)
  have at: "files d' (calc_filename b i) = ((shifted mf (\<lambda>i. files d (calc_filename b i)))(0 := Some [])) i" for i
    using d'(3) by metis
  have new: "files d' (calc_filename b i) = (if i < length (hist @ [[]]) then Some (rev (hist @ [[]]) ! i) else None)"
    if "0 < i" "i \<le> mf" for i
    using that old [of "i - 1"] old [of mf] unfolding at by (auto simp: shifted_def nth_Cons' split: option.split)
  have "files d' b = Some []" using at [of 0] by (simp add: calc_filename_def)
  then have "pieces_inv b ms mf ls (hist @ [[]]) (rf\<lparr>rf_current_size := 0\<rparr>) d'"
    using inv d'(2) new f(1) by (auto simp: pieces_inv_def)
  then show ?thesis using d'(1) by blast
qed

lemma pieces_sink_it:
  assumes inv: "pieces_inv b ms mf ls hist rf d" and b: "b \<noteq> []" and len: "length (concat (ls @ [l])) < 2 ^ 64"
  shows "\<exists>rf' d'. rf_sink_it l rf d = (None, rf', d') \<and> pieces_inv b ms mf (ls @ [l]) (cut ms hist l) rf' d'"
proof -
  have ne: "hist \<noteq> []" and cur: "rf_current_size rf = length (last hist)" and ms: "rf_max_size rf = ms"
    using inv by (simp_all add: pieces_inv_def)
  have "length (last hist) \<le> length (concat hist)"
    using ne by (metis append_butlast_last_id concat.simps concat_append append_Nil2 length_append le_add2)
  also have "concat hist = concat ls" using inv by (simp add: pieces_inv_def)
  finally have n: "(rf_current_size rf + length l) mod 2 ^ 64 = length (last hist @ l)"
    using len cur by simp
  show ?thesis
  proof (cases "ms < length (last hist @ l)")
    case False
    then show ?thesis
      using pieces_append [OF inv, of l] n ms by (auto simp: rf_sink_it_def cut_def)
  next
    case True
    let ?rf = "rf\<lparr>rf_file := \<lparr>fh_filename = b, fh_fd = Some []\<rparr>\<rparr>"
    obtain d1 where d1: "fh_flush (rf_file rf, d) = (None, \<lparr>fh_filename = b, fh_fd = Some []\<rparr>, d1)"
        "pieces_inv b ms mf ls hist ?rf d1" "files d1 b = Some (last hist)"
      using pieces_flush [OF inv] by blast
    have size: "fh_size (\<lparr>fh_filename = b, fh_fd = Some []\<rparr>, d1) = Inr (length (last hist))"
      using d1(3) by (simp add: fh_size_def content_def)
    show ?thesis
    proof (cases "last hist = []")
      case True
      then show ?thesis
        using pieces_append [OF d1(2), of l] d1(1) size n ms \<open>ms < length (last hist @ l)\<close>
        by (auto simp: rf_sink_it_def cut_def)
    next
      case False
      obtain d2 where d2: "rf_rotate ?rf d1 = (None, ?rf, d2)" "pieces_inv b ms mf ls (hist @ [[]]) (?rf\<lparr>rf_current_size := 0\<rparr>) d2"
        using pieces_rotate [OF d1(2) b _ d1(3)] by auto
      obtain rf' where rf': "write_line l (length l) (?rf\<lparr>rf_current_size := 0\<rparr>) d2 = (None, rf', d2)"
          "pieces_inv b ms mf (ls @ [l]) (hist @ [l]) rf' d2"
        using pieces_append [OF d2(2), of l] by auto
      have "write_line l (length l) ?rf d2 = write_line l (length l) (?rf\<lparr>rf_current_size := 0\<rparr>) d2"
        using d2(2) by (simp add: write_line_def fh_write_def pieces_inv_def good_disk_def)
      then show ?thesis
        using rf' d1(1) d2(1) size n ms False \<open>ms < length (last hist @ l)\<close>
        by (auto simp: rf_sink_it_def cut_def)
    qed
  qed
qed

lemma pieces_log_all:
  "pieces_inv b ms mf ls hist rf d \<Longrightarrow> b \<noteq> [] \<Longrightarrow> length (concat (ls @ ls')) < 2 ^ 64 \<Longrightarrow>
     \<exists>rf' d'. rf_log_all ls' rf d = (None, rf', d') \<and> pieces_inv b ms mf (ls @ ls') (foldl (cut ms) hist ls') rf' d'"
proof (induction ls' arbitrary: ls hist rf d)
  case (Cons l ls')
  have "length (concat (ls @ [l])) < 2 ^ 64" using Cons.prems(3) by simp
  then obtain rf1 d1 where 1: "rf_sink_it l rf d = (None, rf1, d1)" "pieces_inv b ms mf (ls @ [l]) (cut ms hist l) rf1 d1"
    using pieces_sink_it [OF Cons.prems(1,2)] by blast
  then show ?case using Cons.IH [OF 1(2) Cons.prems(2)] Cons.prems(3) by simp
qed auto

lemma pieces_new:
  assumes "good_disk b d" "0 < ms" "mf \<le> MaxFiles" "\<forall>i \<le> mf. files d (calc_filename b i) = None"
  shows "\<exists>rf d'. rotating_file_sink_new b ms mf False d = (None, rf, d') \<and> pieces_inv b ms mf [] [[]] rf d'"
proof -
  let ?d = "d\<lparr>files := (files d)(b \<mapsto> [])\<rparr>"
  have b: "files d b = None" using assms(4) by (metis calc_filename_def le0)
  have op: "openable d b" using assms(1) by (simp add: good_disk_def)
  have "fh_open b False (\<lparr>fh_filename = [], fh_fd = None\<rparr>, d) = (None, \<lparr>fh_filename = b, fh_fd = Some []\<rparr>, ?d)"
    using b op by (simp add: fh_open_def fh_close_def open_tries_def numeral_eq_Suc content_def)
  then have "rotating_file_sink_new b ms mf False d = (None,
      \<lparr>rf_base_filename = b, rf_max_size = ms, rf_max_files = mf, rf_current_size = 0,
       rf_file = \<lparr>fh_filename = b, fh_fd = Some []\<rparr>\<rparr>, ?d)"
    using assms(2,3) by (simp add: rotating_file_sink_new_def calc_filename_def fh_size_def content_def Let_def)
  moreover have "pieces_inv b ms mf [] [[]]
      \<lparr>rf_base_filename = b, rf_max_size = ms, rf_max_files = mf, rf_current_size = 0,
       rf_file = \<lparr>fh_filename = b, fh_fd = Some []\<rparr>\<rparr> ?d"
    using assms by (auto simp: pieces_inv_def calc_filename_neq_base)
  ultimately show ?thesis by blast
qed

lemma pieces_closed:
  assumes "pieces_inv b ms mf ls hist rf d" "i \<le> mf"
  shows "files (snd (fh_close (rf_file rf, d))) (calc_filename b i) = (if i < length hist then Some (rev hist ! i) else None)"
proof -
  obtain c buf where f: "rf_file rf = \<lparr>fh_filename = b, fh_fd = Some buf\<rparr>" "files d b = Some c" "c @ buf = last hist"
    using assms(1) by (auto simp: pieces_inv_def)
  have ne: "hist \<noteq> []" using assms(1) by (simp add: pieces_inv_def)
  show ?thesis
  proof (cases "i = 0")
    case True
    then show ?thesis
      using f ne by (simp add: fh_close_def drain_def content_def calc_filename_def rev_nth last_conv_nth)
  next
    case False
    then show ?thesis
      using assms f by (simp add: fh_close_def drain_def calc_filename_neq_base pieces_inv_def)
  qed
qed

text \<open>
  C36. The rotating files hold the newest text of the log: on a disk that lets them be opened, written and renamed and has none
  of them yet, logging any lines succeeds, and after closing the base file holds the last of the pieces \<open>cuts\<close> cuts the lines
  into, file \<open>i\<close> the piece \<open>i\<close> before it for every \<open>i\<close> up to the number of files kept, and no file exists for a piece that
  is not there. The pieces together are the text logged, and each is at most the maximal size long or a single longer line.
\<close>

theorem rotating_files_hold_newest:
  assumes "b \<noteq> []" and "good_disk b d" and "0 < ms" and "mf \<le> MaxFiles"
    and "\<forall>i \<le> mf. files d (calc_filename b i) = None" and "length (concat ls) < 2 ^ 64"
  shows "\<exists>rf d'. log_to_files b ms mf ls d = (None, rf, d')
    \<and> (\<forall>i \<le> mf. files (snd (fh_close (rf_file rf, d'))) (calc_filename b i) =
                 (if i < length (cuts ms ls) then Some (rev (cuts ms ls) ! i) else None))
    \<and> concat (cuts ms ls) = concat ls \<and> (\<forall>h \<in> set (cuts ms ls). length h \<le> ms \<or> h \<in> set ls)"
proof -
  obtain rf0 d0 where 0: "rotating_file_sink_new b ms mf False d = (None, rf0, d0)" "pieces_inv b ms mf [] [[]] rf0 d0"
    using pieces_new assms(2-5) by blast
  obtain rf d' where 1: "rf_log_all ls rf0 d0 = (None, rf, d')" "pieces_inv b ms mf ls (cuts ms ls) rf d'"
    using pieces_log_all [OF 0(2) assms(1), of ls] assms(6) by (auto simp: cuts_def)
  have "log_to_files b ms mf ls d = (None, rf, d')" using 0(1) 1(1) by (simp add: log_to_files_def)
  moreover have "concat (cuts ms ls) = concat ls" "\<forall>h \<in> set (cuts ms ls). length h \<le> ms \<or> h \<in> set ls"
    using 1(2) by (simp_all add: pieces_inv_def)
  ultimately show ?thesis using pieces_closed [OF 1(2)] by blast
qed

theorem rotating_files_hold_newest_witness:
  "\<exists>rf d'. log_to_files ''bt.log'' 4 1 [''ab'', ''cd'', ''ef'']
      \<lparr>files = Map.empty, openable = (\<lambda>f. True), renamable = (\<lambda>f g e. True), removable = (\<lambda>f. True), writable = True\<rparr> = (None, rf, d')
    \<and> (\<forall>i \<le> 1. files (snd (fh_close (rf_file rf, d'))) (calc_filename ''bt.log'' i) =
                 (if i < 2 then Some (rev [''abcd'', ''ef''] ! i) else None))"
  using rotating_files_hold_newest [of "''bt.log''"
      "\<lparr>files = Map.empty, openable = (\<lambda>f. True), renamable = (\<lambda>f g e. True), removable = (\<lambda>f. True), writable = True\<rparr>" 4 1 "[''ab'', ''cd'', ''ef'']"]
  by (auto simp: good_disk_def MaxFiles_def cuts_def cut_def)

end
