(* ===== verification/Log_File.thy ===== *)
theory Log_File
  imports Log_Console Log_Rotate Log_Logger
begin

section \<open>Logging: lines in files and in the ring buffer (spdlog)\<close>

text \<open>
  The composition of formatters with the places that keep their lines: \<open>basic_file_sink\<close> of \<open>sinks/basic_file_sink-inl.h\<close> with the
  formatter of \<open>sinks/base_sink-inl.h\<close>, the formatted read-out of \<open>ringbuffer_sink\<close>, and the pattern and the move of a
  logger. Formatters are pattern formatters; disk and files are as in \<open>Log_Rotate\<close>.
\<close>

subsection \<open>The basic file sink\<close>

record 'c basic_file_sink =
  bf_file :: file_helper
  bf_formatter :: "'c pattern_formatter"

definition basic_file_sink_new :: "string \<Rightarrow> bool \<Rightarrow> disk \<Rightarrow> string option \<times> 'c basic_file_sink \<times> disk" where
  "basic_file_sink_new fname trunc d =
     (let (e, fh, d) = fh_open fname trunc (\<lparr>fh_filename = [], fh_fd = None\<rparr>, d)
      in (e, \<lparr>bf_file = fh, bf_formatter = pattern_formatter_default Time_local default_eol\<rparr>, d))"

definition bf_sink_it ::
  "'c custom_ops \<Rightarrow> os_env \<Rightarrow> log_msg \<Rightarrow> 'c basic_file_sink \<times> disk \<Rightarrow> (string option \<times> log_msg \<times> 'c basic_file_sink \<times> disk) res" where
  "bf_sink_it ops env msg = (\<lambda>(s, d).
     map_r (\<lambda>(pf, msg, formatted).
       let (e, fh, d) = fh_write formatted (bf_file s, d)
       in (e, msg, s\<lparr>bf_formatter := pf, bf_file := fh\<rparr>, d))
     (pf_format ops env msg (bf_formatter s) []))"

definition bf_flush :: "'c basic_file_sink \<times> disk \<Rightarrow> string option \<times> 'c basic_file_sink \<times> disk" where
  "bf_flush = (\<lambda>(s, d). let (e, fh, d) = fh_flush (bf_file s, d) in (e, s\<lparr>bf_file := fh\<rparr>, d))"

definition bf_truncate :: "'c basic_file_sink \<times> disk \<Rightarrow> string option \<times> 'c basic_file_sink \<times> disk" where
  "bf_truncate = (\<lambda>(s, d). let (e, fh, d) = fh_reopen True (bf_file s, d) in (e, s\<lparr>bf_file := fh\<rparr>, d))"

definition bs_set_formatter :: "'c pattern_formatter \<Rightarrow> 'c basic_file_sink \<Rightarrow> 'c basic_file_sink" where
  "bs_set_formatter sink_formatter s = s\<lparr>bf_formatter := sink_formatter\<rparr>"

definition bs_set_pattern :: "'c custom_ops \<Rightarrow> os_env \<Rightarrow> string \<Rightarrow> 'c basic_file_sink \<Rightarrow> 'c basic_file_sink" where
  "bs_set_pattern ops env pat s = bs_set_formatter (pattern_formatter_new ops env pat Time_local default_eol Map.empty) s"

subsection \<open>The ring buffer, formatted\<close>

definition last_formatted ::
  "'c custom_ops \<Rightarrow> os_env \<Rightarrow> nat \<Rightarrow> log_msg_buffer circular_q \<Rightarrow> 'c pattern_formatter \<Rightarrow> (string list \<times> 'c pattern_formatter) res" where
  "last_formatted ops env bound q pf =
     fold_r (\<lambda>i (ret, pf).
       bind_r (cq_at q i) (\<lambda>x. map_r (\<lambda>(pf, msg, formatted). (ret @ [formatted], pf)) (pf_format ops env (lmb_msg x) pf [])))
     (rb_indices bound q) ([], pf)"

subsection \<open>Logger: pattern and move\<close>

definition lg_set_pattern ::
  "'c custom_ops \<Rightarrow> os_env \<Rightarrow> ('k, 'c pattern_formatter) sink_ops \<Rightarrow> string \<Rightarrow> pattern_time_type \<Rightarrow> logger \<Rightarrow> 'k log_world \<Rightarrow> 'k log_world" where
  "lg_set_pattern cops env ops pat tt lg w =
     (let new_formatter = pattern_formatter_new cops env pat tt default_eol Map.empty
      in lg_set_formatter ops new_formatter lg w)"

text \<open>The new logger and what is left of the old one: a moved string, vector or function is empty.\<close>

definition logger_move :: "logger \<Rightarrow> logger \<times> logger" where
  "logger_move other =
     (let (tracer, rest) = bt_move (lg_tracer other)
      in (\<lparr>lg_name = lg_name other, lg_sinks = lg_sinks other, lg_level = lg_level other, lg_flush_level = lg_flush_level other,
           lg_err_handler = lg_err_handler other, lg_tracer = tracer\<rparr>,
          other\<lparr>lg_name := [], lg_sinks := [], lg_err_handler := None, lg_tracer := rest\<rparr>))"

definition logger_assign :: "logger \<Rightarrow> logger \<Rightarrow> logger" where
  "logger_assign this other = fst (logger_swap this (logger_copy other))"

lemma last_formatted_lines:
  assumes "cq_ok q"
  shows "map_r fst (last_formatted ops env bound q pf) =
    format_all ops env (map lmb_msg (if 0 < bound then last_n bound (cq_items q) else cq_items q)) pf"
proof -
  let ?f = "\<lambda>i (ret, pf). bind_r (cq_at q i) (\<lambda>x. map_r (\<lambda>(pf, msg, formatted). (ret @ [formatted], pf))
    (pf_format ops env (lmb_msg x) pf []))"
  have "map_r fst (fold_r ?f is (acc, pf)) = map_r ((@) acc) (format_all ops env (map (\<lambda>i. lmb_msg (cq_items q ! i)) is) pf)"
    if "\<forall>i \<in> set is. cq_at q i = Inr (cq_items q ! i)" for "is" acc
    using that
  proof (induction "is" arbitrary: acc pf)
    case (Cons i "is")
    have "(@) (acc @ [b]) = (\<lambda>x. acc @ b # x)" for b by (simp add: fun_eq_iff)
    with Cons show ?case
      by (cases "pf_format ops env (lmb_msg (cq_items q ! i)) pf []") (auto simp: map_r_map_r)
  qed simp
  note this [OF rb_items(1) [OF assms], of bound "[]"]
  moreover have "map (\<lambda>i. lmb_msg (cq_items q ! i)) (rb_indices bound q) =
      map lmb_msg (if 0 < bound then last_n bound (cq_items q) else cq_items q)"
    unfolding rb_items(2) [OF assms, symmetric] by simp
  moreover have "map_r ((@) []) r = r" for r :: "string list res" by (cases r) simp_all
  ultimately show ?thesis by (simp add: last_formatted_def)
qed

lemma last_n_last_n: "last_n a (last_n b xs) = last_n (min a b) xs"
proof -
  have "length xs - (length xs - b) - a + (length xs - b) = length xs - min a b" by linarith
  then show ?thesis by (simp add: last_n_def)
qed

text \<open>After any messages the formatted read-out is the lines of the last ones, printed in order by the formatter of the sink.\<close>

lemma ring_prints_last:
  assumes "n < 2 ^ 64 - 1"
  shows "\<exists>q. fold_r rb_sink_it ms (cq_new log_msg_buffer_default n) = Inr q \<and>
    map_r fst (last_formatted ops env bound q pf) = format_all ops env (last_n (if 0 < bound then min bound n else n) ms) pf"
proof -
  let ?q = "cq_new log_msg_buffer_default n"
  have "fold_r rb_sink_it ms = fold_r cq_push_back (map log_msg_buffer_of ms)"
  proof (induction ms)
    case (Cons m ms)
    then show ?case by (intro ext) (simp add: rb_sink_it_def)
  qed simp
  then obtain q where q: "fold_r rb_sink_it ms ?q = Inr q" "cq_ok q" "cq_items q = last_n n (map log_msg_buffer_of ms)"
    using cq.pushes [of ?q "[]" "map log_msg_buffer_of ms"] cq_new_ok [OF assms, of log_msg_buffer_default] by (auto simp: last_n_def)
  have "map lmb_msg (if 0 < bound then last_n bound (cq_items q) else cq_items q) = last_n (if 0 < bound then min bound n else n) ms"
    by (simp add: q(3) last_n_map last_n_last_n comp_def log_msg_buffer_keeps)
  with last_formatted_lines [OF q(2), of ops env bound pf] q(1) show ?thesis by metis
qed

subsection \<open>A file sink is a console on disk\<close>

text \<open>What the file will hold once the stream is closed; until then the disk does not change.\<close>

definition bf_text :: "'c basic_file_sink \<times> disk \<Rightarrow> string" where
  "bf_text = (\<lambda>(s, d). content (fh_filename (bf_file s)) (snd (fh_close (bf_file s, d))))"

lemma content_drain:
  "fh_fd fh = Some b \<Longrightarrow> fh_filename fh = g \<Longrightarrow> content g (snd (fh_close (fh, d))) = content g d @ b"
  by (auto simp add: fh_close_def drain_def content_def)

interpretation bf: console ops env "bf_sink_it ops env" bf_text "\<lambda>(s, d). bf_formatter s" "\<lambda>s m l. l"
  "\<lambda>(s, d). d = d0 \<and> writable d \<and> fh_fd (bf_file s) \<noteq> None \<and> fh_filename (bf_file s) = f"
  for ops :: "'c custom_ops" and env d0 f
proof unfold_locales
  fix x :: "'c basic_file_sink \<times> disk" and m pf m' l
  assume a: "case x of (s, d) \<Rightarrow> d = d0 \<and> writable d \<and> fh_fd (bf_file s) \<noteq> None \<and> fh_filename (bf_file s) = f"
    and ok: "pf_ok (case x of (s, d) \<Rightarrow> bf_formatter s)" "msg_ok m" "env_ok env"
    and u: "pf_format ops env (unmarked m) (case x of (s, d) \<Rightarrow> bf_formatter s) [] = Inr (pf, m', l)"
  obtain s d b where x: "x = (s, d)" "fh_fd (bf_file s) = Some b" using a by (cases x) auto
  obtain m1 where "pf_format ops env m (bf_formatter s) [] = Inr (pf, m1, l)"
    using pf_format_defined [of "bf_formatter s" m env ops "[]"] pf_format_unmarked ok u x by fastforce
  then show "\<exists>m1 s'. bf_sink_it ops env m x = Inr (None, m1, s') \<and>
      (case s' of (s, d) \<Rightarrow> d = d0 \<and> writable d \<and> fh_fd (bf_file s) \<noteq> None \<and> fh_filename (bf_file s) = f) \<and>
      (case s' of (s, d) \<Rightarrow> bf_formatter s) = pf \<and> (\<lambda>m l. l) = (\<lambda>m l. l) \<and> bf_text s' = bf_text x @ l"
    using a x by (auto simp: bf_sink_it_def fh_write_def bf_text_def content_drain)
qed

lemma fh_open_good:
  "openable d f \<Longrightarrow> fh_open f tr (\<lparr>fh_filename = g, fh_fd = None\<rparr>, d) =
     (None, \<lparr>fh_filename = f, fh_fd = Some []\<rparr>, d\<lparr>files := (files d)(f \<mapsto> if tr then [] else content f d)\<rparr>)"
  by (simp add: fh_open_def fh_close_def open_tries_def numeral_eq_Suc content_def)

subsection \<open>Properties\<close>

text \<open>
  A file sink keeps every line: with a file that can be opened and written, for every pattern and all messages, logging
  succeeds, and when the sink is destroyed the file holds its earlier text, or none when it was opened with
  \<open>truncate\<close>, followed by the line of every message in order, those a formatter of the pattern prints; no other file changes, and
  until then the disk does not show more than the opening did.
\<close>

theorem file_sink_keeps_lines:
  fixes ops :: "'c custom_ops"
  assumes "env_ok env" and "list_all msg_ok ms" and "openable d f" and "writable d"
  shows "\<exists>ls s s1 d0. format_all ops env ms (pattern_formatter_new ops env pat Time_local default_eol Map.empty) = Inr ls
    \<and> basic_file_sink_new f trunc d = (None, s, d0)
    \<and> log_seq (bf_sink_it ops env) ms (bs_set_pattern ops env pat s, d0) = Inr (None, s1, d0)
    \<and> (let d1 = snd (fh_close (bf_file s1, d0))
       in content f d1 = (if trunc then [] else content f d) @ concat ls \<and> (\<forall>g. g \<noteq> f \<longrightarrow> files d1 g = files d g))"
proof -
  let ?pf = "pattern_formatter_new ops env pat Time_local default_eol Map.empty"
  let ?d0 = "d\<lparr>files := (files d)(f \<mapsto> if trunc then [] else content f d)\<rparr>"
  let ?s = "\<lparr>bf_file = \<lparr>fh_filename = f, fh_fd = Some []\<rparr>, bf_formatter = pattern_formatter_default Time_local default_eol\<rparr> :: 'c basic_file_sink"
  let ?x = "(bs_set_pattern ops env pat ?s, ?d0)"
  have new: "basic_file_sink_new f trunc d = (None, ?s, ?d0)"
    by (simp add: basic_file_sink_new_def fh_open_good assms(3))
  have pf: "pf_ok ?pf" by (simp add: pattern_formatter_new_ok assms(1))
  obtain rs where rs: "format_marked ops env ms ?pf = Inr rs" "format_all ops env ms ?pf = Inr (map snd rs)"
    using format_marked_lines [OF pf assms(2,1)] by blast
  have x: "bf_formatter (bs_set_pattern ops env pat ?s) = ?pf" "bf_text ?x = (if trunc then [] else content f d)"
    by (simp_all add: bs_set_pattern_def bs_set_formatter_def bf_text_def content_drain) (simp add: content_def)
  obtain s1 where s1: "log_seq (bf_sink_it ops env) ms ?x = Inr (None, s1, ?d0)" "fh_fd (bf_file s1) \<noteq> None"
      "fh_filename (bf_file s1) = f" "bf_text (s1, ?d0) = (if trunc then [] else content f d) @ concat (map snd rs)"
    using bf.log_seq_lines [where ops = ops and env = env and s = ?x and ms = ms and rs = rs and ?d0.0 = ?d0 and f = f]
      pf assms rs(1) x
    by (auto simp: case_prod_unfold bs_set_pattern_def bs_set_formatter_def)
  have "\<forall>g. g \<noteq> f \<longrightarrow> files (snd (fh_close (bf_file s1, ?d0))) g = files d g"
    using s1(3) by (auto simp: fh_close_def drain_def split: option.split)
  with s1 new rs(2) show ?thesis by (auto simp: bf_text_def Let_def)
qed

definition one_file_disk :: disk where
  "one_file_disk = \<lparr>files = [''bt.log'' \<mapsto> ''old ''], openable = (\<lambda>f. True), renamable = (\<lambda>f g e. True), removable = (\<lambda>f. True), writable = True\<rparr>"

theorem file_sink_keeps_lines_witness:
  "\<exists>s s1 d0. basic_file_sink_new ''bt.log'' False one_file_disk = (None, s, d0)
    \<and> log_seq (bf_sink_it no_custom test_env) [test_msg, test_msg] (bs_set_pattern no_custom test_env ''%-4!l|%v'' s, d0) = Inr (None, s1, d0)
    \<and> content ''bt.log'' (snd (fh_close (bf_file s1, d0))) =
        ''old info|hello'' @ default_eol @ ''info|hello'' @ default_eol"
proof -
  have env: "env_ok test_env" by (simp add: env_ok_def test_env_def time_ok_def tm_ok_def zero_tm_def)
  have msg: "list_all msg_ok [test_msg, test_msg]"
    by (simp add: test_msg_def log_msg_at_def msg_ok_def time_ok_def source_empty_def)
  have lines: "format_all no_custom test_env [test_msg, test_msg]
      (pattern_formatter_new no_custom test_env ''%-4!l|%v'' Time_local default_eol Map.empty) =
      Inr [''info|hello'' @ default_eol, ''info|hello'' @ default_eol]"
    by code_simp
  have "openable one_file_disk ''bt.log''" "writable one_file_disk" "content ''bt.log'' one_file_disk = ''old ''"
    by (simp_all add: one_file_disk_def content_def)
  with file_sink_keeps_lines [OF env msg, of one_file_disk "''bt.log''" no_custom "''%-4!l|%v''" False] lines
  show ?thesis by (auto simp: Let_def simp del: log_seq.simps)
qed

end
