(* ===== verification/Log_Daily.thy ===== *)
theory Log_Daily
  imports Log_Rotate Log_Queue
begin

section \<open>Logging: the daily file sink (spdlog)\<close>

text \<open>
  \<open>daily_file_sink\<close> of \<open>sinks/daily_file_sink.h\<close>: a new file each day at a given time, named after the date, of which the last
  \<open>max_files\<close> are kept; their names are in a circular queue. Broken-down times come from the operating system
  (\<open>os_localtime\<close>), and so do \<open>std::mktime\<close>, the times the clock shows at each call, and whether a file can be removed: parameters.
  Time points are nanoseconds since the epoch, far from the limits of 64 bits. Names and contents of files, the disk and the
  exceptions are as in \<open>Log_Rotate\<close>.
\<close>

subsection \<open>State and names\<close>

record daily_file_sink =
  dy_base_filename :: string
  dy_rotation_h :: int
  dy_rotation_m :: int
  dy_rotation_tp :: int
  dy_file :: file_helper
  dy_truncate :: bool
  dy_max_files :: nat
  dy_filenames_q :: "string circular_q"

record daily_os =
  dy_localtime :: "int \<Rightarrow> tm"
  dy_mktime :: "tm \<Rightarrow> int"

text \<open>The format \<open>{:0wd}\<close>: zeros between the sign and the digits up to the width.\<close>

definition zero_padded :: "nat \<Rightarrow> int \<Rightarrow> string" where
  "zero_padded w n =
     (let ds = nat_digits (nat \<bar>n\<bar>); sg = (if n < 0 then ''-'' else [])
      in sg @ replicate (w - length sg - length ds) CHR ''0'' @ ds)"

definition daily_calc_filename :: "string \<Rightarrow> tm \<Rightarrow> string" where
  "daily_calc_filename fname now_tm =
     (let (stem, ext) = split_by_extension fname
      in stem @ ''_'' @ zero_padded 4 (tm_year now_tm + 1900) @ ''-'' @ zero_padded 2 (tm_mon now_tm + 1) @ ''-'' @
         zero_padded 2 (tm_mday now_tm) @ ext)"

definition dy_now_tm :: "daily_os \<Rightarrow> int \<Rightarrow> tm" where
  "dy_now_tm os tp = dy_localtime os (duration_cast ns_s tp)"

definition ns_day :: int where
  "ns_day = 24 * 3600 * ns_s"

definition next_rotation_tp :: "daily_os \<Rightarrow> int \<Rightarrow> daily_file_sink \<Rightarrow> int" where
  "next_rotation_tp os now s =
     (let date = (dy_now_tm os now)\<lparr>tm_hour := dy_rotation_h s, tm_min := dy_rotation_m s, tm_sec := 0\<rparr>;
          rotation_time = dy_mktime os date * ns_s
      in if now < rotation_time then rotation_time else rotation_time + ns_day)"

subsection \<open>Operations\<close>

text \<open>The names of the files that exist for today, yesterday and so on, up to the first day without one.\<close>

fun init_filenames :: "daily_os \<Rightarrow> string \<Rightarrow> nat \<Rightarrow> int \<Rightarrow> disk \<Rightarrow> string list" where
  "init_filenames os base 0 now d = []"
| "init_filenames os base (Suc n) now d =
     (let filename = daily_calc_filename base (dy_now_tm os now)
      in if \<not> path_exists filename d then [] else filename # init_filenames os base n (now - ns_day) d)"

definition init_filenames_q :: "daily_os \<Rightarrow> int \<Rightarrow> disk \<Rightarrow> daily_file_sink \<Rightarrow> daily_file_sink res" where
  "init_filenames_q os now d s =
     map_r (\<lambda>q. s\<lparr>dy_filenames_q := q\<rparr>)
       (fold_r cq_push_back (rev (init_filenames os (dy_base_filename s) (dy_max_files s) now d)) (cq_new [] (dy_max_files s)))"

text \<open>The three readings of the clock in the constructor are \<open>now\<close>, \<open>now1\<close> and \<open>now2\<close>.\<close>

definition daily_file_sink_new ::
  "daily_os \<Rightarrow> int \<Rightarrow> int \<Rightarrow> int \<Rightarrow> string \<Rightarrow> int \<Rightarrow> int \<Rightarrow> bool \<Rightarrow> nat \<Rightarrow> disk \<Rightarrow> (string option \<times> daily_file_sink \<times> disk) res" where
  "daily_file_sink_new os now now1 now2 base_filename rotation_hour rotation_minute trunc max_files d =
     (let fh = \<lparr>fh_filename = [], fh_fd = None\<rparr>;
          s = \<lparr>dy_base_filename = base_filename, dy_rotation_h = rotation_hour, dy_rotation_m = rotation_minute, dy_rotation_tp = 0,
               dy_file = fh, dy_truncate = trunc, dy_max_files = max_files, dy_filenames_q = cq_disabled\<rparr>
      in if rotation_hour < 0 \<or> 23 < rotation_hour \<or> rotation_minute < 0 \<or> 59 < rotation_minute
         then Inr (Some ''daily_file_sink: Invalid rotation time in ctor'', s, d)
         else
           let (e, fh, d) = fh_open (daily_calc_filename base_filename (dy_now_tm os now)) trunc (fh, d);
               s = s\<lparr>dy_file := fh\<rparr>
           in case e of
                Some m \<Rightarrow> Inr (Some m, s, d)
              | None \<Rightarrow>
                  let s = s\<lparr>dy_rotation_tp := next_rotation_tp os now1 s\<rparr>
                  in map_r (\<lambda>s. (None, s, d)) (if 0 < max_files then init_filenames_q os now2 d s else Inr s))"

text \<open>The oldest name leaves a full queue and its file is removed; the current name enters it in any case.\<close>

definition delete_old :: "daily_file_sink \<Rightarrow> disk \<Rightarrow> (string option \<times> daily_file_sink \<times> disk) res" where
  "delete_old s d =
     (let current_file = fh_filename (dy_file s);
          push = (\<lambda>e q d. map_r (\<lambda>q'. (e, s\<lparr>dy_filenames_q := q'\<rparr>, d)) (cq_push_back current_file q))
      in if cq_full (dy_filenames_q s) then
           bind_r (cq_front (dy_filenames_q s)) (\<lambda>old_filename.
           bind_r (cq_pop_front (dy_filenames_q s)) (\<lambda>q.
             if \<not> path_exists old_filename d then push None q d
             else let (ok, d) = os_remove old_filename d
                  in push (if ok then None else Some (''Failed removing daily file '' @ old_filename)) q d))
         else push None (dy_filenames_q s) d)"

definition dy_sink_it ::
  "daily_os \<Rightarrow> int \<Rightarrow> string \<Rightarrow> int \<Rightarrow> daily_file_sink \<Rightarrow> disk \<Rightarrow> (string option \<times> daily_file_sink \<times> disk) res" where
  "dy_sink_it os now formatted msg_time s d =
     (let should_rotate = dy_rotation_tp s \<le> msg_time;
          (e, fh, d) = (if should_rotate
                        then fh_open (daily_calc_filename (dy_base_filename s) (dy_now_tm os msg_time)) (dy_truncate s) (dy_file s, d)
                        else (None, dy_file s, d));
          s = s\<lparr>dy_file := fh\<rparr>
      in case e of
           Some m \<Rightarrow> Inr (Some m, s, d)
         | None \<Rightarrow>
             let s = (if should_rotate then s\<lparr>dy_rotation_tp := next_rotation_tp os now s\<rparr> else s);
                 (e, fh, d) = fh_write formatted (dy_file s, d);
                 s = s\<lparr>dy_file := fh\<rparr>
             in case e of
                  Some m \<Rightarrow> Inr (Some m, s, d)
                | None \<Rightarrow> if should_rotate \<and> 0 < dy_max_files s then delete_old s d else Inr (None, s, d))"

definition dy_flush :: "daily_file_sink \<Rightarrow> disk \<Rightarrow> string option \<times> daily_file_sink \<times> disk" where
  "dy_flush s d = (let (e, fh, d) = fh_flush (dy_file s, d) in (e, s\<lparr>dy_file := fh\<rparr>, d))"

text \<open>A sequence of messages: the line, its time, and what the clock shows when it is logged.\<close>

fun dy_log_all ::
  "daily_os \<Rightarrow> (string \<times> int \<times> int) list \<Rightarrow> daily_file_sink \<Rightarrow> disk \<Rightarrow> (string option \<times> daily_file_sink \<times> disk) res" where
  "dy_log_all os [] s d = Inr (None, s, d)"
| "dy_log_all os ((l, t, now) # cs) s d =
     bind_r (dy_sink_it os now l t s d) (\<lambda>(e, s', d').
       case e of Some m \<Rightarrow> Inr (Some m, s', d') | None \<Rightarrow> dy_log_all os cs s' d')"

subsection \<open>The names of a run\<close>

text \<open>The files a sequence of messages opens, in order.\<close>

fun rotated :: "daily_os \<Rightarrow> daily_file_sink \<Rightarrow> (string \<times> int \<times> int) list \<Rightarrow> string list" where
  "rotated os s [] = []"
| "rotated os s ((l, t, now) # cs) =
     (if dy_rotation_tp s \<le> t
      then daily_calc_filename (dy_base_filename s) (dy_now_tm os t) # rotated os (s\<lparr>dy_rotation_tp := next_rotation_tp os now s\<rparr>) cs
      else rotated os s cs)"

lemma next_rotation_tp_frame [simp]:
  "next_rotation_tp os now (s\<lparr>dy_file := fh\<rparr>) = next_rotation_tp os now s"
  "next_rotation_tp os now (s\<lparr>dy_filenames_q := q\<rparr>) = next_rotation_tp os now s"
  by (simp_all add: next_rotation_tp_def)

lemma rotated_frame [simp]:
  "rotated os (s\<lparr>dy_file := fh\<rparr>) cs = rotated os s cs" "rotated os (s\<lparr>dy_filenames_q := q\<rparr>) cs = rotated os s cs"
proof -
  have swap: "s\<lparr>dy_file := fh\<rparr>\<lparr>dy_rotation_tp := t\<rparr> = s\<lparr>dy_rotation_tp := t\<rparr>\<lparr>dy_file := fh\<rparr>"
    "s\<lparr>dy_filenames_q := q\<rparr>\<lparr>dy_rotation_tp := t\<rparr> = s\<lparr>dy_rotation_tp := t\<rparr>\<lparr>dy_filenames_q := q\<rparr>" for s t
    by simp_all
  show "rotated os (s\<lparr>dy_file := fh\<rparr>) cs = rotated os s cs" "rotated os (s\<lparr>dy_filenames_q := q\<rparr>) cs = rotated os s cs"
    by (induction os s cs rule: rotated.induct) (simp_all add: swap)
qed

subsection \<open>A disk without failures\<close>

definition free_disk :: "disk \<Rightarrow> bool" where
  "free_disk d \<longleftrightarrow> (\<forall>f. openable d f \<and> removable d f) \<and> writable d"

lemma free_disk_files [simp]: "free_disk (d\<lparr>files := m\<rparr>) = free_disk d"
  by (simp add: free_disk_def)

lemma fh_open_free:
  assumes "free_disk d"
  shows "\<exists>d'. fh_open f tr (fh, d) = (None, \<lparr>fh_filename = f, fh_fd = Some []\<rparr>, d') \<and> free_disk d' \<and>
    (\<forall>g. path_exists g d' \<longleftrightarrow> path_exists g d \<or> g = f \<or> fh_fd fh \<noteq> None \<and> g = fh_filename fh)"
  using assms
  by (cases tr; cases "fh_fd fh") (auto simp: fh_open_def fh_close_def drain_def open_tries_def numeral_eq_Suc free_disk_def
      path_exists_def content_def Let_def)

lemma fh_write_free:
  "free_disk d \<Longrightarrow> fh_fd fh = Some b \<Longrightarrow> fh_write l (fh, d) = (None, fh\<lparr>fh_fd := Some (b @ l)\<rparr>, d)"
  by (simp add: fh_write_def free_disk_def)

subsection \<open>Which files are kept\<close>

text \<open>Of the names \<open>names\<close>, exactly the last \<open>mf\<close> are queued and exactly their files exist.\<close>

definition kept :: "nat \<Rightarrow> string list \<Rightarrow> string circular_q \<Rightarrow> disk \<Rightarrow> bool" where
  "kept mf names q d \<longleftrightarrow> cq_ok q \<and> cq_capacity q = mf \<and> cq_items q = last_n mf names \<and>
     (\<forall>g \<in> set names. path_exists g d \<longleftrightarrow> g \<in> set (last_n mf names))"

definition daily_inv :: "daily_os \<Rightarrow> nat \<Rightarrow> string list \<Rightarrow> daily_file_sink \<Rightarrow> disk \<Rightarrow> bool" where
  "daily_inv os mf names s d \<longleftrightarrow> kept mf names (dy_filenames_q s) d \<and> dy_max_files s = mf \<and> free_disk d \<and>
     fh_fd (dy_file s) \<noteq> None \<and>
     (fh_filename (dy_file s) \<in> set names \<longrightarrow> fh_filename (dy_file s) \<in> set (last_n mf names))"

lemma last_n_full: "0 < n \<Longrightarrow> n \<le> length xs \<Longrightarrow> last_n n (xs @ [x]) = tl (last_n n xs) @ [x]"
proof -
  assume "0 < n" "n \<le> length xs"
  then have "length xs + 1 - n = Suc (length xs - n)" "length xs + 1 - n \<le> length xs" by simp_all
  then show ?thesis by (simp add: last_n_def tl_drop drop_Suc)
qed

lemma kept_room:
  assumes "kept mf names q d" "length names < mf" "path_exists f d"
  shows "\<exists>q'. cq_push_back f q = Inr q' \<and> kept mf (names @ [f]) q' d"
proof -
  obtain q' where "cq_push_back f q = Inr q'" "cq_ok q'" "cq_capacity q' = cq_capacity q"
      "cq_items q' = last_n (cq_capacity q) (cq_items q @ [f])"
    using cq.push_spec [of q f] assms(1) by (auto simp: kept_def)
  then show ?thesis using assms by (auto simp: kept_def last_n_all)
qed

lemma kept_full:
  assumes "kept mf names q d" "0 < mf" "mf \<le> length names" "distinct (names @ [f])" "path_exists f d"
  shows "\<exists>q1 q'. cq_front q = Inr (hd (last_n mf names)) \<and> cq_pop_front q = Inr q1 \<and> cq_push_back f q1 = Inr q' \<and>
    path_exists (hd (last_n mf names)) d \<and>
    kept mf (names @ [f]) q' (d\<lparr>files := (files d)(hd (last_n mf names) := None)\<rparr>)"
proof -
  let ?ks = "last_n mf names"
  have q: "cq_ok q" "cq_capacity q = mf" "cq_items q = ?ks" using assms(1) by (simp_all add: kept_def)
  have ne: "?ks \<noteq> []" using assms(2,3) length_last_n [of mf names] by auto
  have sub: "set ?ks \<subseteq> set names" and ds: "distinct ?ks" using assms(4) by (auto simp: last_n_def set_drop_subset in_set_dropD)
  obtain q1 where q1: "cq_pop_front q = Inr q1" "cq_ok q1" "cq_capacity q1 = mf" "cq_items q1 = tl ?ks"
    using cq.pop_spec [OF q(1)] q ne by auto
  have "length (tl ?ks @ [f]) \<le> mf" using assms(2) by (simp add: length_last_n)
  then obtain q' where q': "cq_push_back f q1 = Inr q'" "cq_ok q'" "cq_capacity q' = mf" "cq_items q' = tl ?ks @ [f]"
    using cq.push_spec [OF q1(2), of f] q1 by (auto simp: last_n_all)
  have hd: "hd ?ks \<in> set names" "hd ?ks \<in> set ?ks" using sub ne by auto
  have tl: "g \<in> set (tl ?ks) \<longleftrightarrow> g \<in> set ?ks \<and> g \<noteq> hd ?ks" for g
    using ne ds by (cases ?ks) auto
  have "f \<noteq> hd ?ks" using hd(1) assms(4) by auto
  then have "\<forall>g \<in> set (names @ [f]). path_exists g (d\<lparr>files := (files d)(hd ?ks := None)\<rparr>) \<longleftrightarrow> g \<in> set (tl ?ks @ [f])"
    using assms(1,4,5) tl by (auto simp: kept_def path_exists_def)
  then show ?thesis
    using q q1 q' hd cq.front_spec [OF q(1)] ne assms(1) last_n_full [OF assms(2,3), of f] by (auto simp: kept_def)
qed

lemma delete_old_kept:
  assumes "kept mf names (dy_filenames_q s) d" "0 < mf" "distinct (names @ [f])" "path_exists f d" "fh_filename (dy_file s) = f"
    and "free_disk d"
  shows "\<exists>q' d'. delete_old s d = Inr (None, s\<lparr>dy_filenames_q := q'\<rparr>, d') \<and> kept mf (names @ [f]) q' d' \<and> free_disk d'"
proof (cases "length names < mf")
  case True
  then have "\<not> cq_full (dy_filenames_q s)"
    using assms(1) cq.full_spec [of "dy_filenames_q s"] by (auto simp: kept_def last_n_all)
  then show ?thesis
    using kept_room [OF assms(1) True assms(4)] assms(5,6) by (auto simp: delete_old_def)
next
  case False
  then have "cq_full (dy_filenames_q s)"
    using assms(1) cq.full_spec [of "dy_filenames_q s"] by (auto simp: kept_def length_last_n)
  moreover obtain q1 q' where "cq_front (dy_filenames_q s) = Inr (hd (last_n mf names))" "cq_pop_front (dy_filenames_q s) = Inr q1"
      "cq_push_back f q1 = Inr q'" "path_exists (hd (last_n mf names)) d"
      "kept mf (names @ [f]) q' (d\<lparr>files := (files d)(hd (last_n mf names) := None)\<rparr>)"
    using kept_full [OF assms(1,2) _ assms(3,4)] False by auto
  ultimately show ?thesis
    using assms(5,6) by (auto simp: delete_old_def free_disk_def os_remove_def)
qed

lemma kept_disk:
  "kept mf names q d \<Longrightarrow> (\<And>g. g \<in> set names \<Longrightarrow> path_exists g d' = path_exists g d) \<Longrightarrow> kept mf names q d'"
  by (simp add: kept_def)

lemma dy_sink_it_plain:
  assumes "daily_inv os mf names s d" "\<not> dy_rotation_tp s \<le> t"
  shows "\<exists>fh. dy_sink_it os now l t s d = Inr (None, s\<lparr>dy_file := fh\<rparr>, d) \<and> daily_inv os mf names (s\<lparr>dy_file := fh\<rparr>) d"
proof -
  obtain b where b: "fh_fd (dy_file s) = Some b" using assms(1) by (auto simp: daily_inv_def)
  have "free_disk d" using assms(1) by (simp add: daily_inv_def)
  then show ?thesis
    using assms fh_write_free [of d "dy_file s" b l] b
    by (intro exI [of _ "(dy_file s)\<lparr>fh_fd := Some (b @ l)\<rparr>"]) (auto simp: dy_sink_it_def daily_inv_def)
qed

lemma dy_sink_it_rotates:
  fixes os base t
  defines "f \<equiv> daily_calc_filename base (dy_now_tm os t)"
  assumes inv: "daily_inv os mf names s d" and rot: "dy_rotation_tp s \<le> t" and base: "dy_base_filename s = base"
    and mf: "0 < mf" and ds: "distinct (names @ [f])"
  shows "\<exists>q fh d'. dy_sink_it os now l t s d =
      Inr (None, s\<lparr>dy_rotation_tp := next_rotation_tp os now s, dy_file := fh, dy_filenames_q := q\<rparr>, d') \<and>
    daily_inv os mf (names @ [f]) (s\<lparr>dy_rotation_tp := next_rotation_tp os now s, dy_file := fh, dy_filenames_q := q\<rparr>) d'"
proof -
  have fd: "free_disk d" and k: "kept mf names (dy_filenames_q s) d" and max: "dy_max_files s = mf"
    using inv by (simp_all add: daily_inv_def)
  obtain d1 where d1: "fh_open f (dy_truncate s) (dy_file s, d) = (None, \<lparr>fh_filename = f, fh_fd = Some []\<rparr>, d1)" "free_disk d1"
      "\<forall>g. path_exists g d1 \<longleftrightarrow> path_exists g d \<or> g = f \<or> fh_fd (dy_file s) \<noteq> None \<and> g = fh_filename (dy_file s)"
    using fh_open_free [OF fd] by blast
  have "path_exists g d1 = path_exists g d" if "g \<in> set names" for g
    using d1(3) that ds inv by (auto simp: daily_inv_def kept_def)
  then have k1: "kept mf names (dy_filenames_q s) d1" by (rule kept_disk [OF k])
  let ?s = "s\<lparr>dy_rotation_tp := next_rotation_tp os now s, dy_file := \<lparr>fh_filename = f, fh_fd = Some l\<rparr>\<rparr>"
  have "dy_sink_it os now l t s d = delete_old ?s d1"
    using rot base max mf d1(1) fh_write_free [OF d1(2), of "\<lparr>fh_filename = f, fh_fd = Some []\<rparr>" "[]" l]
    by (simp add: dy_sink_it_def f_def [symmetric])
  moreover obtain q d' where "delete_old ?s d1 = Inr (None, ?s\<lparr>dy_filenames_q := q\<rparr>, d')" "kept mf (names @ [f]) q d'" "free_disk d'"
    using delete_old_kept [of mf names ?s d1 f] k1 mf ds d1(2,3) by auto
  ultimately show ?thesis
    using max mf
    by (intro exI [of _ q] exI [of _ "\<lparr>fh_filename = f, fh_fd = Some l\<rparr>"] exI [of _ d'])
      (auto simp: daily_inv_def last_n_def)
qed

lemma dy_log_all_kept:
  "daily_inv os mf names s d \<Longrightarrow> 0 < mf \<Longrightarrow> distinct (names @ rotated os s cs) \<Longrightarrow>
     \<exists>s' d'. dy_log_all os cs s d = Inr (None, s', d') \<and> daily_inv os mf (names @ rotated os s cs) s' d'"
proof (induction cs arbitrary: names s d)
  case (Cons c cs)
  obtain l t now where c: "c = (l, t, now)" by (cases c)
  show ?case
  proof (cases "dy_rotation_tp s \<le> t")
    case False
    obtain fh where fh: "dy_sink_it os now l t s d = Inr (None, s\<lparr>dy_file := fh\<rparr>, d)" "daily_inv os mf names (s\<lparr>dy_file := fh\<rparr>) d"
      using dy_sink_it_plain [OF Cons.prems(1) False] by blast
    then show ?thesis using Cons.IH [OF fh(2) Cons.prems(2)] Cons.prems(3) False c by simp
  next
    case True
    let ?f = "daily_calc_filename (dy_base_filename s) (dy_now_tm os t)"
    let ?s = "s\<lparr>dy_rotation_tp := next_rotation_tp os now s\<rparr>"
    have r: "rotated os s (c # cs) = ?f # rotated os ?s cs" using True c by simp
    then have "distinct (names @ [?f])" using Cons.prems(3) by auto
    then obtain q fh d' where 1: "dy_sink_it os now l t s d = Inr (None, ?s\<lparr>dy_file := fh\<rparr>\<lparr>dy_filenames_q := q\<rparr>, d')"
        "daily_inv os mf (names @ [?f]) (?s\<lparr>dy_file := fh\<rparr>\<lparr>dy_filenames_q := q\<rparr>) d'"
      using dy_sink_it_rotates [OF Cons.prems(1) True refl Cons.prems(2)] by blast
    show ?thesis
      using Cons.IH [OF 1(2) Cons.prems(2)] Cons.prems(3) unfolding r rotated_frame by (simp add: c 1(1))
  qed
qed simp

lemma init_filenames_ok:
  "length (init_filenames os base n now d) \<le> n" "g \<in> set (init_filenames os base n now d) \<Longrightarrow> path_exists g d"
  by (induction os base n now d rule: init_filenames.induct) (auto simp: Let_def split: if_splits)

lemma daily_new_inv:
  assumes "daily_file_sink_new os now now1 now2 b h m tr mf d = Inr (None, s, d0)" "free_disk d" "0 < mf" "mf < 2 ^ 16"
  shows "daily_inv os mf (rev (init_filenames os b mf now2 d0)) s d0"
proof -
  let ?ns = "init_filenames os b mf now2 d0"
  obtain d1 where d1: "fh_open (daily_calc_filename b (dy_now_tm os now)) tr (\<lparr>fh_filename = [], fh_fd = None\<rparr>, d) =
      (None, \<lparr>fh_filename = daily_calc_filename b (dy_now_tm os now), fh_fd = Some []\<rparr>, d1)" "free_disk d1"
    using fh_open_free [OF assms(2)] by blast
  obtain q where q: "fold_r cq_push_back (rev ?ns) (cq_new [] mf) = Inr q" "dy_filenames_q s = q" "d0 = d1" "dy_max_files s = mf"
      "dy_file s = \<lparr>fh_filename = daily_calc_filename b (dy_now_tm os now), fh_fd = Some []\<rparr>"
    using assms(1,3) d1 by (auto simp: daily_file_sink_new_def Let_def init_filenames_q_def map_r_Inr_iff split: if_splits)
  have "mf < 2 ^ 64 - 1" using assms(4) by simp
  note new = cq_new_ok [OF this, of "[] :: string"]
  obtain q1 where "fold_r cq_push_back (rev ?ns) (cq_new [] mf) = Inr q1" "cq_ok q1" "cq_capacity q1 = mf" "cq_items q1 = last_n mf (rev ?ns)"
    using cq.pushes [of "cq_new [] mf" "[]" "rev ?ns"] new by (auto simp: last_n_def)
  then have "kept mf (rev ?ns) q d0"
    using q(1) init_filenames_ok by (auto simp: kept_def last_n_all)
  then show ?thesis
    using q(2-5) d1(2) init_filenames_ok(1) [of os b mf now2 d0] by (auto simp: daily_inv_def last_n_all)
qed

subsection \<open>Properties\<close>


text \<open>A calendar of one month, and a sink that keeps one file.\<close>

definition month_os :: daily_os where
  "month_os =
     \<lparr>dy_localtime = (\<lambda>t. \<lparr>tm_sec = 0, tm_min = 0, tm_hour = 0, tm_mday = t div 86400 + 1, tm_mon = 0, tm_year = 125, tm_wday = 0\<rparr>),
      dy_mktime = (\<lambda>d. (tm_mday d - 1) * 86400)\<rparr>"


subsection \<open>A second rotation on the same day\<close>

lemma delete_old_own:
  assumes "cq_ok (dy_filenames_q s)" "cq_capacity (dy_filenames_q s) = 1" "cq_items (dy_filenames_q s) = [f]"
    and "fh_filename (dy_file s) = f" "free_disk d" "path_exists f d"
  shows "\<exists>q. delete_old s d = Inr (None, s\<lparr>dy_filenames_q := q\<rparr>, d\<lparr>files := (files d)(f := None)\<rparr>)"
proof -
  obtain q1 where q1: "cq_pop_front (dy_filenames_q s) = Inr q1" "cq_ok q1" using cq.pop_spec [OF assms(1)] assms(3) by auto
  obtain q2 where "cq_push_back f q1 = Inr q2" using cq.push_spec [OF q1(2), of f] by auto
  moreover have "cq_full (dy_filenames_q s)" "cq_front (dy_filenames_q s) = Inr f"
    using cq.full_spec [OF assms(1)] cq.front_spec [OF assms(1)] assms(2,3) by simp_all
  ultimately show ?thesis using q1(1) assms(4-6) by (intro exI [of _ q2]) (simp add: delete_old_def os_remove_def free_disk_def)
qed

lemma daily_new_one:
  assumes "daily_file_sink_new os now now1 now2 b h m tr 1 d = Inr (None, s, d0)" and "free_disk d"
    and "daily_calc_filename b (dy_now_tm os now) = f" and "daily_calc_filename b (dy_now_tm os now2) = f"
  shows "cq_ok (dy_filenames_q s)" "cq_capacity (dy_filenames_q s) = 1" "cq_items (dy_filenames_q s) = [f]"
    "dy_base_filename s = b" "dy_max_files s = 1" "path_exists f d0" "free_disk d0"
proof -
  obtain d1 where d1: "fh_open f tr (\<lparr>fh_filename = [], fh_fd = None\<rparr>, d) = (None, \<lparr>fh_filename = f, fh_fd = Some []\<rparr>, d1)" "path_exists f d1"
    using fh_open_free [OF assms(2), of f tr "\<lparr>fh_filename = [], fh_fd = None\<rparr>"] by auto
  have s: "d0 = d1" "dy_base_filename s = b" "dy_max_files s = 1"
    using assms(1) d1(1) by (auto simp: daily_file_sink_new_def Let_def assms(3) init_filenames_q_def map_r_Inr_iff split: if_splits)
  have "init_filenames os b 1 now2 d0 = [f]" using d1(2) s(1) by (simp add: assms(4))
  then have "daily_inv os 1 [f] s d0" using daily_new_inv [OF assms(1,2)] by simp
  then show "cq_ok (dy_filenames_q s)" "cq_capacity (dy_filenames_q s) = 1" "cq_items (dy_filenames_q s) = [f]"
    "dy_base_filename s = b" "dy_max_files s = 1" "path_exists f d0" "free_disk d0"
    using s d1(2) by (simp_all add: daily_inv_def kept_def last_n_def)
qed

text \<open>
  C38. A daily sink deletes the file it writes to: started before the rotation hour with a limit of one file, on a disk without failures,
  the first message at or after the rotation hour of that day reopens the file of that day, enters its name a second time and removes it
  as the oldest. The call reports no error, the stream stays open under the name, and there is no file of that name any more, so the
  log of the day is gone, and with it the line.
\<close>

theorem daily_deletes_open_file:
  assumes "daily_file_sink_new os now now1 now2 b h m tr 1 d = Inr (None, s, d0)" and "free_disk d"
    and "daily_calc_filename b (dy_now_tm os now) = f" and "daily_calc_filename b (dy_now_tm os now2) = f"
    and "dy_rotation_tp s \<le> t" and "daily_calc_filename b (dy_now_tm os t) = f"
  shows "\<exists>s' d'. dy_sink_it os now' l t s d0 = Inr (None, s', d') \<and> dy_file s' = \<lparr>fh_filename = f, fh_fd = Some l\<rparr> \<and> \<not> path_exists f d'"
proof -
  note s = daily_new_one [OF assms(1-4)]
  obtain d1 where d1: "fh_open f (dy_truncate s) (dy_file s, d0) = (None, \<lparr>fh_filename = f, fh_fd = Some []\<rparr>, d1)" "free_disk d1"
      "path_exists f d1"
    using fh_open_free [OF s(7), of f "dy_truncate s" "dy_file s"] by auto
  let ?s = "s\<lparr>dy_rotation_tp := next_rotation_tp os now' s, dy_file := \<lparr>fh_filename = f, fh_fd = Some l\<rparr>\<rparr>"
  have "dy_sink_it os now' l t s d0 = delete_old ?s d1"
    using assms(5) d1(1) s(4,5) fh_write_free [OF d1(2), of "\<lparr>fh_filename = f, fh_fd = Some []\<rparr>" "[]" l]
    by (simp add: dy_sink_it_def assms(6))
  moreover obtain q where "delete_old ?s d1 = Inr (None, ?s\<lparr>dy_filenames_q := q\<rparr>, d1\<lparr>files := (files d1)(f := None)\<rparr>)"
    using delete_old_own [of ?s f d1] s(1-3) d1(2,3) by auto
  ultimately show ?thesis by (simp add: path_exists_def)
qed

text \<open>A sink made at one o'clock that rotates at half past two.\<close>

definition clock_os :: daily_os where
  "clock_os =
     \<lparr>dy_localtime = (\<lambda>t. \<lparr>tm_sec = t mod 60, tm_min = t div 60 mod 60, tm_hour = t div 3600 mod 24, tm_mday = t div 86400 + 1,
        tm_mon = 0, tm_year = 125, tm_wday = 0\<rparr>),
      dy_mktime = (\<lambda>d. (tm_mday d - 1) * 86400 + tm_hour d * 3600 + tm_min d * 60 + tm_sec d)\<rparr>"

theorem daily_deletes_open_file_witness:
  "\<exists>s d0 s' d'. daily_file_sink_new clock_os (3600 * ns_s) (3600 * ns_s) (3600 * ns_s) ''bt.log'' 2 30 False 1
      \<lparr>files = Map.empty, openable = (\<lambda>f. True), renamable = (\<lambda>f g e. True), removable = (\<lambda>f. True), writable = True\<rparr> = Inr (None, s, d0)
    \<and> dy_sink_it clock_os (9000 * ns_s) ''fill'' (9000 * ns_s) s d0 = Inr (None, s', d')
    \<and> dy_file s' = \<lparr>fh_filename = ''bt_2025-01-01.log'', fh_fd = Some ''fill''\<rparr> \<and> \<not> path_exists ''bt_2025-01-01.log'' d'"
proof -
  let ?d = "\<lparr>files = Map.empty, openable = (\<lambda>f. True), renamable = (\<lambda>f g e. True), removable = (\<lambda>f. True), writable = True\<rparr>"
  let ?disk = "?d\<lparr>files := [''bt_2025-01-01.log'' \<mapsto> []]\<rparr>"
  let ?q = "\<lparr>cq_max_items = 2, cq_head = 0, cq_tail = 1, cq_overrun_counter = 0, cq_v = [''bt_2025-01-01.log'', []]\<rparr>"
  let ?s = "\<lparr>dy_base_filename = ''bt.log'', dy_rotation_h = 2, dy_rotation_m = 30, dy_rotation_tp = 9000 * ns_s,
      dy_file = \<lparr>fh_filename = ''bt_2025-01-01.log'', fh_fd = Some []\<rparr>, dy_truncate = False, dy_max_files = 1, dy_filenames_q = ?q\<rparr>"
  have 1: "daily_calc_filename ''bt.log'' (dy_now_tm clock_os (3600 * ns_s)) = ''bt_2025-01-01.log''"
    and 2: "daily_calc_filename ''bt.log'' (dy_now_tm clock_os (9000 * ns_s)) = ''bt_2025-01-01.log''" by code_simp+
  have tp: "next_rotation_tp clock_os (3600 * ns_s) s = 9000 * ns_s" if "dy_rotation_h s = 2" "dy_rotation_m s = 30" for s
    using that by (simp add: next_rotation_tp_def clock_os_def dy_now_tm_def duration_cast_def ns_s_def)
  have ini: "init_filenames clock_os ''bt.log'' 1 (3600 * ns_s) ?disk = [''bt_2025-01-01.log'']"
    by (simp add: 1 path_exists_def)
  have q: "fold_r cq_push_back [''bt_2025-01-01.log''] (cq_new [] 1) = Inr ?q"
  proof -
    have two: "replicate 2 y = [y, y]" for y :: string by (simp add: numeral_2_eq_2)
    show ?thesis by (simp add: cq_new_def cq_push_back_def cq_advance_def Let_def two)
  qed
  have new: "daily_file_sink_new clock_os (3600 * ns_s) (3600 * ns_s) (3600 * ns_s) ''bt.log'' 2 30 False 1 ?d = Inr (None, ?s, ?disk)"
    using ini q by (simp add: daily_file_sink_new_def 1 tp fh_open_def fh_close_def open_tries_def numeral_eq_Suc content_def
        init_filenames_q_def)
  have "free_disk ?d" by (simp add: free_disk_def)
  from daily_deletes_open_file [OF new this 1 1 _ 2, of "9000 * ns_s" "''fill''"] new show ?thesis
    by (simp del: One_nat_def)
qed

end
