(* ===== verification/Log_Hourly.thy ===== *)
theory Log_Hourly
  imports Log_Daily
begin

section \<open>Logging: the hourly file sink (spdlog)\<close>

text \<open>
  \<open>hourly_file_sink\<close> of \<open>sinks/hourly_file_sink.h\<close>: a new file at every full hour, named after date and hour, of which the last
  \<open>max_files\<close> are kept. An initial file that is empty when it is opened is removed if no message came before the first rotation.
  Operating system, clock readings, disk and exceptions are as in \<open>Log_Daily\<close>.
\<close>

subsection \<open>State and names\<close>

record hourly_file_sink =
  hs_base_filename :: string
  hs_rotation_tp :: int
  hs_file :: file_helper
  hs_truncate :: bool
  hs_max_files :: nat
  hs_filenames_q :: "string circular_q"
  hs_remove_init_file :: bool

definition hourly_calc_filename :: "string \<Rightarrow> tm \<Rightarrow> string" where
  "hourly_calc_filename fname now_tm =
     (let (stem, ext) = split_by_extension fname
      in stem @ ''_'' @ zero_padded 4 (tm_year now_tm + 1900) @ ''-'' @ zero_padded 2 (tm_mon now_tm + 1) @ ''-'' @
         zero_padded 2 (tm_mday now_tm) @ ''_'' @ zero_padded 2 (tm_hour now_tm) @ ext)"

definition ns_hour :: int where
  "ns_hour = 3600 * ns_s"

definition hs_next_rotation_tp :: "daily_os \<Rightarrow> int \<Rightarrow> int" where
  "hs_next_rotation_tp os now =
     (let date = (dy_now_tm os now)\<lparr>tm_min := 0, tm_sec := 0\<rparr>;
          rotation_time = dy_mktime os date * ns_s
      in if now < rotation_time then rotation_time else rotation_time + ns_hour)"

subsection \<open>Operations\<close>

fun hs_init_filenames :: "daily_os \<Rightarrow> string \<Rightarrow> nat \<Rightarrow> int \<Rightarrow> disk \<Rightarrow> string list" where
  "hs_init_filenames os base 0 now d = []"
| "hs_init_filenames os base (Suc n) now d =
     (let filename = hourly_calc_filename base (dy_now_tm os now)
      in if \<not> path_exists filename d then [] else filename # hs_init_filenames os base n (now - ns_hour) d)"

definition hs_init_filenames_q :: "daily_os \<Rightarrow> int \<Rightarrow> disk \<Rightarrow> hourly_file_sink \<Rightarrow> hourly_file_sink res" where
  "hs_init_filenames_q os now d s =
     map_r (\<lambda>q. s\<lparr>hs_filenames_q := q\<rparr>)
       (fold_r cq_push_back (rev (hs_init_filenames os (hs_base_filename s) (hs_max_files s) now d)) (cq_new [] (hs_max_files s)))"

text \<open>The three readings of the clock in the constructor are \<open>now\<close>, \<open>now1\<close> and \<open>now2\<close>.\<close>

definition hourly_file_sink_new ::
  "daily_os \<Rightarrow> int \<Rightarrow> int \<Rightarrow> int \<Rightarrow> string \<Rightarrow> bool \<Rightarrow> nat \<Rightarrow> disk \<Rightarrow> (string option \<times> hourly_file_sink \<times> disk) res" where
  "hourly_file_sink_new os now now1 now2 base_filename trunc max_files d =
     (let fh = \<lparr>fh_filename = [], fh_fd = None\<rparr>;
          s = \<lparr>hs_base_filename = base_filename, hs_rotation_tp = 0, hs_file = fh, hs_truncate = trunc, hs_max_files = max_files,
               hs_filenames_q = cq_disabled, hs_remove_init_file = False\<rparr>;
          (e, fh, d) = fh_open (hourly_calc_filename base_filename (dy_now_tm os now)) trunc (fh, d);
          s = s\<lparr>hs_file := fh\<rparr>
      in case e of
           Some m \<Rightarrow> Inr (Some m, s, d)
         | None \<Rightarrow>
             (case fh_size (fh, d) of
                Inl m \<Rightarrow> Inr (Some m, s, d)
              | Inr n \<Rightarrow>
                  let s = s\<lparr>hs_remove_init_file := n = 0, hs_rotation_tp := hs_next_rotation_tp os now1\<rparr>
                  in map_r (\<lambda>s. (None, s, d)) (if 0 < max_files then hs_init_filenames_q os now2 d s else Inr s)))"

definition hs_delete_old :: "hourly_file_sink \<Rightarrow> disk \<Rightarrow> (string option \<times> hourly_file_sink \<times> disk) res" where
  "hs_delete_old s d =
     (let current_file = fh_filename (hs_file s);
          push = (\<lambda>e q d. map_r (\<lambda>q'. (e, s\<lparr>hs_filenames_q := q'\<rparr>, d)) (cq_push_back current_file q))
      in if cq_full (hs_filenames_q s) then
           bind_r (cq_front (hs_filenames_q s)) (\<lambda>old_filename.
           bind_r (cq_pop_front (hs_filenames_q s)) (\<lambda>q.
             if \<not> path_exists old_filename d then push None q d
             else let (ok, d) = os_remove old_filename d
                  in push (if ok then None else Some (''Failed removing hourly file '' @ old_filename)) q d))
         else push None (hs_filenames_q s) d)"

definition hs_sink_it ::
  "daily_os \<Rightarrow> int \<Rightarrow> string \<Rightarrow> int \<Rightarrow> hourly_file_sink \<Rightarrow> disk \<Rightarrow> (string option \<times> hourly_file_sink \<times> disk) res" where
  "hs_sink_it os now formatted msg_time s d =
     (let should_rotate = hs_rotation_tp s \<le> msg_time;
          (e, fh, d) =
            (if should_rotate then
               let (fh, d) = (if hs_remove_init_file s
                              then (let (fh, d) = fh_close (hs_file s, d) in (fh, snd (os_remove (fh_filename fh) d)))
                              else (hs_file s, d))
               in fh_open (hourly_calc_filename (hs_base_filename s) (dy_now_tm os msg_time)) (hs_truncate s) (fh, d)
             else (None, hs_file s, d));
          s = s\<lparr>hs_file := fh\<rparr>
      in case e of
           Some m \<Rightarrow> Inr (Some m, s, d)
         | None \<Rightarrow>
             let s = (if should_rotate then s\<lparr>hs_rotation_tp := hs_next_rotation_tp os now\<rparr> else s);
                 s = s\<lparr>hs_remove_init_file := False\<rparr>;
                 (e, fh, d) = fh_write formatted (hs_file s, d);
                 s = s\<lparr>hs_file := fh\<rparr>
             in case e of
                  Some m \<Rightarrow> Inr (Some m, s, d)
                | None \<Rightarrow> if should_rotate \<and> 0 < hs_max_files s then hs_delete_old s d else Inr (None, s, d))"

definition hs_flush :: "hourly_file_sink \<Rightarrow> disk \<Rightarrow> string option \<times> hourly_file_sink \<times> disk" where
  "hs_flush s d = (let (e, fh, d) = fh_flush (hs_file s, d) in (e, s\<lparr>hs_file := fh\<rparr>, d))"

fun hs_log_all ::
  "daily_os \<Rightarrow> (string \<times> int \<times> int) list \<Rightarrow> hourly_file_sink \<Rightarrow> disk \<Rightarrow> (string option \<times> hourly_file_sink \<times> disk) res" where
  "hs_log_all os [] s d = Inr (None, s, d)"
| "hs_log_all os ((l, t, now) # cs) s d =
     bind_r (hs_sink_it os now l t s d) (\<lambda>(e, s', d').
       case e of Some m \<Rightarrow> Inr (Some m, s', d') | None \<Rightarrow> hs_log_all os cs s' d')"

subsection \<open>The texts of the files\<close>

text \<open>What a file holds when the stream is closed.\<close>

definition text_of :: "file_helper \<Rightarrow> disk \<Rightarrow> string \<Rightarrow> string" where
  "text_of fh d g = content g (snd (fh_close (fh, d)))"

lemma text_of_alt: "text_of fh d g = content g d @ (if g = fh_filename fh then (case fh_fd fh of Some b \<Rightarrow> b | None \<Rightarrow> []) else [])"
  by (auto simp: text_of_def fh_close_def drain_def content_def split: option.split)

lemma text_of_close:
  "fh_close (fh, d) = (fh', d') \<Longrightarrow> text_of fh' d' = text_of fh d \<and> fh_fd fh' = None \<and> fh_filename fh' = fh_filename fh \<and>
     (free_disk d \<longrightarrow> free_disk d')"
  by (auto simp: fun_eq_iff text_of_def fh_close_def drain_def free_disk_def split: if_splits option.splits)

lemma text_of_open:
  assumes "free_disk d"
  shows "\<exists>d'. fh_open f False (fh, d) = (None, \<lparr>fh_filename = f, fh_fd = Some []\<rparr>, d') \<and> free_disk d' \<and>
    text_of \<lparr>fh_filename = f, fh_fd = Some []\<rparr> d' = text_of fh d"
proof -
  obtain fh1 d1 where 1: "fh_close (fh, d) = (fh1, d1)" by (cases "fh_close (fh, d)")
  note c = text_of_close [OF 1]
  have "fh_open f False (fh, d) = (None, \<lparr>fh_filename = f, fh_fd = Some []\<rparr>, d1\<lparr>files := (files d1)(f \<mapsto> content f d1)\<rparr>)"
    using c assms by (cases fh1) (auto simp: fh_open_def 1 open_tries_def numeral_eq_Suc free_disk_def)
  moreover have "text_of \<lparr>fh_filename = f, fh_fd = Some []\<rparr> (d1\<lparr>files := (files d1)(f \<mapsto> content f d1)\<rparr>) = text_of fh1 d1"
    using c by (simp add: fun_eq_iff text_of_alt content_def)
  ultimately show ?thesis using c assms by auto
qed

lemma text_of_write:
  assumes "free_disk d" "fh_fd fh \<noteq> None"
  shows "\<exists>fh'. fh_write l (fh, d) = (None, fh', d) \<and> fh_filename fh' = fh_filename fh \<and> fh_fd fh' \<noteq> None \<and>
    (\<forall>g. text_of fh' d g = text_of fh d g @ (if g = fh_filename fh then l else []))"
  using assms by (auto simp: fh_write_def free_disk_def text_of_alt)

lemma text_of_remove:
  "fh_fd fh = None \<Longrightarrow> text_of fh d (fh_filename fh) = [] \<Longrightarrow> text_of fh (snd (os_remove (fh_filename fh) d)) = text_of fh d"
  by (auto simp: fun_eq_iff text_of_alt os_remove_def content_def)

lemma free_disk_remove: "free_disk d \<Longrightarrow> free_disk (snd (os_remove f d))"
  by (simp add: os_remove_def)

subsection \<open>Files by the hour\<close>

text \<open>
  Of the calendar it is assumed that the name of a file depends on the hour only, and that clearing minutes and seconds gives the
  start of the hour, as in a time zone a whole number of hours from UTC. A feed of messages has times that run forward
  by hours and is logged within the hour of each message.
\<close>

definition hour_name :: "daily_os \<Rightarrow> string \<Rightarrow> int \<Rightarrow> string" where
  "hour_name os b h = hourly_calc_filename b (dy_now_tm os (h * ns_hour))"

definition hour_clock :: "daily_os \<Rightarrow> string \<Rightarrow> bool" where
  "hour_clock os b \<longleftrightarrow> (\<forall>t \<ge> 0. hourly_calc_filename b (dy_now_tm os t) = hour_name os b (t div ns_hour) \<and>
     dy_mktime os ((dy_now_tm os t)\<lparr>tm_min := 0, tm_sec := 0\<rparr>) * ns_s = t div ns_hour * ns_hour)"

fun hourly_feed :: "int \<Rightarrow> (string \<times> int \<times> int) list \<Rightarrow> bool" where
  "hourly_feed h [] \<longleftrightarrow> True"
| "hourly_feed h ((l, t, now) # cs) \<longleftrightarrow> 0 \<le> t \<and> 0 \<le> now \<and> now div ns_hour = t div ns_hour \<and> h \<le> t div ns_hour \<and>
     hourly_feed (t div ns_hour) cs"

definition hourly_inv :: "daily_os \<Rightarrow> string \<Rightarrow> int \<Rightarrow> hourly_file_sink \<Rightarrow> disk \<Rightarrow> bool" where
  "hourly_inv os b h s d \<longleftrightarrow> hs_base_filename s = b \<and> hs_rotation_tp s = (h + 1) * ns_hour \<and> \<not> hs_truncate s \<and> hs_max_files s = 0 \<and>
     fh_filename (hs_file s) = hour_name os b h \<and> fh_fd (hs_file s) \<noteq> None \<and> free_disk d \<and>
     (hs_remove_init_file s \<longrightarrow> text_of (hs_file s) d (fh_filename (hs_file s)) = [])"

lemma next_hour:
  assumes "hour_clock os b" "0 \<le> now"
  shows "hs_next_rotation_tp os now = (now div ns_hour + 1) * ns_hour"
proof -
  have "now div ns_hour * ns_hour \<le> now" by (simp add: ns_hour_def ns_s_def)
  then show ?thesis using assms by (simp add: hs_next_rotation_tp_def hour_clock_def Let_def algebra_simps)
qed

lemma hs_sink_it_by_hour:
  assumes "hour_clock os b" "hourly_inv os b h s d" "0 \<le> t" "0 \<le> now" "now div ns_hour = t div ns_hour" "h \<le> t div ns_hour"
  shows "\<exists>s' d'. hs_sink_it os now l t s d = Inr (None, s', d') \<and> hourly_inv os b (t div ns_hour) s' d' \<and>
    (\<forall>g. text_of (hs_file s') d' g = text_of (hs_file s) d g @ (if hour_name os b (t div ns_hour) = g then l else []))"
proof (cases "hs_rotation_tp s \<le> t")
  case False
  then have "t < (h + 1) * ns_hour" using assms(2) by (simp add: hourly_inv_def)
  then have "t div ns_hour < h + 1" unfolding ns_hour_def ns_s_def by simp
  with assms(6) have h: "t div ns_hour = h" by simp
  obtain fh where "fh_write l (hs_file s, d) = (None, fh, d)" "fh_filename fh = hour_name os b h" "fh_fd fh \<noteq> None"
      "\<forall>g. text_of fh d g = text_of (hs_file s) d g @ (if g = hour_name os b h then l else [])"
    using text_of_write [of d "hs_file s" l] assms(2) by (auto simp: hourly_inv_def)
  with False assms(2) show ?thesis by (auto simp: hs_sink_it_def hourly_inv_def h)
next
  case True
  let ?f = "hour_name os b (t div ns_hour)"
  define x where "x = (if hs_remove_init_file s
    then (let (fh, d) = fh_close (hs_file s, d) in (fh, snd (os_remove (fh_filename fh) d))) else (hs_file s, d))"
  obtain fh1 d1 where x1: "x = (fh1, d1)" by (cases x)
  have 1: "free_disk d1" "text_of fh1 d1 = text_of (hs_file s) d"
  proof -
    obtain fh2 d2 where c: "fh_close (hs_file s, d) = (fh2, d2)" by (cases "fh_close (hs_file s, d)")
    have "free_disk d1 \<and> text_of fh1 d1 = text_of (hs_file s) d"
      using text_of_close [OF c] text_of_remove [of fh2 d2] x1 assms(2) free_disk_remove [of d2 "fh_filename fh2"]
      by (auto simp: x_def c hourly_inv_def split: if_splits)
    then show "free_disk d1" "text_of fh1 d1 = text_of (hs_file s) d" by simp_all
  qed
  obtain d3 where 2: "fh_open ?f False (fh1, d1) = (None, \<lparr>fh_filename = ?f, fh_fd = Some []\<rparr>, d3)" "free_disk d3"
      "text_of \<lparr>fh_filename = ?f, fh_fd = Some []\<rparr> d3 = text_of (hs_file s) d"
    using text_of_open [OF 1(1), of ?f fh1] 1(2) by auto
  obtain fh where 3: "fh_write l (\<lparr>fh_filename = ?f, fh_fd = Some []\<rparr>, d3) = (None, fh, d3)" "fh_filename fh = ?f" "fh_fd fh \<noteq> None"
      "\<forall>g. text_of fh d3 g = text_of (hs_file s) d g @ (if g = ?f then l else [])"
    using text_of_write [OF 2(2), of "\<lparr>fh_filename = ?f, fh_fd = Some []\<rparr>" l] 2(3) by auto
  have "hourly_calc_filename b (dy_now_tm os t) = ?f" using assms(1,3) by (simp add: hour_clock_def)
  then have "hs_sink_it os now l t s d = Inr (None, s\<lparr>hs_file := fh, hs_rotation_tp := (t div ns_hour + 1) * ns_hour, hs_remove_init_file := False\<rparr>, d3)"
    using True assms(2) x1 2 3 next_hour [OF assms(1,4)] assms(5)
    by (simp add: hs_sink_it_def hourly_inv_def x_def [symmetric] Let_def)
  with 2(2) 3 assms(2) show ?thesis by (auto simp: hourly_inv_def)
qed

lemma hs_log_all_by_hour:
  "hour_clock os b \<Longrightarrow> hourly_inv os b h s d \<Longrightarrow> hourly_feed h cs \<Longrightarrow>
   \<exists>s' d'. hs_log_all os cs s d = Inr (None, s', d') \<and> (\<forall>g. text_of (hs_file s') d' g =
     text_of (hs_file s) d g @ concat (map fst (filter (\<lambda>(l, t, now). hour_name os b (t div ns_hour) = g) cs)))"
proof (induction cs arbitrary: h s d)
  case (Cons c cs)
  obtain l t now where c: "c = (l, t, now)" by (cases c)
  obtain s1 d1 where 1: "hs_sink_it os now l t s d = Inr (None, s1, d1)" "hourly_inv os b (t div ns_hour) s1 d1"
      "\<forall>g. text_of (hs_file s1) d1 g = text_of (hs_file s) d g @ (if hour_name os b (t div ns_hour) = g then l else [])"
    using hs_sink_it_by_hour [OF Cons.prems(1,2), of t now l] Cons.prems(3) by (auto simp: c)
  from Cons.IH [OF Cons.prems(1) 1(2)] Cons.prems(3) 1 show ?case by (auto simp: c)
qed simp

subsection \<open>Properties\<close>

text \<open>
  C39. The hourly files divide the log by the hour: on a disk without failures, for a sink that keeps all files and appends to existing
  ones, and messages that are logged within the hour of their times, which run forward, logging succeeds, and every file on the
  disk holds at the end its earlier text followed by the lines of exactly the messages whose hour gives its name, in order. In particular
  the initial file is removed only when it holds nothing.
\<close>

theorem hourly_files_by_hour:
  assumes "hour_clock os b" and "free_disk d" and "0 \<le> now" and "0 \<le> now1" and "now1 div ns_hour = now div ns_hour"
    and "hourly_feed (now div ns_hour) cs"
  shows "\<exists>s d0 s' d'. hourly_file_sink_new os now now1 now2 b False 0 d = Inr (None, s, d0)
    \<and> hs_log_all os cs s d0 = Inr (None, s', d')
    \<and> (\<forall>g. content g (snd (fh_close (hs_file s', d'))) =
         content g d @ concat (map fst (filter (\<lambda>(l, t, now). hour_name os b (t div ns_hour) = g) cs)))"
proof -
  let ?f = "hour_name os b (now div ns_hour)" and ?fh = "\<lparr>fh_filename = [], fh_fd = None\<rparr>"
  have f: "hourly_calc_filename b (dy_now_tm os now) = ?f" using assms(1,3) by (simp add: hour_clock_def)
  obtain d0 where d0: "fh_open ?f False (?fh, d) = (None, \<lparr>fh_filename = ?f, fh_fd = Some []\<rparr>, d0)" "free_disk d0"
      "text_of \<lparr>fh_filename = ?f, fh_fd = Some []\<rparr> d0 = text_of ?fh d"
    using text_of_open [OF assms(2), of ?f ?fh] by blast
  define s where "s = \<lparr>hs_base_filename = b, hs_rotation_tp = hs_next_rotation_tp os now1, hs_file = \<lparr>fh_filename = ?f, fh_fd = Some []\<rparr>,
      hs_truncate = False, hs_max_files = 0, hs_filenames_q = cq_disabled, hs_remove_init_file = length (content ?f d0) = 0\<rparr>"
  have new: "hourly_file_sink_new os now now1 now2 b False 0 d = Inr (None, s, d0)"
    by (simp add: hourly_file_sink_new_def f d0 fh_size_def s_def)
  have "hourly_inv os b (now div ns_hour) s d0"
    using d0(2) next_hour [OF assms(1,4)] assms(5) by (simp add: hourly_inv_def s_def text_of_alt)
  from hs_log_all_by_hour [OF assms(1) this assms(6)] obtain s' d' where run: "hs_log_all os cs s d0 = Inr (None, s', d')"
      "\<forall>g. text_of (hs_file s') d' g = text_of (hs_file s) d0 g @
         concat (map fst (filter (\<lambda>(l, t, now). hour_name os b (t div ns_hour) = g) cs))" by blast
  have "text_of (hs_file s) d0 g = content g d" for g using d0(3) by (simp add: s_def text_of_alt)
  with new run show ?thesis by (auto simp: text_of_def)
qed

text \<open>A calendar of one day, whose hour runs on.\<close>

definition day_os :: daily_os where
  "day_os =
     \<lparr>dy_localtime = (\<lambda>t. \<lparr>tm_sec = 0, tm_min = 0, tm_hour = t div 3600, tm_mday = 1, tm_mon = 0, tm_year = 125, tm_wday = 0\<rparr>),
      dy_mktime = (\<lambda>d. tm_hour d * 3600)\<rparr>"

lemma day_os_clock: "hour_clock day_os b"
proof -
  have "duration_cast ns_s t div 3600 = t div ns_hour" "duration_cast ns_s (t div ns_hour * ns_hour) div 3600 = t div ns_hour" if "0 \<le> t" for t
  proof -
    have "t sdiv 1000000000 = t div 1000000000" "(t div ns_hour * ns_hour) sdiv 1000000000 = t div ns_hour * ns_hour div 1000000000"
      using that by (simp_all add: sdiv_pos ns_hour_def ns_s_def)
    then show "duration_cast ns_s t div 3600 = t div ns_hour" "duration_cast ns_s (t div ns_hour * ns_hour) div 3600 = t div ns_hour"
      by (simp_all add: duration_cast_def ns_hour_def ns_s_def zdiv_zmult2_eq [symmetric])
  qed
  then show ?thesis
    by (simp add: hour_clock_def hour_name_def dy_now_tm_def day_os_def) (simp add: ns_hour_def)
qed

theorem hourly_files_by_hour_witness:
  "\<exists>s d0 s' d'. hourly_file_sink_new day_os 5 5 5 ''bt.log'' False 0
      \<lparr>files = Map.empty, openable = (\<lambda>f. True), renamable = (\<lambda>f g e. True), removable = (\<lambda>f. True), writable = True\<rparr> = Inr (None, s, d0)
    \<and> hs_log_all day_os [(''a'', ns_hour + 1, ns_hour + 2), (''b'', ns_hour + 3, ns_hour + 3), (''c'', 2 * ns_hour, 2 * ns_hour)] s d0
       = Inr (None, s', d')
    \<and> content ''bt_2025-01-01_01.log'' (snd (fh_close (hs_file s', d'))) = ''ab''
    \<and> content ''bt_2025-01-01_02.log'' (snd (fh_close (hs_file s', d'))) = ''c''"
proof -
  let ?d = "\<lparr>files = Map.empty, openable = (\<lambda>f. True), renamable = (\<lambda>f g e. True), removable = (\<lambda>f. True), writable = True\<rparr>"
  let ?cs = "[(''a'', ns_hour + 1, ns_hour + 2), (''b'', ns_hour + 3, ns_hour + 3), (''c'', 2 * ns_hour, 2 * ns_hour)]"
  have n: "hour_name day_os ''bt.log'' 1 = ''bt_2025-01-01_01.log''" "hour_name day_os ''bt.log'' 2 = ''bt_2025-01-01_02.log''"
    by code_simp+
  have "free_disk ?d" by (simp add: free_disk_def day_os_def)
  moreover have "hourly_feed (5 div ns_hour) ?cs" by (simp add: ns_hour_def ns_s_def)
  moreover have h: "(ns_hour + 1) div ns_hour = 1" "(ns_hour + 3) div ns_hour = 1" "(2 * ns_hour) div ns_hour = 2"
    by (simp_all add: ns_hour_def ns_s_def)
  ultimately obtain s d0 s' d' where "hourly_file_sink_new day_os 5 5 5 ''bt.log'' False 0 ?d = Inr (None, s, d0)"
      "hs_log_all day_os ?cs s d0 = Inr (None, s', d')"
    and t: "\<forall>g. content g (snd (fh_close (hs_file s', d'))) =
         content g ?d @ concat (map fst (filter (\<lambda>(l, t, now). hour_name day_os ''bt.log'' (t div ns_hour) = g) ?cs))"
    using hourly_files_by_hour [OF day_os_clock, of ?d 5 5 ?cs 5 "''bt.log''"] by auto
  moreover have "content ''bt_2025-01-01_01.log'' (snd (fh_close (hs_file s', d'))) = ''ab''"
      "content ''bt_2025-01-01_02.log'' (snd (fh_close (hs_file s', d'))) = ''c''"
    using t by (simp_all add: h n content_def)
  ultimately show ?thesis by blast
qed

end
