(* ===== verification/Spec2Isabelle.thy ===== *)
theory Spec2Isabelle
  imports Backtest Performance Log_Padding Log_Registry Log_Sinks Log_File Log_Hourly
begin

text \<open>
  \<^bold>\<open>UltraBacktest: a verification development.\<close>

  UltraBacktest replays recorded market data through a trading strategy and keeps the books of the resulting orders. Its parts,
  as the sources under \<open>src/\<close> have them, and how they interact:

  \<^item> A \<^emph>\<open>data reader\<close> (binary or CSV) delivers a stream of 64-byte events. The \<^emph>\<open>replay engine\<close> pulls events with one event of
    look-ahead, applies the time window of the configuration and hands each event to the \<^emph>\<open>dispatcher\<close>, which calls one
    handler of the \<^emph>\<open>strategy\<close>.
  \<^item> A strategy acts through \<open>send_order\<close>, \<open>cancel_order\<close> and \<open>modify_order\<close> on the \<^emph>\<open>exchange simulator\<close>, which stamps the
    request with clock and latency and passes it to the matching engine of UltraLOB; the engine's execution reports come
    back by callback and are booked in the \<^emph>\<open>portfolio\<close>.
  \<^item> The \<^emph>\<open>risk engine\<close> checks an order against limits and holds a kill switch; the \<^emph>\<open>analytics\<close> follow the equity curve and
    the \<^emph>\<open>report\<close> prints them; the \<^emph>\<open>Python runner\<close> drives a Python object through a bridge strategy.
  \<^item> The bundled \<^emph>\<open>logging library\<close> (spdlog, under \<open>src/build/_deps/spdlog-src/include/spdlog\<close>) formats messages by patterns and
    delivers them through loggers, sinks, an asynchronous queue with worker threads, and rotating files.

  \<^bold>\<open>Conventions.\<close> Undefined behaviour of C++ is a value: an operation that can have it returns \<open>'a res\<close>, and \<open>Inl\<close> names the kind
  (signed overflow, division by zero, an access out of bounds, a null pointer). Signed 64-bit values are integers with checked
  operations, unsigned ones are words, or naturals with the remainder by \<open>2 ^ 64\<close> written out. Exceptions are values of an
  option or a sum beside the state they leave. Loops are recursive functions with a proof that they end, or
  \<open>partial_function (option)\<close>, where \<open>None\<close> is a loop that does not end and ending is part of the theorem; no fuel is used.

  \<^bold>\<open>Theories and sources.\<close>

  \<^item> \<open>Prelude\<close>: results, checked arithmetic, folds over operations that may be undefined, little-endian bytes. \<open>Binary64\<close>: doubles
    with one rounding function. \<open>Decimal\<close>: digits and decimal texts.
  \<^item> \<open>Common_Types\<close> (\<open>common/types.hpp\<close>, \<open>common/config.hpp\<close>): identifiers, event types, fee model, configuration.
  \<^item> \<open>Events\<close> (\<open>events/event_types.hpp\<close>, \<open>events/event.hpp\<close>): the event as header and 48 raw bytes, the eight payloads read from and
    written to them, and the factories.
  \<^item> \<open>Portfolio\<close>, \<open>Portfolio_Runs\<close> (\<open>portfolio.hpp\<close>, \<open>portfolio.cpp\<close>): executions and marks. The invariant, the cash identity, the
    refinement of an abstract ledger over unbounded integers, bounds on the truncation of average prices, and a budget
    within which nothing overflows.
  \<^item> \<open>Risk\<close> (\<open>risk_engine.hpp\<close>, \<open>risk_engine.cpp\<close>): the pre-trade check refines a specification over integers; what an approved
    order satisfies; the kill switch latches.
  \<^item> \<open>Exchange\<close> (\<open>exchange_simulator.hpp\<close>, \<open>exchange_simulator.cpp\<close>): the simulator is the matching engine with a portfolio that books
    exactly its reports, in order; the timestamps of the requests the engine receives, seen by a recording engine.
  \<^item> \<open>Strategy\<close> (\<open>strategy.hpp\<close>, \<open>event_dispatcher.hpp\<close>): handlers, actions and dispatch; the locales \<open>strategy_contract\<close> and
    \<open>safe_strategy\<close> are what the replay relies on.
  \<^item> \<open>Data_Reader\<close> (\<open>data_reader.hpp\<close>): the locale \<open>data_reader\<close>, the contract of a reader. It is interpreted for the binary reader in
    \<open>Binary_Reader\<close> (\<open>binary_reader.hpp\<close>), for the CSV reader in \<open>Csv_Reader\<close> (\<open>csv_reader.hpp\<close>, with symbol mapper and decoder of
    \<open>tick_decoder.hpp\<close> in \<open>Tick_Decoder\<close>) and for the in-memory reader in \<open>Benchmark\<close> (\<open>bench_replay.cpp\<close>).
  \<^item> \<open>Replay\<close> (\<open>replay_engine.hpp\<close>): the loop, proved once in the locale for every reader: it ends and dispatches exactly the events of
    the window. \<open>Python_Runner\<close> (\<open>bindings/python/module.cpp\<close>) rests on it for binary files.
  \<^item> \<open>Performance\<close> (\<open>performance.hpp\<close>, \<open>performance.cpp\<close>, \<open>report.hpp\<close>): drawdown, returns and the printed summary.
  \<^item> \<open>Backtest\<close>: the composition, from a CSV file to the books, for every strategy that trades through its base class
    (the locale \<open>acting_strategy\<close>).
  \<^item> \<open>Log_Base\<close>, \<open>Log_Flags\<close>, \<open>Log_Pattern\<close> (\<open>common.h\<close>, \<open>log_msg.h\<close>, \<open>fmt_helper.h\<close>, \<open>pattern_formatter.h\<close>, \<open>pattern_formatter-inl.h\<close>, \<open>mdc.h\<close>): one
    definition per flag formatter, the compilation of patterns, the padders and the time cache. \<open>Log_Safety\<close>: every pattern
    formats every message. \<open>Log_Lines\<close>: the default formatter equals the pattern it documents, less the parts a
    message does not have, and the cache is invisible.
    \<open>Log_Padding\<close>: what a padded flag and escaped text print.
  \<^item> \<open>Log_Queue\<close> (\<open>circular_q.h\<close>): the ring implements the locale \<open>overrun_queue\<close>, a list that keeps the last items. \<open>Log_Async\<close>
    (\<open>log_msg_buffer-inl.h\<close>, \<open>mpmc_blocking_q.h\<close>): the blocking queue as a step relation over all interleavings of its critical
    sections and of the counting outside the lock; no message is lost unnoticed. \<open>Log_Pool\<close> (\<open>thread_pool-inl.h\<close>): loggers, workers and destructor as
    a step relation in which taking a message and handing it to the back end are separate steps; the pool drains.
  \<^item> \<open>Log_Logger\<close> (\<open>logger.h\<close>, \<open>logger-inl.h\<close>, \<open>async_logger-inl.h\<close>, \<open>backtracer-inl.h\<close>, \<open>sink-inl.h\<close>, \<open>ringbuffer_sink.h\<close>): delivery past failing
    sinks, what a throwing error handler does to it, the backtrace, and asynchronous against synchronous logging.
  \<^item> \<open>Log_Registry\<close> (\<open>registry-inl.h\<close>, \<open>cfg/helpers-inl.h\<close>): the settings of all loggers, and levels read from a text. \<open>Log_Rotate\<close>
    (\<open>file_helper-inl.h\<close>, \<open>rotating_file_sink-inl.h\<close>): the rotating files hold the newest text.
  \<^item> \<open>Log_Sinks\<close> (\<open>dist_sink.h\<close>, \<open>dup_filter_sink.h\<close>): bursts of repeated messages are collapsed and counted. \<open>Log_Daily\<close>
    (\<open>daily_file_sink.h\<close>): exactly the newest daily files are kept when each rotation has a name of its own, and the open file is deleted
    when a rotation repeats one. \<open>Log_Hourly\<close> (\<open>hourly_file_sink.h\<close>): the hourly files divide the log by
    the hour.
  \<^item> \<open>Log_Console\<close> (\<open>stdout_sinks-inl.h\<close>, \<open>ansicolor_sink-inl.h\<close>): the locale \<open>console\<close> is a place that takes one painted line for each
    message; it is interpreted for the plain and the coloured console and in \<open>Log_File\<close> (\<open>basic_file_sink-inl.h\<close>, \<open>base_sink-inl.h\<close>) for a file.
    \<open>Log_File\<close> also has the formatted read-out of the ring buffer sink.

  \<^bold>\<open>Parameters.\<close> Code that is not part of the repository is an argument of the definitions that use it: the matching engine (the record
  \<open>MatchingEngine\<close>, with the predicate that says which reports are fills), the scaling between prices and doubles, \<open>std::pow\<close>, the formatting of two
  decimals by fmt, the broken-down times, process and time zone of the operating system, the file system as a map from paths to contents,
  the virtual operations of sinks and of Python objects, the error handlers of the application, and the configuration object that Python owns. Hypotheses on them are named in the theorems: that a fill has a positive
  quantity (\<open>positive_fills\<close>), that a sink throws only standard exceptions (\<open>benign\<close>) and an error handler nothing (\<open>handler_calm\<close>), that the disk lets the log files be opened, written and
  renamed (\<open>good_disk\<close>) or removed (\<open>free_disk\<close>), that a sink throws nothing (\<open>calm\<close>), that broken-down times are in range (\<open>env_ok\<close>) and that a calendar runs by whole hours (\<open>hour_clock\<close>).

  \<^bold>\<open>Bounds.\<close> The portfolio's budget bounds prices, quantities and the number of operations so that every product and sum stays below
  \<open>2 ^ 63\<close>; queue capacities are below \<open>2 ^ 64 - 1\<close>, since the ring reserves one slot; a logged text is shorter than \<open>2 ^ 64\<close> bytes.

  \<^bold>\<open>Not modelled.\<close> \<open>wall_clock_nanos\<close> (reads the system clock); the pybind11 trampoline and module declaration (glue); the measuring loop of the
  benchmark library; the matching engine itself (an absent submodule); tests and build files; the vendored fmt, asio, CLI11,
  googletest and benchmark libraries; the templates of spdlog that format arguments, its other sinks (socket, system log, Windows) and
  its operating-system layer, which are input and output, and its periodic worker, a thread that waits on the clock. Back-end calls of different workers of a pool are single steps, though they may overlap in the program; no theorem on several workers speaks of their
  effects. Memory orders of atomics are not modelled: every flag is read in
  the order of the steps.

  \<^bold>\<open>Order of work.\<close> First the books (portfolio, risk, exchange), then the readers and the replay, the runner and the analytics, then the
  logging library from the formatter outwards to its sinks.
\<close>

end
